(* ===== verification/Prelude.thy ===== *)
theory Prelude
  imports Main "HOL-Library.Word"
begin

text \<open>
  Shared vocabulary of the development: the machine types of the kernel's C code, C string
  literals, the outcome of code that may not return, little-endian memory access, and the
  generic facts on loops over arrays and on linked lists that the component theories use.
\<close>

unbundle bit_operations_syntax

section \<open>Machine types\<close>

type_synonym u8 = "8 word"
type_synonym u16 = "16 word"
type_synonym u32 = "32 word"

text \<open>
  A C string is the list of its bytes before the terminating NUL. An ASCII literal is written
  as a HOL string; literals with other characters (the kernel's Arabic messages) are UTF-8 byte
  lists in the theory \<open>Messages\<close>.
\<close>

type_synonym cstring = "u8 list"

definition cstr :: "string \<Rightarrow> cstring" where
  "cstr s = map of_char s"

definition until_nul :: "u8 list \<Rightarrow> u8 list" where
  "until_nul s = takeWhile (\<lambda>c. c \<noteq> 0) s"

lemma until_nul_id: "0 \<notin> set s \<Longrightarrow> until_nul s = s"
  unfolding until_nul_def by (rule takeWhile_eq_all_conv [THEN iffD2]) auto

lemma until_nul_append: "0 \<notin> set xs \<Longrightarrow> until_nul (xs @ 0 # ys) = xs"
  unfolding until_nul_def by (induction xs) auto

lemma until_nul_nonzero: "0 \<notin> set (until_nul s)"
  unfolding until_nul_def by (auto dest: set_takeWhileD)

section \<open>Collections of facts\<close>

named_theorems frame_simps "fields an operation leaves unchanged"
named_theorems inv_intros "operations keep their component's invariant"

section \<open>Outcomes\<close>

text \<open>
  What running a piece of kernel code can end in: it returns; it prints and then spins in
  \<open>while(1);\<close> (the state is the one it spins in); one of its pointer loops never ends; or its
  behaviour is undefined in C: it indexes an array out of its bounds or writes through NULL.
\<close>

datatype 'a outcome = Return 'a | Halted 'a | Diverges | Undefined

fun bind_outcome :: "'a outcome \<Rightarrow> ('a \<Rightarrow> 'a outcome) \<Rightarrow> 'a outcome" where
  "bind_outcome (Return a) f = f a"
| "bind_outcome (Halted a) f = Halted a"
| "bind_outcome Diverges f = Diverges"
| "bind_outcome Undefined f = Undefined"

definition outcome_of_option :: "'a option \<Rightarrow> 'a outcome" where
  "outcome_of_option r = (case r of None \<Rightarrow> Diverges | Some a \<Rightarrow> Return a)"

lemma outcome_of_option_simps [simp]:
  "outcome_of_option None = Diverges"
  "outcome_of_option (Some a) = Return a"
  by (simp_all add: outcome_of_option_def)

lemma bind_outcome_Return [simp]: "bind_outcome r Return = r"
  by (cases r) simp_all

lemma bind_outcome_assoc:
  "bind_outcome (bind_outcome r f) g = bind_outcome r (\<lambda>a. bind_outcome (f a) g)"
  by (cases r) simp_all

section \<open>Signed reading and widening of words\<close>

lemma sint_eq_uint_if:
  "sint (w::'a::len word) = (if uint w < 2 ^ (LENGTH('a) - 1) then uint w else uint w - 2 ^ LENGTH('a))"
proof -
  define n where "n = LENGTH('a) - 1"
  have pw: "(2::int) ^ LENGTH('a) = 2 * 2 ^ n"
    by (metis Suc_pred' n_def len_gt_0 power_Suc)
  have u: "0 \<le> uint w" "uint w < 2 * 2 ^ n"
    using uint_lt2p [of w] pw by simp_all
  have "sint w = (uint w + 2 ^ n) mod (2 * 2 ^ n) - 2 ^ n"
    unfolding sint_uint n_def signed_take_bit_eq_take_bit_shift take_bit_eq_mod
    using pw n_def by simp
  moreover have "(uint w + 2 ^ n) mod (2 * 2 ^ n) = uint w - 2 ^ n" if "\<not> uint w < 2 ^ n"
    using int_mod_pos_eq [of "uint w + 2 ^ n" "2 * 2 ^ n" 1 "uint w - 2 ^ n"] that u by simp
  ultimately show ?thesis using u pw n_def by (simp add: mod_pos_pos_trivial)
qed

lemma scast_ascii: "c < 128 \<Longrightarrow> (scast (c :: u8) :: u16) = ucast c"
  unfolding word_less_alt scast_eq ucast_eq sint_eq_uint_if by simp

lemma scast_high: "c \<ge> 128 \<Longrightarrow> (scast (c :: u8) :: u16) = 0xFF00 + ucast c"
  unfolding word_le_def scast_eq ucast_eq sint_eq_uint_if by simp

lemma drop_8_ucast: "drop_bit 8 (ucast (c :: u8) :: u16) = 0"
  by (rule bit_eqI) (auto simp: bit_simps dest: bit_imp_le_length)

lemma add_ucast_byte: "take_bit 8 a = (0 :: u16) \<Longrightarrow> a + ucast (c :: u8) = a OR ucast c"
proof (rule disjunctive_add)
  fix n assume a: "take_bit 8 a = 0"
  show "\<not> bit a n \<or> \<not> bit (ucast c :: u16) n"
  proof (cases "n < 8")
    case True
    have "bit (take_bit 8 a) n = (n < 8 \<and> bit a n)" by (simp add: bit_take_bit_iff)
    then show ?thesis using True a by simp
  next
    case False
    then show ?thesis by (auto simp: bit_simps dest: bit_imp_le_length)
  qed
qed

lemma unat_u32_bound: "unat (n :: u32) < 4294967296"
  using unsigned_less [of n, where ?'a = nat] by simp

lemma unat_ucast_u32_u8: "unat (x :: u32) < 256 \<Longrightarrow> unat (ucast x :: u8) = unat x"
  by (simp add: unsigned_ucast_eq take_bit_eq_mod)

section \<open>Loops over an array\<close>

text \<open>The loop \<open>for (i = 0; i < n; i++) a[i] = f(i);\<close> over an array held as a list.\<close>

definition fill_loop :: "(nat \<Rightarrow> 'a) \<Rightarrow> nat \<Rightarrow> 'a list \<Rightarrow> 'a list" where
  "fill_loop f n xs = fold (\<lambda>i ys. ys[i := f i]) [0..<n] xs"

lemma fill_loop_0 [simp]: "fill_loop f 0 xs = xs"
  by (simp add: fill_loop_def)

lemma fill_loop_Suc: "fill_loop f (Suc n) xs = (fill_loop f n xs)[n := f n]"
  by (simp add: fill_loop_def)

lemma length_fill_loop [simp]: "length (fill_loop f n xs) = length xs"
  by (induction n) (simp_all add: fill_loop_Suc)

lemma nth_fill_loop:
  "i < length xs \<Longrightarrow> fill_loop f n xs ! i = (if i < n then f i else xs ! i)"
  by (induction n) (auto simp: fill_loop_Suc nth_list_update less_Suc_eq)

lemma fill_loop_all: "length xs = n \<Longrightarrow> fill_loop f n xs = map f [0..<n]"
  by (rule nth_equalityI) (simp_all add: nth_fill_loop)

lemma find_append: "find P (xs @ ys) = (case find P xs of None \<Rightarrow> find P ys | Some x \<Rightarrow> Some x)"
  by (induction xs) simp_all

lemma find_SomeD: "find P xs = Some x \<Longrightarrow> x \<in> set xs \<and> P x"
  by (induction xs) (auto split: if_splits)

text \<open>Assigning to one field of an array element leaves the other fields of every element alone.\<close>

lemma nth_update_field:
  assumes "\<And>x. g (f x) = g x"
  shows "g (xs[i := f (xs ! i)] ! j) = g (xs ! j)"
proof (cases "i < length xs")
  case True
  then show ?thesis using assms by (cases "i = j") simp_all
qed (simp add: not_less list_update_beyond)

section \<open>Linked lists\<close>

text \<open>
  The kernel keeps its heap blocks, its task list and its scheduler queue as linked lists.
  \<open>path nxt p xs\<close> says that the list starting at pointer \<open>p\<close> (\<open>None\<close> is NULL) ends and its
  nodes are \<open>xs\<close>. The loops below are the two shapes the code uses: walk until a node satisfies
  a test (\<open>Some None\<close> when the end is reached), and visit every node. A walk along a cyclic
  list does not return, which is the result \<open>None\<close>.
\<close>

fun path :: "('p \<Rightarrow> 'p option) \<Rightarrow> 'p option \<Rightarrow> 'p list \<Rightarrow> bool" where
  "path nxt p [] \<longleftrightarrow> p = None"
| "path nxt p (x # xs) \<longleftrightarrow> p = Some x \<and> path nxt (nxt x) xs"

partial_function (option) list_find ::
  "('p \<Rightarrow> 'p option) \<Rightarrow> ('p \<Rightarrow> bool) \<Rightarrow> 'p option \<Rightarrow> 'p option option" where
  "list_find nxt P cur =
     (case cur of None \<Rightarrow> Some None
      | Some p \<Rightarrow> if P p then Some (Some p) else list_find nxt P (nxt p))"

partial_function (option) list_fold ::
  "('p \<Rightarrow> 'p option) \<Rightarrow> ('p \<Rightarrow> 'b \<Rightarrow> 'b) \<Rightarrow> 'p option \<Rightarrow> 'b \<Rightarrow> 'b option" where
  "list_fold nxt f cur acc =
     (case cur of None \<Rightarrow> Some acc
      | Some p \<Rightarrow> list_fold nxt f (nxt p) (f p acc))"

lemma list_find_path: "path nxt p xs \<Longrightarrow> list_find nxt P p = Some (find P xs)"
  by (induction xs arbitrary: p) (simp_all add: list_find.simps)

lemma list_fold_path: "path nxt p xs \<Longrightarrow> list_fold nxt f p acc = Some (fold f xs acc)"
  by (induction xs arbitrary: p acc) (simp_all add: list_fold.simps)

lemma path_unique: "path nxt p xs \<Longrightarrow> path nxt p ys \<Longrightarrow> xs = ys"
  by (induction xs arbitrary: p ys) (metis path.elims(2) path.simps(1) option.discI,
      metis path.elims(2) path.simps(2) option.discI option.inject)

lemma path_suffix: "path nxt p (xs @ y # ys) \<Longrightarrow> path nxt (Some y) (y # ys)"
  by (induction xs arbitrary: p) auto

lemma path_next: "path nxt p (xs @ y # ys) \<Longrightarrow> nxt y = (case ys of [] \<Rightarrow> None | z # _ \<Rightarrow> Some z)"
  by (drule path_suffix) (cases ys; simp)

lemma path_distinct: "path nxt p xs \<Longrightarrow> distinct xs"
proof (induction xs arbitrary: p)
  case (Cons x xs)
  have "x \<notin> set xs"
  proof
    assume "x \<in> set xs"
    then obtain ys zs where xs: "xs = ys @ x # zs" by (auto simp: in_set_conv_decomp)
    then have "path nxt (Some x) (x # zs)" using Cons.prems path_suffix [of nxt p "x # ys" x zs] by simp
    moreover have "path nxt (Some x) (x # xs)" using Cons.prems by simp
    ultimately have "x # zs = x # xs" by (rule path_unique)
    then have "length zs = length xs" by simp
    then show False using xs by simp
  qed
  then show ?case using Cons by auto
qed simp

lemma path_cong:
  "path nxt p xs \<Longrightarrow> (\<And>x. x \<in> set xs \<Longrightarrow> nxt' x = nxt x) \<Longrightarrow> path nxt' p xs"
  by (induction xs arbitrary: p) auto

lemma path_append_node:
  assumes "path nxt p (xs @ [y])" "z \<notin> set (xs @ [y])" "nxt z = None"
  shows "path (nxt(y := Some z)) p (xs @ [y, z])"
  using assms
proof (induction xs arbitrary: p)
  case Nil
  then show ?case by auto
next
  case (Cons x xs)
  then have "x \<noteq> y" using path_distinct [OF Cons.prems(1)] by auto
  then show ?case using Cons by auto
qed

lemma path_update: "path nxt p xs \<Longrightarrow> y \<notin> set xs \<Longrightarrow> path (nxt(y := v)) p xs"
  by (induction xs arbitrary: p) auto

lemma path_remove_node:
  assumes "path nxt p (xs @ y # z # zs)"
  shows "path (nxt(y := nxt z)) p (xs @ y # zs)"
  using assms
proof (induction xs arbitrary: p)
  case Nil
  then have "y \<notin> set zs" using path_distinct by fastforce
  then have "path (nxt(y := nxt z)) (nxt z) zs"
    using Nil by (intro path_update) simp_all
  then show ?case using Nil by (simp add: fun_upd_def)
next
  case (Cons x xs)
  then have "x \<noteq> y" using path_distinct [OF Cons.prems] by auto
  then show ?case using Cons by auto
qed

text \<open>The walk that stops at the node before \<open>z\<close>, or at the last node.\<close>

lemma find_before:
  assumes "path nxt p (xs @ y # z # zs)"
  shows "find (\<lambda>q. \<not> (nxt q \<noteq> None \<and> nxt q \<noteq> Some z)) (xs @ y # z # zs) = Some y"
proof -
  have d: "distinct (xs @ y # z # zs)" using path_distinct [OF assms] .
  have "nxt q \<noteq> None \<and> nxt q \<noteq> Some z" if "q \<in> set xs" for q
  proof -
    obtain us vs where xs: "xs = us @ q # vs" using \<open>q \<in> set xs\<close> by (auto simp: in_set_conv_decomp)
    have "nxt q = (case vs @ y # z # zs of [] \<Rightarrow> None | w # _ \<Rightarrow> Some w)"
      using path_next [of nxt p us q "vs @ y # z # zs"] assms xs by simp
    then show ?thesis using d xs by (cases vs) auto
  qed
  then have "find (\<lambda>q. \<not> (nxt q \<noteq> None \<and> nxt q \<noteq> Some z)) xs = None" by (auto simp: find_None_iff)
  moreover have "nxt y = Some z" using path_next [OF assms] by simp
  ultimately show ?thesis by (simp add: find_append)
qed

lemma find_last_node:
  assumes "path nxt p (xs @ [y])" "z \<notin> set (xs @ [y])"
  shows "find (\<lambda>q. \<not> (nxt q \<noteq> None \<and> nxt q \<noteq> Some z)) (xs @ [y]) = Some y"
proof -
  have "nxt q \<noteq> None \<and> nxt q \<noteq> Some z" if "q \<in> set xs" for q
  proof -
    obtain us vs where xs: "xs = us @ q # vs" using \<open>q \<in> set xs\<close> by (auto simp: in_set_conv_decomp)
    have "nxt q = (case vs @ [y] of [] \<Rightarrow> None | w # _ \<Rightarrow> Some w)"
      using path_next [of nxt p us q "vs @ [y]"] assms(1) xs by simp
    then show ?thesis using assms(2) xs by (cases vs) auto
  qed
  then have "find (\<lambda>q. \<not> (nxt q \<noteq> None \<and> nxt q \<noteq> Some z)) xs = None" by (auto simp: find_None_iff)
  moreover have "nxt y = None" using path_next [OF assms(1)] by simp
  ultimately show ?thesis by (simp add: find_append)
qed

end
