(* ===== verification/Console.thy ===== *)
theory Console
  imports Prelude
begin

text \<open>
  The VGA text console of \<open>kernel/kernel.c\<close> (\<open>clear_screen\<close>, \<open>print_char\<close>, \<open>scroll_screen\<close>,
  \<open>print_number\<close>, \<open>print_string\<close>) and \<open>print_hex\<close> of \<open>kernel/interrupt.c\<close>. The state is the
  video buffer of 80 by 25 cells, the cursor, and a record of the stores through \<open>vga_buffer\<close>
  that miss the buffer. The record is the base of the kernel's state: every other component
  extends it, so a console operation applies to the whole state.
\<close>

section \<open>State and operations\<close>

definition VGA_WIDTH :: int where "VGA_WIDTH = 80"
definition VGA_HEIGHT :: int where "VGA_HEIGHT = 25"
definition VGA_COLOR_WHITE :: u16 where "VGA_COLOR_WHITE = 0x0F"
definition VGA_COLOR_BLACK :: u16 where "VGA_COLOR_BLACK = 0x00"

record console =
  vga_buffer :: "u16 list"
  cursor_x :: int
  cursor_y :: int
  stray_stores :: "(int \<times> u16) list"

text \<open>
  The assignment \<open>vga_buffer[i] = v\<close>. C does not check the index: a store outside the 2000 cells
  changes whatever lies there. Such a store is kept in \<open>stray_stores\<close>, with its index and value.
\<close>

definition vga_store :: "int \<Rightarrow> u16 \<Rightarrow> 'a console_scheme \<Rightarrow> 'a console_scheme" where
  "vga_store i v s =
     (if 0 \<le> i \<and> i < int (length (vga_buffer s)) then s\<lparr>vga_buffer := (vga_buffer s)[nat i := v]\<rparr>
      else s\<lparr>stray_stores := stray_stores s @ [(i, v)]\<rparr>)"

text \<open>
  The accesses in order: \<open>for (i = 0; i < VGA_WIDTH * VGA_HEIGHT; i++)\<close> of \<open>clear_screen\<close>, the body
  of the two nested copy loops of \<open>scroll_screen\<close>, and its loop that blanks the last row.
\<close>

definition clear_screen :: "'a console_scheme \<Rightarrow> 'a console_scheme" where
  "clear_screen s =
     (fold (\<lambda>i. vga_store (int i) (push_bit 8 VGA_COLOR_BLACK OR 0x20)) [0..<nat (VGA_WIDTH * VGA_HEIGHT)] s)
       \<lparr>cursor_x := 0, cursor_y := 0\<rparr>"

definition copy_cell :: "nat \<Rightarrow> nat \<Rightarrow> 'a console_scheme \<Rightarrow> 'a console_scheme" where
  "copy_cell row col s =
     vga_store ((int row - 1) * VGA_WIDTH + int col) (vga_buffer s ! nat (int row * VGA_WIDTH + int col)) s"

definition copy_row :: "nat \<Rightarrow> 'a console_scheme \<Rightarrow> 'a console_scheme" where
  "copy_row row s = fold (copy_cell row) [0..<nat VGA_WIDTH] s"

definition blank_cell :: "nat \<Rightarrow> 'a console_scheme \<Rightarrow> 'a console_scheme" where
  "blank_cell col = vga_store ((VGA_HEIGHT - 1) * VGA_WIDTH + int col) (0x20 OR push_bit 8 7)"

definition scroll_screen :: "'a console_scheme \<Rightarrow> 'a console_scheme" where
  "scroll_screen s =
     (let s = fold copy_row [1..<nat VGA_HEIGHT] s;
          s = fold blank_cell [0..<nat VGA_WIDTH] s
      in s\<lparr>cursor_y := VGA_HEIGHT - 1, cursor_x := 0\<rparr>)"

text \<open>\<open>cursor_x = 0; cursor_y++\<close> and the scroll at the bottom, in both branches of \<open>print_char\<close>.\<close>

definition new_line :: "'a console_scheme \<Rightarrow> 'a console_scheme" where
  "new_line s =
     (let s = s\<lparr>cursor_x := 0, cursor_y := cursor_y s + 1\<rparr>
      in if cursor_y s \<ge> VGA_HEIGHT then scroll_screen (s\<lparr>cursor_y := VGA_HEIGHT - 1\<rparr>) else s)"

text \<open>
  \<open>char\<close> is signed for this compiler and target, so \<open>(uint16_t)c\<close> sign-extends.
\<close>

definition vga_cell :: "u8 \<Rightarrow> u16" where
  "vga_cell c = scast c OR push_bit 8 VGA_COLOR_WHITE"

definition cell_index :: "'a console_scheme \<Rightarrow> int" where
  "cell_index s = cursor_y s * VGA_WIDTH + cursor_x s"

definition print_char :: "u8 \<Rightarrow> 'a console_scheme \<Rightarrow> 'a console_scheme" where
  "print_char c s =
     (if c = 0x0A then new_line s
      else
        let s = vga_store (cell_index s) (vga_cell c) s;
            s = s\<lparr>cursor_x := cursor_x s + 1\<rparr>
        in if cursor_x s \<ge> VGA_WIDTH then new_line s else s)"

definition print_chars :: "u8 list \<Rightarrow> 'a console_scheme \<Rightarrow> 'a console_scheme" where
  "print_chars cs s = fold print_char cs s"

definition print_string :: "cstring \<Rightarrow> 'a console_scheme \<Rightarrow> 'a console_scheme" where
  "print_string str s = print_chars (until_nul str) s"

text \<open>
  \<open>print_number\<close>: the loop that stores the decimal digits, least significant first, in
  \<open>buffer[0], buffer[1], \<dots>\<close>, and the loop that prints them backwards.
\<close>

function number_digits :: "u32 \<Rightarrow> u8 list" where
  "number_digits num =
     (if num > 0 then (0x30 + ucast (num mod 10)) # number_digits (num div 10) else [])"
  by pat_completeness auto
termination
proof (relation "measure unat")
  fix num :: u32
  assume "num > 0"
  then have "0 < unat num" by (simp add: word_less_nat_alt)
  then have "unat num div 10 < unat num" by simp
  then show "(num div 10, num) \<in> measure unat" by (simp add: unat_div)
qed simp

declare number_digits.simps [simp del]

definition print_number :: "u32 \<Rightarrow> 'a console_scheme \<Rightarrow> 'a console_scheme" where
  "print_number num s =
     (if num = 0 then print_char 0x30 s else print_chars (rev (number_digits num)) s)"

definition hex_chars :: cstring where
  "hex_chars = cstr ''0123456789ABCDEF''"

text \<open>\<open>for (int i = 7; i >= 0; i--)\<close>: the first argument is the number of digits still to store.\<close>

fun hex_loop :: "nat \<Rightarrow> u32 \<Rightarrow> u8 list \<Rightarrow> u8 list" where
  "hex_loop 0 value buffer = buffer"
| "hex_loop (Suc i) value buffer =
     hex_loop i (drop_bit 4 value) (buffer[i := hex_chars ! unat (value AND 0xF)])"

definition hex_buffer :: "u32 \<Rightarrow> u8 list" where
  "hex_buffer value = hex_loop 8 value (replicate 9 0)"

definition print_hex :: "u32 \<Rightarrow> 'a console_scheme \<Rightarrow> 'a console_scheme" where
  "print_hex value s =
     (let s = print_string (cstr ''0x'') s in print_string (hex_buffer value) s)"

section \<open>Screen geometry\<close>

lemmas vga_consts = VGA_WIDTH_def VGA_HEIGHT_def VGA_COLOR_WHITE_def VGA_COLOR_BLACK_def

text \<open>The screen as it should always be: 2000 cells, no store has missed them, and the cursor is on one of them.\<close>

definition console_inv :: "'a console_scheme \<Rightarrow> bool" where
  "console_inv s \<longleftrightarrow> length (vga_buffer s) = 2000 \<and> stray_stores s = []
     \<and> 0 \<le> cursor_x s \<and> cursor_x s < 80 \<and> 0 \<le> cursor_y s \<and> cursor_y s < 25"

lemma console_invD:
  assumes "console_inv s"
  shows "length (vga_buffer s) = 2000" "0 \<le> cursor_x s" "cursor_x s < 80"
    "0 \<le> cursor_y s" "cursor_y s < 25" "stray_stores s = []"
  using assms by (simp_all add: console_inv_def)

lemma cell_index_bound: "console_inv s \<Longrightarrow> 0 \<le> cell_index s \<and> cell_index s < 2000"
  unfolding console_inv_def cell_index_def vga_consts by simp

subsection \<open>Stores\<close>

lemma vga_store_inside:
  "0 \<le> i \<Longrightarrow> i < int (length (vga_buffer s)) \<Longrightarrow> vga_store i v s = s\<lparr>vga_buffer := (vga_buffer s)[nat i := v]\<rparr>"
  by (simp add: vga_store_def)

lemma vga_store_fields [simp]:
  "cursor_x (vga_store i v s) = cursor_x s" "cursor_y (vga_store i v s) = cursor_y s"
  "length (vga_buffer (vga_store i v s)) = length (vga_buffer s)"
  by (simp_all add: vga_store_def)

lemma vga_store_nat:
  "k < length (vga_buffer s) \<Longrightarrow> vga_store (int k) v s = s\<lparr>vga_buffer := (vga_buffer s)[k := v]\<rparr>"
  by (simp add: vga_store_def)

text \<open>A loop of stores that all hit the buffer is the loop on the buffer.\<close>

lemma fold_stores:
  assumes "\<And>x s. x \<in> set xs \<Longrightarrow> length (vga_buffer s) = n \<Longrightarrow> f x s = (s :: 'a console_scheme)\<lparr>vga_buffer := g x (vga_buffer s)\<rparr>"
    and "\<And>x b. length (g x b) = length b" and "length (vga_buffer s) = n"
  shows "fold f xs s = s\<lparr>vga_buffer := fold g xs (vga_buffer s)\<rparr>"
  using assms(1,3)
proof (induction xs arbitrary: s)
  case (Cons x xs)
  have "fold f (x # xs) s = fold f xs (s\<lparr>vga_buffer := g x (vga_buffer s)\<rparr>)" using Cons.prems by simp
  also have "\<dots> = s\<lparr>vga_buffer := fold g (x # xs) (vga_buffer s)\<rparr>"
    using Cons.IH [of "s\<lparr>vga_buffer := g x (vga_buffer s)\<rparr>"] Cons.prems assms(2) by simp
  finally show ?case .
qed simp

subsection \<open>Scrolling\<close>

text \<open>The same loops on the buffer alone.\<close>

definition move_cell :: "nat \<Rightarrow> nat \<Rightarrow> u16 list \<Rightarrow> u16 list" where
  "move_cell row col b = b[(row - 1) * 80 + col := b ! (row * 80 + col)]"

definition move_row :: "nat \<Rightarrow> u16 list \<Rightarrow> u16 list" where
  "move_row row b = fold (move_cell row) [0..<80] b"

lemma length_move_cells [simp]: "length (fold (move_cell row) cols b) = length b"
  by (induction cols arbitrary: b) (simp_all add: move_cell_def)

lemma length_move_row [simp]: "length (move_row row b) = length b"
  by (simp add: move_row_def)

lemma length_move_rows [simp]: "length (fold move_row rows b) = length b"
  by (induction rows arbitrary: b) simp_all

lemma nth_move_cells:
  assumes "i < length b" "n \<le> 80" "row * 80 + 160 \<le> length b"
  shows "fold (move_cell (Suc row)) [0..<n] b ! i =
    (if row * 80 \<le> i \<and> i < row * 80 + n then b ! (i + 80) else b ! i)"
  using assms(1,2)
proof (induction n arbitrary: i)
  case 0
  then show ?case by auto
next
  case (Suc n)
  let ?c = "fold (move_cell (Suc row)) [0..<n] b"
  have "?c ! (row * 80 + n + 80) = b ! (row * 80 + n + 80)"
    using Suc.IH [of "row * 80 + n + 80"] Suc.prems assms(3) by simp
  moreover have "?c ! i = (if row * 80 \<le> i \<and> i < row * 80 + n then b ! (i + 80) else b ! i)"
    using Suc.IH Suc.prems by simp
  moreover have "fold (move_cell (Suc row)) [0..<Suc n] b =
      ?c[row * 80 + n := ?c ! (row * 80 + n + 80)]"
    by (simp add: move_cell_def [of _ n] VGA_WIDTH_def algebra_simps)
  ultimately show ?case
    using Suc.prems by (auto simp: nth_list_update less_Suc_eq simp del: upt_Suc)
qed

lemma nth_move_row:
  assumes "i < length b" "row * 80 + 160 \<le> length b"
  shows "move_row (Suc row) b ! i =
    (if row * 80 \<le> i \<and> i < row * 80 + 80 then b ! (i + 80) else b ! i)"
  using nth_move_cells [of i b 80 row] assms by (simp add: move_row_def VGA_WIDTH_def)

lemma nth_move_rows:
  assumes "i < length b" "n * 80 + 80 \<le> length b"
  shows "fold move_row [1..<Suc n] b ! i = (if i < n * 80 then b ! (i + 80) else b ! i)"
  using assms
proof (induction n arbitrary: i)
  case 0
  then show ?case by simp
next
  case (Suc n)
  let ?c = "fold move_row [1..<Suc n] b"
  have "move_row (Suc n) ?c ! i =
      (if n * 80 \<le> i \<and> i < n * 80 + 80 then ?c ! (i + 80) else ?c ! i)"
    using Suc.prems by (intro nth_move_row) simp_all
  moreover have "?c ! j = (if j < n * 80 then b ! (j + 80) else b ! j)" if "j < length b" for j
    using Suc.IH [OF that] Suc.prems by simp
  moreover have "fold move_row [1..<Suc (Suc n)] b = move_row (Suc n) ?c" by simp
  ultimately show ?case using Suc.prems by (simp del: upt_Suc)
qed

lemma blank_loop:
  assumes "length b = k + 80" "n \<le> 80"
  shows "fold (\<lambda>col c. c[k + col := v]) [0..<n] b = take k b @ replicate n v @ drop (k + n) b"
  using assms(2)
proof (induction n)
  case 0
  then show ?case by simp
next
  case (Suc n)
  then have "drop (k + n) b = b ! (k + n) # drop (k + Suc n) b"
    using assms(1) by (simp add: Cons_nth_drop_Suc)
  then show ?case using Suc assms(1)
    by (simp add: list_update_append replicate_append_same)
qed

text \<open>The reference: rows move up by one and the bottom row is blank, light grey on black.\<close>

definition scrolled :: "u16 list \<Rightarrow> u16 list" where
  "scrolled b = drop 80 b @ replicate 80 0x0720"

lemma length_scrolled [simp]: "length b = 2000 \<Longrightarrow> length (scrolled b) = 2000"
  by (simp add: scrolled_def)

lemma scroll_buffer:
  assumes "length b = 2000"
  shows "fold (\<lambda>col c. c[1920 + col := 0x0720]) [0..<80] (fold move_row [1..<25] b) = scrolled b"
proof -
  let ?c = "fold move_row [1..<25] b"
  have "take 1920 ?c = drop 80 b"
  proof (rule nth_equalityI)
    show "length (take 1920 ?c) = length (drop 80 b)" using assms by simp
    fix i assume "i < length (take 1920 ?c)"
    then have "i < 1920" by simp
    then show "take 1920 ?c ! i = drop 80 b ! i"
      using nth_move_rows [of i b 24] assms by (simp add: add.commute)
  qed
  moreover have "fold (\<lambda>col c. c[1920 + col := 0x0720]) [0..<80] ?c = take 1920 ?c @ replicate 80 0x0720 @ drop 2000 ?c"
    using blank_loop [of ?c 1920 80 "0x0720"] assms by simp
  ultimately show ?thesis using assms by (simp add: scrolled_def)
qed

subsection \<open>Every operation stays on the screen\<close>

lemma copy_cell_eq:
  assumes "length (vga_buffer s) = 2000" "1 \<le> row" "row < 25" "col < 80"
  shows "copy_cell row col s = s\<lparr>vga_buffer := move_cell row col (vga_buffer s)\<rparr>"
proof -
  have i: "(int row - 1) * 80 + int col = int ((row - 1) * 80 + col)" and j: "nat (int row * 80 + int col) = row * 80 + col"
    using assms(2) by auto
  have "(row - 1) * 80 + col < 2000" using assms(2-) by linarith
  then show ?thesis
    unfolding copy_cell_def VGA_WIDTH_def i j move_cell_def using assms(1) by (subst vga_store_nat) simp_all
qed

lemma copy_row_eq:
  "length (vga_buffer s) = 2000 \<Longrightarrow> 1 \<le> row \<Longrightarrow> row < 25 \<Longrightarrow> copy_row row s = s\<lparr>vga_buffer := move_row row (vga_buffer s)\<rparr>"
  unfolding copy_row_def move_row_def VGA_WIDTH_def by (intro fold_stores [THEN trans]) (auto simp: copy_cell_eq move_cell_def)

lemma blank_cell_eq:
  "length (vga_buffer s) = 2000 \<Longrightarrow> col < 80 \<Longrightarrow> blank_cell col s = s\<lparr>vga_buffer := (vga_buffer s)[1920 + col := 0x0720]\<rparr>"
  unfolding blank_cell_def vga_consts by (subst vga_store_inside) (auto simp: nat_add_distrib)

lemma scroll_screen_eq:
  assumes "length (vga_buffer s) = 2000"
  shows "scroll_screen s = s\<lparr>vga_buffer := scrolled (vga_buffer s), cursor_y := 24, cursor_x := 0\<rparr>"
proof -
  have rows: "fold copy_row [1..<25] s = s\<lparr>vga_buffer := fold move_row [1..<25] (vga_buffer s)\<rparr>"
    using assms by (intro fold_stores) (auto simp: copy_row_eq)
  have "fold blank_cell [0..<80] t = t\<lparr>vga_buffer := fold (\<lambda>col c. c[1920 + col := 0x0720]) [0..<80] (vga_buffer t)\<rparr>"
    if "length (vga_buffer t) = 2000" for t :: "'a console_scheme"
    using that by (intro fold_stores) (auto simp: blank_cell_eq)
  from this [of "fold copy_row [1..<25] s"] have "fold blank_cell [0..<80] (fold copy_row [1..<25] s) = s\<lparr>vga_buffer := scrolled (vga_buffer s)\<rparr>"
    unfolding rows using scroll_buffer [OF assms] assms by simp
  moreover have "nat VGA_WIDTH = 80" "nat VGA_HEIGHT = 25" "VGA_HEIGHT - 1 = 24" by (simp_all add: vga_consts)
  ultimately show ?thesis by (simp only: scroll_screen_def Let_def)
qed

lemma clear_screen_eq:
  assumes "length (vga_buffer s) = 2000"
  shows "clear_screen s = s\<lparr>vga_buffer := replicate 2000 0x0020, cursor_x := 0, cursor_y := 0\<rparr>"
proof -
  have "fold (\<lambda>i. vga_store (int i) 0x20) [0..<2000] s = s\<lparr>vga_buffer := fold (\<lambda>i b. b[i := 0x20]) [0..<2000] (vga_buffer s)\<rparr>"
    using assms by (intro fold_stores) (auto simp: vga_store_inside)
  also have "fold (\<lambda>i b. b[i := 0x20]) [0..<2000] (vga_buffer s) = fill_loop (\<lambda>_. 0x20) 2000 (vga_buffer s)" by (simp add: fill_loop_def)
  also have "\<dots> = replicate 2000 0x20" using fill_loop_all [OF assms] by (simp add: map_replicate_const)
  finally show ?thesis by (simp add: clear_screen_def vga_consts)
qed

lemma new_line_inv:
  assumes "length (vga_buffer s) = 2000" "stray_stores s = []" "0 \<le> cursor_y s" "cursor_y s < 25"
  shows "console_inv (new_line s)"
  using assms by (simp add: new_line_def Let_def VGA_HEIGHT_def scroll_screen_eq console_inv_def)

lemma clear_screen_inv [inv_intros]:
  "length (vga_buffer s) = 2000 \<Longrightarrow> stray_stores s = [] \<Longrightarrow> console_inv (clear_screen s)"
  by (simp add: clear_screen_eq console_inv_def)

text \<open>On the screen the store of \<open>print_char\<close> hits the buffer.\<close>

lemma store_cell:
  "console_inv s \<Longrightarrow> vga_store (cell_index s) v s = s\<lparr>vga_buffer := (vga_buffer s)[nat (cell_index s) := v]\<rparr>"
  using cell_index_bound [of s] console_invD(1) [of s] by (intro vga_store_inside) auto

lemma print_char_inv [inv_intros]:
  assumes "console_inv s"
  shows "console_inv (print_char c s)"
proof -
  have nl: "console_inv (new_line t)"
    if "length (vga_buffer t) = 2000" "stray_stores t = []" "cursor_y t = cursor_y s" for t :: "'a console_scheme"
    using that console_invD [OF assms] by (intro new_line_inv) simp_all
  show ?thesis using console_invD [OF assms] nl
    by (simp add: print_char_def Let_def VGA_WIDTH_def store_cell [OF assms]) (simp add: console_inv_def)
qed

lemma print_chars_inv [inv_intros]: "console_inv s \<Longrightarrow> console_inv (print_chars cs s)"
  unfolding print_chars_def by (induction cs arbitrary: s) (simp_all add: print_char_inv)

lemma print_string_inv [inv_intros]: "console_inv s \<Longrightarrow> console_inv (print_string str s)"
  by (simp add: print_string_def print_chars_inv)

lemma print_number_inv [inv_intros]: "console_inv s \<Longrightarrow> console_inv (print_number n s)"
  by (simp add: print_number_def print_chars_inv print_char_inv)

lemma print_hex_inv [inv_intros]: "console_inv s \<Longrightarrow> console_inv (print_hex n s)"
  by (simp add: print_hex_def Let_def print_string_inv)

section \<open>Frame: what the console operations do not touch\<close>

text \<open>
  The interface between the console and its clients: an observer of the state that does not
  look at the console's fields sees no difference after any printing. Each component
  interprets this locale for its own fields.
\<close>

locale console_frame =
  fixes f :: "'a console_scheme \<Rightarrow> 'b"
  assumes f_vga_buffer: "\<And>s b. f (s\<lparr>vga_buffer := b\<rparr>) = f s"
    and f_cursor_x: "\<And>s x. f (s\<lparr>cursor_x := x\<rparr>) = f s"
    and f_cursor_y: "\<And>s y. f (s\<lparr>cursor_y := y\<rparr>) = f s"
    and f_stray_stores: "\<And>s l. f (s\<lparr>stray_stores := l\<rparr>) = f s"
begin

lemma f_update:
  "f (s\<lparr>vga_buffer := b, cursor_x := x, cursor_y := y\<rparr>) = f s"
  "f (s\<lparr>cursor_x := x, cursor_y := y\<rparr>) = f s"
  by (simp_all only: f_vga_buffer f_cursor_x f_cursor_y)

lemma f_vga_store: "f (vga_store i v s) = f s"
  unfolding vga_store_def by (simp only: if_distrib [of f] f_vga_buffer f_stray_stores if_cancel)

lemma f_fold_stores: "(\<And>x s. f (g x s) = f s) \<Longrightarrow> f (fold g xs s) = f s"
  by (induction xs arbitrary: s) simp_all

lemma f_scroll_screen: "f (scroll_screen s) = f s"
  unfolding scroll_screen_def Let_def
  by (simp only: f_cursor_x f_cursor_y)
     (simp only: f_fold_stores copy_row_def copy_cell_def blank_cell_def f_vga_store)

lemma f_clear_screen [simp]: "f (clear_screen s) = f s"
  unfolding clear_screen_def by (simp only: f_cursor_x f_cursor_y f_fold_stores f_vga_store)

lemma f_new_line: "f (new_line s) = f s"
  unfolding new_line_def Let_def
  by (cases "cursor_y (s\<lparr>cursor_x := 0, cursor_y := cursor_y s + 1\<rparr>) \<ge> VGA_HEIGHT")
     (simp_all only: if_True if_False f_scroll_screen f_cursor_x f_cursor_y)

lemma f_print_char [simp]: "f (print_char c s) = f s"
  unfolding print_char_def Let_def
  by (simp only: if_distrib [of f] f_new_line f_cursor_x f_vga_store if_cancel)

lemma f_print_chars [simp]: "f (print_chars cs s) = f s"
  unfolding print_chars_def by (induction cs arbitrary: s) simp_all

lemma f_print_string [simp]: "f (print_string str s) = f s"
  by (simp add: print_string_def)

lemma f_print_number [simp]: "f (print_number n s) = f s"
  by (simp add: print_number_def)

lemma f_print_hex [simp]: "f (print_hex n s) = f s"
  by (simp add: print_hex_def Let_def)

end

section \<open>What printing writes\<close>

lemma vga_cell_eq: "vga_cell c = (if c < 128 then 0x0F00 else 0xFF00) OR ucast c"
proof (cases "c < 128")
  case True
  then show ?thesis by (simp add: vga_cell_def VGA_COLOR_WHITE_def scast_ascii or.commute)
next
  case False
  then have "scast c = (0xFF00 :: u16) OR ucast c" by (simp add: scast_high add_ucast_byte)
  moreover have "(0xFF00 :: u16) OR 0x0F00 = 0xFF00" by simp
  ultimately show ?thesis using False
    by (simp add: vga_cell_def VGA_COLOR_WHITE_def or.assoc or.commute or.left_commute)
qed

lemma vga_cell_char: "ucast (vga_cell c) = c"
proof -
  have "(0x0F00 :: u8) OR c = 0 OR c" "(0xFF00 :: u8) OR c = 0 OR c"
    by (rule arg_cong [of _ _ "\<lambda>x. x OR c"], simp)+
  moreover have "(ucast (ucast c :: u16) :: u8) = c" by (rule bit_eqI) (auto simp: bit_simps)
  ultimately show ?thesis by (simp add: vga_cell_eq unsigned_or_eq)
qed

lemma vga_cell_attribute: "drop_bit 8 (vga_cell c) = (if c < 128 then 0x0F else 0xFF)"
  by (simp add: vga_cell_eq drop_8_ucast drop_bit_or)

text \<open>Text that contains no newline and ends before the last column of the row.\<close>

lemma print_char_fits:
  assumes "console_inv s" "c \<noteq> 10" "cursor_x s + 1 < 80"
  shows "print_char c s = s\<lparr>vga_buffer := (vga_buffer s)[nat (cell_index s) := vga_cell c],
    cursor_x := cursor_x s + 1\<rparr>"
  using assms(2,3) by (simp add: print_char_def Let_def VGA_WIDTH_def store_cell [OF assms(1)])

lemma print_chars_fits:
  assumes "console_inv s" "10 \<notin> set cs" "cursor_x s + int (length cs) < 80"
  shows "print_chars cs s =
    s\<lparr>vga_buffer := take (nat (cell_index s)) (vga_buffer s) @ map vga_cell cs
        @ drop (nat (cell_index s) + length cs) (vga_buffer s),
      cursor_x := cursor_x s + int (length cs)\<rparr>"
  using assms
proof (induction cs arbitrary: s)
  case Nil
  then show ?case by (simp add: print_chars_def)
next
  case (Cons c cs)
  let ?t = "print_char c s"
  have t: "?t = s\<lparr>vga_buffer := (vga_buffer s)[nat (cell_index s) := vga_cell c],
      cursor_x := cursor_x s + 1\<rparr>"
    using Cons.prems by (intro print_char_fits) simp_all
  have i: "nat (cell_index ?t) = Suc (nat (cell_index s))" and b: "nat (cell_index s) < length (vga_buffer s)"
    using console_invD [OF Cons.prems(1)] cell_index_bound [OF Cons.prems(1)]
    by (simp_all add: t cell_index_def vga_consts Suc_nat_eq_nat_zadd1)
  have "print_chars (c # cs) s = print_chars cs ?t" by (simp add: print_chars_def)
  also have "\<dots> = ?t\<lparr>vga_buffer := take (nat (cell_index ?t)) (vga_buffer ?t) @ map vga_cell cs
        @ drop (nat (cell_index ?t) + length cs) (vga_buffer ?t),
      cursor_x := cursor_x ?t + int (length cs)\<rparr>"
    using Cons.prems print_char_inv [of s c] by (intro Cons.IH) (simp_all add: t)
  finally show ?case using b unfolding i
    by (simp add: t take_Suc_conv_app_nth drop_update_cancel take_update_cancel)
qed

section \<open>Decimal and hexadecimal output\<close>

text \<open>The value of a decimal string, most significant digit first, and of a hexadecimal one.\<close>

definition dec_value :: "u8 list \<Rightarrow> nat" where
  "dec_value ds = foldl (\<lambda>v d. 10 * v + unat (d - 0x30)) 0 ds"

definition hex_digit_value :: "u8 \<Rightarrow> nat" where
  "hex_digit_value d = (if d < 0x3A then unat (d - 0x30) else unat (d - 0x37))"

definition hex_value :: "u8 list \<Rightarrow> nat" where
  "hex_value ds = foldl (\<lambda>v d. 16 * v + hex_digit_value d) 0 ds"


lemma dec_value_snoc: "dec_value (ds @ [d]) = 10 * dec_value ds + unat (d - 0x30)"
  by (simp add: dec_value_def)

lemma digit_value: "unat (ucast (n mod 10) :: u8) = unat (n :: u32) mod 10"
proof -
  have "unat (n mod 10) = unat n mod 10" by (simp add: unat_mod take_bit_eq_mod)
  then show ?thesis using unat_ucast_u32_u8 [of "n mod 10"] by simp
qed

lemma number_digits_value: "dec_value (rev (number_digits n)) = unat n"
proof (induction n rule: number_digits.induct)
  case (1 n)
  show ?case
  proof (cases "n > 0")
    case True
    have "10 * (unat n div 10) + unat n mod 10 = unat n" by simp
    then show ?thesis using True 1
      by (subst number_digits.simps) (simp add: dec_value_snoc digit_value unat_div)
  next
    case False
    then show ?thesis
      by (subst number_digits.simps) (simp add: dec_value_def word_gt_0)
  qed
qed

lemma number_digits_length: "unat n < 10 ^ k \<Longrightarrow> length (number_digits n) \<le> k"
proof (induction k arbitrary: n)
  case 0
  then show ?case by (subst number_digits.simps) (simp add: unat_eq_zero)
next
  case (Suc k)
  then have "length (number_digits (n div 10)) \<le> k" by (intro Suc.IH) (simp add: unat_div)
  then show ?case by (subst number_digits.simps) simp
qed

lemma hex_value_snoc: "hex_value (ds @ [d]) = 16 * hex_value ds + hex_digit_value d"
  by (simp add: hex_value_def)

lemma hex_digit_roundtrip: "k < 16 \<Longrightarrow> hex_digit_value (hex_chars ! k) = k"
proof -
  have "list_all (\<lambda>k. hex_digit_value (hex_chars ! k) = k) [0..<16]" by code_simp
  then show "k < 16 \<Longrightarrow> hex_digit_value (hex_chars ! k) = k" by (simp add: list_all_iff)
qed

lemma low_nibble: "unat (v AND 0xF :: u32) = unat v mod 16"
proof -
  have "v AND 0xF = take_bit 4 v" by (simp add: take_bit_eq_mask mask_eq_exp_minus_1)
  then show ?thesis by (simp add: unat_mod take_bit_eq_mod)
qed

lemma length_hex_loop [simp]: "length (hex_loop i v b) = length b"
  by (induction i v b rule: hex_loop.induct) simp_all

lemma hex_loop_above: "i \<le> j \<Longrightarrow> hex_loop i v b ! j = b ! j"
  by (induction i v b rule: hex_loop.induct) simp_all

lemma hex_loop_value: "i \<le> length b \<Longrightarrow> hex_value (take i (hex_loop i v b)) = unat v mod 16 ^ i"
proof (induction i v b rule: hex_loop.induct)
  case (1 v b)
  then show ?case by (simp add: hex_value_def)
next
  case (2 i v b)
  let ?b = "b[i := hex_chars ! unat (v AND 0xF)]"
  have "hex_value (take (Suc i) (hex_loop (Suc i) v b)) =
      16 * hex_value (take i (hex_loop i (drop_bit 4 v) ?b)) + hex_digit_value (?b ! i)"
    using 2(2) by (simp add: take_Suc_conv_app_nth hex_value_snoc hex_loop_above)
  also have "\<dots> = 16 * (unat v div 16 mod 16 ^ i) + unat v mod 16"
    using 2 by (simp add: hex_digit_roundtrip low_nibble unat_drop_bit_eq drop_bit_eq_div [of 4 "unat v"])
  also have "\<dots> = unat v mod 16 ^ Suc i" by (simp add: mod_mult2_eq)
  finally show ?case .
qed

lemma number_digit_range: "d \<in> set (number_digits n) \<Longrightarrow> 0x30 \<le> d \<and> d \<le> 0x39"
proof (induction n rule: number_digits.induct)
  case (1 n)
  have "unat (ucast (n mod 10) :: u8) < 10" by (simp add: digit_value)
  then have "0x30 \<le> (0x30 + ucast (n mod 10) :: u8) \<and> (0x30 + ucast (n mod 10) :: u8) \<le> 0x39"
    by (simp add: word_le_nat_alt unat_word_ariths)
  then show ?case using 1 by (subst (asm) (2) number_digits.simps) (auto split: if_splits)
qed

lemma number_digits_last: "n > 0 \<Longrightarrow> number_digits n \<noteq> [] \<and> last (number_digits n) \<noteq> 0x30"
proof (induction n rule: number_digits.induct)
  case (1 n)
  show ?case
  proof (cases "n div 10 > 0")
    case True
    then show ?thesis using 1 by (subst number_digits.simps) (simp add: number_digits.simps [of n])
  next
    case False
    then have z: "n div 10 = 0" by (simp add: word_gt_0)
    then have "unat n div 10 = 0" using unat_div [of n 10] by simp
    then have "unat (ucast (n mod 10) :: u8) = unat n" by (simp add: digit_value)
    then have "ucast (n mod 10) \<noteq> (0 :: u8)" using 1(2) by (auto simp: word_gt_0 unat_eq_zero)
    then show ?thesis using 1(2) z
      by (simp add: number_digits.simps [of n] number_digits.simps [of 0])
  qed
qed

lemma hex_char_nonzero: "k < 16 \<Longrightarrow> hex_chars ! k \<noteq> 0"
proof -
  have "list_all (\<lambda>k. hex_chars ! k \<noteq> 0) [0..<16]" by code_simp
  then show "k < 16 \<Longrightarrow> hex_chars ! k \<noteq> 0" by (simp add: list_all_iff)
qed

lemma hex_loop_nonzero: "i \<le> length b \<Longrightarrow> 0 \<notin> set (take i (hex_loop i v b))"
proof (induction i v b rule: hex_loop.induct)
  case (1 v b)
  then show ?case by simp
next
  case (2 i v b)
  have "unat (v AND 0xF) < 16" by (simp add: low_nibble)
  then show ?case using 2
    by (auto simp: take_Suc_conv_app_nth hex_loop_above dest: hex_char_nonzero)
qed

lemma until_nul_hex_buffer: "until_nul (hex_buffer v) = take 8 (hex_buffer v)"
proof -
  have "hex_buffer v ! 8 = 0" by (simp add: hex_buffer_def hex_loop_above)
  then have "hex_buffer v = take 8 (hex_buffer v) @ [0]"
    using take_Suc_conv_app_nth [of 8 "hex_buffer v"] by (simp add: hex_buffer_def)
  moreover have "0 \<notin> set (take 8 (hex_buffer v))"
    unfolding hex_buffer_def by (rule hex_loop_nonzero) simp
  ultimately show ?thesis
    using until_nul_append [of "take 8 (hex_buffer v)" "[]"] by (metis arg_cong)
qed

section \<open>Properties\<close>

text \<open>The screen at power-on, before \<open>clear_screen\<close>: any contents, cursor at the origin.\<close>

definition power_on_console :: console where
  "power_on_console = \<lparr>vga_buffer = replicate 2000 0, cursor_x = 0, cursor_y = 0, stray_stores = []\<rparr>"

lemma power_on_console_inv: "console_inv power_on_console"
  by (simp add: console_inv_def power_on_console_def)

text \<open>
  C34: memory safety of text output. On an 80 by 25 screen whose cursor is on it, clearing the screen and
  printing any character, string, decimal or hexadecimal number store to cells of the video buffer
  only: no store misses the 2000 cells, those of the copying and blanking loops of \<open>scroll_screen\<close>
  included; afterwards the cursor is on the screen again and the buffer has its 2000 cells.
\<close>

theorem console_output_safe:
  assumes "length (vga_buffer s) = 2000" "0 \<le> cursor_x s" "cursor_x s < 80" "0 \<le> cursor_y s" "cursor_y s < 25"
    and "stray_stores s = []"
    and "t \<in> {clear_screen s, print_char c s, print_string str s, print_number n s, print_hex n s}"
  shows "stray_stores t = [] \<and> length (vga_buffer t) = 2000
    \<and> 0 \<le> cursor_x t \<and> cursor_x t < 80 \<and> 0 \<le> cursor_y t \<and> cursor_y t < 25"
proof -
  have "console_inv s" using assms by (simp add: console_inv_def)
  then have "console_inv t" using assms by (auto intro: inv_intros)
  then show ?thesis by (simp add: console_inv_def)
qed

theorem console_output_safe_witness:
  "stray_stores (print_string (cstr ''hi'') (power_on_console\<lparr>cursor_x := 79, cursor_y := 24\<rparr>)) = []"
proof -
  let ?s = "power_on_console\<lparr>cursor_x := 79, cursor_y := 24\<rparr>"
  have "length (vga_buffer ?s) = 2000" "0 \<le> cursor_x ?s" "cursor_x ?s < 80" "0 \<le> cursor_y ?s" "cursor_y ?s < 25" "stray_stores ?s = []"
    by (simp_all add: power_on_console_def)
  from console_output_safe [OF this, of "print_string (cstr ''hi'') ?s" 0 "cstr ''hi''" 0] show ?thesis by blast
qed

text \<open>
  C8: scrolling. The nested copy loops of \<open>scroll_screen\<close> and its blanking loop compute the
  reference: every row moves up by one, the first row is lost, the last row becomes blanks in
  light grey, the cursor goes to the start of the last row, and nothing else changes; in particular
  no store misses the buffer.
\<close>

theorem scroll_screen_correct:
  assumes "length (vga_buffer s) = 2000"
  shows "scroll_screen s =
    s\<lparr>vga_buffer := drop 80 (vga_buffer s) @ replicate 80 0x0720, cursor_y := 24, cursor_x := 0\<rparr>"
  using scroll_screen_eq [OF assms] by (simp add: scrolled_def)

theorem scroll_screen_correct_witness:
  "vga_buffer (scroll_screen (power_on_console\<lparr>vga_buffer := replicate 80 1 @ replicate 80 2 @ replicate 1840 3\<rparr>))
     = replicate 80 2 @ replicate 1840 3 @ replicate 80 0x0720"
proof -
  let ?s = "power_on_console\<lparr>vga_buffer := replicate 80 1 @ replicate 80 2 @ replicate 1840 3\<rparr>"
  have "length (vga_buffer ?s) = 2000" by simp
  from scroll_screen_correct [OF this] show ?thesis by simp
qed

text \<open>
  Printing text. A string without newlines that ends before the last column appears in the
  video buffer cell by cell from the cursor on, nothing else on the screen changes, and the
  cursor moves behind it.
\<close>

theorem print_string_fits:
  assumes "console_inv s" "0 \<notin> set str" "10 \<notin> set str" "cursor_x s + int (length str) < 80"
  shows "print_string str s =
    s\<lparr>vga_buffer := take (nat (cell_index s)) (vga_buffer s) @ map vga_cell str
        @ drop (nat (cell_index s) + length str) (vga_buffer s),
      cursor_x := cursor_x s + int (length str)\<rparr>"
  using print_chars_fits [OF assms(1,3,4)] assms(2) by (simp add: print_string_def until_nul_id)

theorem print_string_fits_witness:
  "vga_buffer (print_string (cstr ''hi'') power_on_console) = [0x0F68, 0x0F69] @ replicate 1998 0"
proof -
  have "0 \<notin> set (cstr ''hi'')" "10 \<notin> set (cstr ''hi'')" by code_simp+
  moreover have "cursor_x power_on_console + int (length (cstr ''hi'')) < 80"
    by (simp add: power_on_console_def cstr_def)
  moreover have "map vga_cell (cstr ''hi'') = [0x0F68, 0x0F69]" by code_simp
  ultimately show ?thesis
    using print_string_fits [OF power_on_console_inv, of "cstr ''hi''"]
    by (simp add: power_on_console_def cell_index_def cstr_def)
qed

text \<open>
  C35: \<open>print_number\<close>. For every 32-bit value it prints a non-empty string of ASCII digits that
  reads back as the value, with no leading zero, and the digits fit the local buffer of 12 bytes.
\<close>

theorem print_number_decimal:
  "\<exists>ds. print_number n s = print_chars ds s \<and> dec_value ds = unat n
     \<and> set ds \<subseteq> {0x30..0x39}
     \<and> 1 \<le> length ds \<and> length ds \<le> 10 \<and> (hd ds = 0x30 \<longleftrightarrow> n = 0)"
proof (cases "n = 0")
  case True
  then show ?thesis
    by (intro exI [of _ "[0x30]"]) (simp add: print_number_def print_chars_def dec_value_def)
next
  case False
  then have "n > 0" by (simp add: word_gt_0)
  then have l: "number_digits n \<noteq> []" "last (number_digits n) \<noteq> 0x30"
    using number_digits_last by blast+
  moreover have "length (number_digits n) \<le> 10"
    using unat_u32_bound [of n] by (intro number_digits_length) simp
  ultimately show ?thesis using False
    by (intro exI [of _ "rev (number_digits n)"])
       (auto simp: print_number_def number_digits_value hd_rev Suc_le_eq dest: number_digit_range)
qed

text \<open>
  \<open>print_hex\<close>. For every 32-bit value it prints \<open>0x\<close> and then exactly eight upper-case
  hexadecimal digits that read back as the value.
\<close>

theorem print_hex_roundtrip:
  "print_hex v s = print_chars (cstr ''0x'' @ take 8 (hex_buffer v)) s
   \<and> length (take 8 (hex_buffer v)) = 8 \<and> hex_value (take 8 (hex_buffer v)) = unat v"
proof (intro conjI)
  have "until_nul (cstr ''0x'') = cstr ''0x''" by (rule until_nul_id) code_simp
  then show "print_hex v s = print_chars (cstr ''0x'' @ take 8 (hex_buffer v)) s"
    by (simp add: print_hex_def print_string_def until_nul_hex_buffer print_chars_def)
  show "length (take 8 (hex_buffer v)) = 8" by (simp add: hex_buffer_def)
  have "unat v mod 16 ^ 8 = unat v" using unat_u32_bound [of v] by simp
  then show "hex_value (take 8 (hex_buffer v)) = unat v"
    unfolding hex_buffer_def by (subst hex_loop_value) simp_all
qed

text \<open>
  The colour attribute. An ASCII character is stored with the attribute white on black
  (0x0F), but a byte of 0x80 or more (every byte of the kernel's UTF-8 Arabic messages) is
  sign-extended first, and its attribute becomes 0xFF: blinking white on white.
\<close>

theorem vga_cell_attributes:
  "(ucast (vga_cell c) :: u8) = c
   \<and> drop_bit 8 (vga_cell c) = (if c < 128 then 0x0F else 0xFF)"
  by (intro conjI vga_cell_char vga_cell_attribute)

end
