(* ===== verification/Ports.thy ===== *)
theory Ports
  imports Console
begin

text \<open>
  The processor facilities the C code reaches through inline assembly in \<open>kernel/interrupt.c\<close>:
  port output and input (\<open>outb\<close>, \<open>inb\<close>), the interrupt flag (\<open>sti\<close>, \<open>cli\<close>) and the fault
  address register \<open>cr2\<close>. Bytes sent to ports are recorded in order. What a device answers is not
  determined by the kernel: \<open>port_input k p\<close> is the byte the environment supplies for the k-th
  read, from port \<open>p\<close>, and every theorem holds for any such function.
\<close>

record machine = console +
  port_output :: "(u16 \<times> u8) list"
  port_input :: "nat \<Rightarrow> u16 \<Rightarrow> u8"
  port_reads :: nat
  interrupt_flag :: bool
  cr2 :: u32

definition outb :: "u16 \<Rightarrow> u8 \<Rightarrow> 'a machine_scheme \<Rightarrow> 'a machine_scheme" where
  "outb port val s = s\<lparr>port_output := port_output s @ [(port, val)]\<rparr>"

definition inb :: "u16 \<Rightarrow> 'a machine_scheme \<Rightarrow> u8 \<times> 'a machine_scheme" where
  "inb port s = (port_input s (port_reads s) port, s\<lparr>port_reads := port_reads s + 1\<rparr>)"

definition enable_interrupts :: "'a machine_scheme \<Rightarrow> 'a machine_scheme" where
  "enable_interrupts s = s\<lparr>interrupt_flag := True\<rparr>"

definition disable_interrupts :: "'a machine_scheme \<Rightarrow> 'a machine_scheme" where
  "disable_interrupts s = s\<lparr>interrupt_flag := False\<rparr>"

section \<open>Frame\<close>

interpretation port_output_frame: console_frame port_output
  by unfold_locales simp_all

interpretation port_input_frame: console_frame port_input
  by unfold_locales simp_all

interpretation port_reads_frame: console_frame port_reads
  by unfold_locales simp_all

interpretation interrupt_flag_frame: console_frame interrupt_flag
  by unfold_locales simp_all

text \<open>
  Dually, an observer that does not look at the port fields is not affected by port access.
\<close>

locale port_frame =
  fixes f :: "'a machine_scheme \<Rightarrow> 'b"
  assumes f_port_output: "\<And>s v. f (s\<lparr>port_output := v\<rparr>) = f s"
    and f_port_reads: "\<And>s v. f (s\<lparr>port_reads := v\<rparr>) = f s"
begin

lemma f_outb [simp]: "f (outb p v s) = f s"
  by (simp add: outb_def f_port_output)

lemma f_inb [simp]: "f (snd (inb p s)) = f s"
  by (simp add: inb_def f_port_reads)

end

interpretation console_inv_ports: port_frame console_inv
  by unfold_locales (simp_all add: console_inv_def)

interpretation port_input_ports: port_frame port_input
  by unfold_locales simp_all

end
