(* ===== verification/Bytes.thy ===== *)
theory Bytes
  imports Prelude
begin

text \<open>
  Physical memory as the C code sees it: a function from 32-bit addresses to bytes, with
  little-endian access to 32-bit words and the byte loops \<open>memset\<close>, \<open>memcpy\<close> and \<open>memcmp\<close> of
  \<open>kernel/memory.c\<close>. The lemmas say when an access is not affected by a store; they speak about
  addresses as natural numbers below \<open>2 ^ 32\<close>, where address ranges do not wrap.
\<close>

type_synonym bytes = "u32 \<Rightarrow> u8"

section \<open>Access\<close>

definition read32 :: "bytes \<Rightarrow> u32 \<Rightarrow> u32" where
  "read32 m a = ucast (m a) OR push_bit 8 (ucast (m (a + 1)))
     OR push_bit 16 (ucast (m (a + 2))) OR push_bit 24 (ucast (m (a + 3)))"

definition write32 :: "u32 \<Rightarrow> u32 \<Rightarrow> bytes \<Rightarrow> bytes" where
  "write32 a v m = m(a := ucast v, a + 1 := ucast (drop_bit 8 v),
     a + 2 := ucast (drop_bit 16 v), a + 3 := ucast (drop_bit 24 v))"

text \<open>
  The loops \<open>for (i = 0; i < size; i++) p[i] = \<dots>\<close>: the last argument of the recursion is the
  number of bytes still to do, the address runs upwards and wraps like the pointer does.
\<close>

fun memset_loop :: "u32 \<Rightarrow> u8 \<Rightarrow> nat \<Rightarrow> bytes \<Rightarrow> bytes" where
  "memset_loop p v 0 m = m"
| "memset_loop p v (Suc n) m = memset_loop (p + 1) v n (m(p := v))"

definition memset :: "u32 \<Rightarrow> u32 \<Rightarrow> u32 \<Rightarrow> bytes \<Rightarrow> bytes" where
  "memset ptr val sz m = memset_loop ptr (ucast val) (unat sz) m"

fun memcpy_loop :: "u32 \<Rightarrow> u32 \<Rightarrow> nat \<Rightarrow> bytes \<Rightarrow> bytes" where
  "memcpy_loop d s 0 m = m"
| "memcpy_loop d s (Suc n) m = memcpy_loop (d + 1) (s + 1) n (m(d := m s))"

definition memcpy :: "u32 \<Rightarrow> u32 \<Rightarrow> u32 \<Rightarrow> bytes \<Rightarrow> bytes" where
  "memcpy dest src sz m = memcpy_loop dest src (unat sz) m"

text \<open>\<open>return p1[i] - p2[i]\<close> is the difference of two bytes promoted to \<open>int\<close>.\<close>

fun memcmp_loop :: "u32 \<Rightarrow> u32 \<Rightarrow> nat \<Rightarrow> bytes \<Rightarrow> int" where
  "memcmp_loop p q 0 m = 0"
| "memcmp_loop p q (Suc n) m =
     (if m p \<noteq> m q then uint (m p) - uint (m q) else memcmp_loop (p + 1) (q + 1) n m)"

definition memcmp :: "u32 \<Rightarrow> u32 \<Rightarrow> u32 \<Rightarrow> bytes \<Rightarrow> int" where
  "memcmp ptr1 ptr2 sz m = memcmp_loop ptr1 ptr2 (unat sz) m"

section \<open>Addresses as natural numbers\<close>

definition adr :: "nat \<Rightarrow> u32" where
  "adr x = of_nat x"

lemma adr_eq_iff: "x < 4294967296 \<Longrightarrow> y < 4294967296 \<Longrightarrow> adr x = adr y \<longleftrightarrow> x = y"
  by (simp add: adr_def word_of_nat_eq_iff take_bit_eq_mod)

lemma unat_adr: "x < 4294967296 \<Longrightarrow> unat (adr x) = x"
  by (simp add: adr_def unat_of_nat take_bit_eq_mod)

lemma adr_unat [simp]: "adr (unat w) = w"
  by (simp add: adr_def)

lemma adr_le_iff: "x < 4294967296 \<Longrightarrow> y < 4294967296 \<Longrightarrow> adr x \<le> adr y \<longleftrightarrow> x \<le> y"
  by (simp add: word_le_nat_alt unat_adr)

lemma adr_less_iff: "x < 4294967296 \<Longrightarrow> y < 4294967296 \<Longrightarrow> adr x < adr y \<longleftrightarrow> x < y"
  by (simp add: word_less_nat_alt unat_adr)

lemma adr_add [simp]: "adr x + adr y = adr (x + y)"
  "adr x + numeral k = adr (x + numeral k)" "adr x + 1 = adr (x + 1)"
  by (simp_all add: adr_def)

lemma adr_diff: "y \<le> x \<Longrightarrow> adr x - adr y = adr (x - y)"
  "numeral k \<le> x \<Longrightarrow> adr x - numeral k = adr (x - numeral k)"
  by (simp_all add: adr_def of_nat_diff)

lemma adr_0 [simp]: "adr 0 = 0"
  by (simp add: adr_def)

lemma adr_eq_0: "x < 4294967296 \<Longrightarrow> adr x = 0 \<longleftrightarrow> x = 0"
  using adr_eq_iff [of x 0] by simp

section \<open>Reading what was written\<close>

lemma bytes_of_word:
  "(ucast (ucast v :: u8) :: u32) OR push_bit 8 (ucast (ucast (drop_bit 8 v) :: u8))
     OR push_bit 16 (ucast (ucast (drop_bit 16 v) :: u8))
     OR push_bit 24 (ucast (ucast (drop_bit 24 v) :: u8)) = v"
proof (rule bit_eqI)
  fix n assume "possible_bit TYPE(32 word) n"
  then have n: "n < 32" by simp
  then have "n < 8 \<or> 8 \<le> n \<and> n - 8 < 8 \<or> 16 \<le> n \<and> n - 16 < 8 \<or> 24 \<le> n \<and> n - 24 < 8"
    by auto
  then show "bit ((ucast (ucast v :: u8) :: u32) OR push_bit 8 (ucast (ucast (drop_bit 8 v) :: u8))
     OR push_bit 16 (ucast (ucast (drop_bit 16 v) :: u8))
     OR push_bit 24 (ucast (ucast (drop_bit 24 v) :: u8))) n = bit v n"
    using n by (elim disjE) (auto simp: bit_simps)
qed

lemma read32_write32 [simp]: "read32 (write32 a v m) a = v"
  using bytes_of_word [of v] by (simp add: read32_def write32_def)

lemma write32_outside:
  "i \<noteq> a \<Longrightarrow> i \<noteq> a + 1 \<Longrightarrow> i \<noteq> a + 2 \<Longrightarrow> i \<noteq> a + 3 \<Longrightarrow> write32 a v m i = m i"
  by (simp add: write32_def)

lemma write32_outside_nat:
  assumes "i < x \<or> x + 4 \<le> i" "x + 4 \<le> 4294967296" "i < 4294967296"
  shows "write32 (adr x) v m (adr i) = m (adr i)"
proof -
  have "adr i \<noteq> adr (x + k)" if "k < 4" for k
    using assms that by (subst adr_eq_iff) auto
  from this [of 0] this [of 1] this [of 2] this [of 3] show ?thesis
    by (intro write32_outside) simp_all
qed

lemma read32_cong:
  "(\<And>k. k < 4 \<Longrightarrow> m (adr (x + k)) = m' (adr (x + k))) \<Longrightarrow>
   read32 m (adr x) = read32 m' (adr x)"
proof -
  assume *: "\<And>k. k < 4 \<Longrightarrow> m (adr (x + k)) = m' (adr (x + k))"
  from *[of 0] *[of 1] *[of 2] *[of 3] show ?thesis
    by (simp add: read32_def)
qed

text \<open>\<open>memset\<close> and \<open>memcpy\<close> on a range that does not wrap.\<close>

lemma memset_loop_at:
  assumes "p + n \<le> 4294967296" "i < 4294967296"
  shows "memset_loop (adr p) v n m (adr i) = (if p \<le> i \<and> i < p + n then v else m (adr i))"
  using assms(1)
proof (induction n arbitrary: p m)
  case 0
  then show ?case by auto
next
  case (Suc n)
  have "memset_loop (adr p) v (Suc n) m (adr i) =
      memset_loop (adr (p + 1)) v n (m(adr p := v)) (adr i)"
    by simp
  also have "\<dots> = (if p + 1 \<le> i \<and> i < p + 1 + n then v else (m(adr p := v)) (adr i))"
    using Suc.prems by (intro Suc.IH) simp
  also have "\<dots> = (if p \<le> i \<and> i < p + Suc n then v else m (adr i))"
    using Suc.prems assms(2) by (auto simp: adr_eq_iff)
  finally show ?case .
qed

lemma memcpy_loop_at:
  assumes "d + n \<le> 4294967296" "s + n \<le> 4294967296" "i < 4294967296"
    and "d + n \<le> s \<or> s + n \<le> d"
  shows "memcpy_loop (adr d) (adr s) n m (adr i) =
    (if d \<le> i \<and> i < d + n then m (adr (s + (i - d))) else m (adr i))"
  using assms(1,2,4)
proof (induction n arbitrary: d s m)
  case 0
  then show ?case by auto
next
  case (Suc n)
  let ?m = "m(adr d := m (adr s))"
  have "memcpy_loop (adr d) (adr s) (Suc n) m (adr i) =
      memcpy_loop (adr (d + 1)) (adr (s + 1)) n ?m (adr i)"
    by simp
  also have "\<dots> = (if d + 1 \<le> i \<and> i < d + 1 + n then ?m (adr (s + 1 + (i - (d + 1)))) else ?m (adr i))"
    using Suc.prems by (intro Suc.IH) auto
  also have "\<dots> = (if d \<le> i \<and> i < d + Suc n then m (adr (s + (i - d))) else m (adr i))"
  proof (cases "d + 1 \<le> i \<and> i < d + 1 + n")
    case True
    then have "adr (s + (i - d)) \<noteq> adr d"
      using Suc.prems by (subst adr_eq_iff) auto
    moreover have "s + 1 + (i - (d + 1)) = s + (i - d)" using True by linarith
    ultimately show ?thesis using True by simp
  next
    case False
    then show ?thesis using Suc.prems assms(3) by (auto simp: adr_eq_iff)
  qed
  finally show ?case .
qed

end
