(* ===== verification/Messages.thy ===== *)
theory Messages
  imports Prelude
begin

text \<open>
  The string literals of the kernel that are not ASCII: its Arabic messages, as the UTF-8 bytes
  the compiler stores for them. Each is named after the file and the line it is printed on. The
  ASCII literals are written where they are used, with \<open>cstr\<close>.
\<close>

definition msg_memory_49 :: cstring where
  "msg_memory_49 =
    [0x4D, 0x65, 0x6D, 0x6F, 0x72, 0x79, 0x20, 0x4D, 0x61, 0x6E, 0x61, 0x67, 0x65, 0x72,
     0x3A, 0x20, 0xD8, 0xAA, 0xD9, 0x85, 0x20, 0xD8, 0xAA, 0xD9, 0x87, 0xD9, 0x8A, 0xD8,
     0xA6, 0xD8, 0xA9, 0x20, 0xD9, 0x85, 0xD8, 0xAF, 0xD9, 0x8A, 0xD8, 0xB1, 0x20, 0xD8,
     0xA7, 0xD9, 0x84, 0xD8, 0xB0, 0xD8, 0xA7, 0xD9, 0x83, 0xD8, 0xB1, 0xD8, 0xA9, 0x0A]"

definition msg_interrupt_19 :: cstring where
  "msg_interrupt_19 =
    [0x5B, 0x4B, 0x45, 0x52, 0x4E, 0x45, 0x4C, 0x5D, 0x20, 0xD8, 0xAA, 0xD9, 0x87, 0xD9,
     0x8A, 0xD8, 0xA6, 0xD8, 0xA9, 0x20, 0xD9, 0x86, 0xD8, 0xB8, 0xD8, 0xA7, 0xD9, 0x85,
     0x20, 0xD8, 0xA7, 0xD9, 0x84, 0xD9, 0x85, 0xD9, 0x82, 0xD8, 0xA7, 0xD8, 0xB7, 0xD8,
     0xB9, 0xD8, 0xA7, 0xD8, 0xAA, 0x2E, 0x2E, 0x2E, 0x0A]"

definition msg_interrupt_44 :: cstring where
  "msg_interrupt_44 =
    [0x5B, 0x4B, 0x45, 0x52, 0x4E, 0x45, 0x4C, 0x5D, 0x20, 0xD8, 0xAA, 0xD9, 0x85, 0x20,
     0xD8, 0xAA, 0xD9, 0x87, 0xD9, 0x8A, 0xD8, 0xA6, 0xD8, 0xA9, 0x20, 0xD9, 0x86, 0xD8,
     0xB8, 0xD8, 0xA7, 0xD9, 0x85, 0x20, 0xD8, 0xA7, 0xD9, 0x84, 0xD9, 0x85, 0xD9, 0x82,
     0xD8, 0xA7, 0xD8, 0xB7, 0xD8, 0xB9, 0xD8, 0xA7, 0xD8, 0xAA, 0x20, 0xD8, 0xA8, 0xD9,
     0x86, 0xD8, 0xAC, 0xD8, 0xA7, 0xD8, 0xAD, 0x0A]"

definition msg_interrupt_145 :: cstring where
  "msg_interrupt_145 =
    [0x5B, 0x4B, 0x45, 0x52, 0x4E, 0x45, 0x4C, 0x5D, 0x20, 0xD8, 0xA7, 0xD8, 0xB3, 0xD8,
     0xAA, 0xD8, 0xAB, 0xD9, 0x86, 0xD8, 0xA7, 0xD8, 0xA1, 0x20, 0xD8, 0xBA, 0xD9, 0x8A,
     0xD8, 0xB1, 0x20, 0xD9, 0x85, 0xD8, 0xB9, 0xD8, 0xA7, 0xD9, 0x84, 0xD8, 0xAC, 0x3A, 0x20]"

definition msg_interrupt_184 :: cstring where
  "msg_interrupt_184 =
    [0x5B, 0x4B, 0x42, 0x5D, 0x20, 0xD9, 0x85, 0xD9, 0x81, 0xD8, 0xAA, 0xD8, 0xA7, 0xD8,
     0xAD, 0x3A, 0x20]"

definition msg_interrupt_191 :: cstring where
  "msg_interrupt_191 =
    [0x5B, 0x45, 0x52, 0x52, 0x4F, 0x52, 0x5D, 0x20, 0xD8, 0xAE, 0xD8, 0xB7, 0xD8, 0xA3,
     0x3A, 0x20, 0xD8, 0xA7, 0xD9, 0x84, 0xD9, 0x82, 0xD8, 0xB3, 0xD9, 0x85, 0xD8, 0xA9,
     0x20, 0xD8, 0xB9, 0xD9, 0x84, 0xD9, 0x89, 0x20, 0xD8, 0xB5, 0xD9, 0x81, 0xD8, 0xB1,
     0x21, 0x0A]"

definition msg_interrupt_201 :: cstring where
  "msg_interrupt_201 =
    [0x5B, 0x45, 0x52, 0x52, 0x4F, 0x52, 0x5D, 0x20, 0xD8, 0xAE, 0xD8, 0xB7, 0xD8, 0xA3,
     0x20, 0xD9, 0x81, 0xD9, 0x8A, 0x20, 0xD8, 0xA7, 0xD9, 0x84, 0xD8, 0xB5, 0xD9, 0x81,
     0xD8, 0xAD, 0xD8, 0xA9, 0x21, 0x20, 0xD8, 0xA7, 0xD9, 0x84, 0xD8, 0xB9, 0xD9, 0x86,
     0xD9, 0x88, 0xD8, 0xA7, 0xD9, 0x86, 0x3A, 0x20]"

definition msg_interrupt_210 :: cstring where
  "msg_interrupt_210 =
    [0x5B, 0x45, 0x52, 0x52, 0x4F, 0x52, 0x5D, 0x20, 0xD8, 0xAE, 0xD8, 0xB7, 0xD8, 0xA3,
     0x20, 0xD9, 0x81, 0xD9, 0x8A, 0x20, 0xD8, 0xA7, 0xD9, 0x84, 0xD8, 0xAD, 0xD9, 0x85,
     0xD8, 0xA7, 0xD9, 0x8A, 0xD8, 0xA9, 0x20, 0xD8, 0xA7, 0xD9, 0x84, 0xD8, 0xB9, 0xD8,
     0xA7, 0xD9, 0x85, 0xD8, 0xA9, 0x21, 0x0A]"

definition msg_interrupt_225 :: cstring where
  "msg_interrupt_225 =
    [0xD8, 0xB1, 0xD9, 0x82, 0xD9, 0x85, 0x20, 0xD8, 0xA7, 0xD9, 0x84, 0xD9, 0x85, 0xD9,
     0x82, 0xD8, 0xA7, 0xD8, 0xB7, 0xD8, 0xB9, 0xD8, 0xA9, 0x3A, 0x20]"

definition msg_interrupt_227 :: cstring where
  "msg_interrupt_227 =
    [0x2C, 0x20, 0xD8, 0xB1, 0xD9, 0x85, 0xD8, 0xB2, 0x20, 0xD8, 0xA7, 0xD9, 0x84, 0xD8,
     0xAE, 0xD8, 0xB7, 0xD8, 0xA3, 0x3A, 0x20]"

definition msg_kernel_109 :: cstring where
  "msg_kernel_109 =
    [0x5B, 0x4B, 0x45, 0x52, 0x4E, 0x45, 0x4C, 0x5D, 0x20, 0xD8, 0xA8, 0xD8, 0xAF, 0xD8,
     0xA1, 0x20, 0xD8, 0xAA, 0xD8, 0xB4, 0xD8, 0xBA, 0xD9, 0x8A, 0xD9, 0x84, 0x20, 0xD8,
     0xA7, 0xD9, 0x84, 0xD9, 0x86, 0xD9, 0x88, 0xD8, 0xA7, 0xD8, 0xA9, 0x2E, 0x2E, 0x2E, 0x0A]"

definition msg_kernel_110 :: cstring where
  "msg_kernel_110 =
    [0x5B, 0x4B, 0x45, 0x52, 0x4E, 0x45, 0x4C, 0x5D, 0x20, 0xD9, 0x85, 0xD8, 0xB1, 0xD8,
     0xAD, 0xD8, 0xA8, 0xD8, 0xA7, 0xD9, 0x8B, 0x20, 0xD8, 0xA8, 0xD9, 0x83, 0x20, 0xD9,
     0x81, 0xD9, 0x8A, 0x20, 0xD9, 0x86, 0xD8, 0xB8, 0xD8, 0xA7, 0xD9, 0x85, 0x20, 0xD8,
     0xA7, 0xD9, 0x84, 0xD8, 0xAA, 0xD8, 0xB4, 0xD8, 0xBA, 0xD9, 0x8A, 0xD9, 0x84, 0x20,
     0xD8, 0xA7, 0xD9, 0x84, 0xD8, 0xA8, 0xD8, 0xB3, 0xD9, 0x8A, 0xD8, 0xB7, 0x21, 0x0A, 0x0A]"

definition msg_kernel_113 :: cstring where
  "msg_kernel_113 =
    [0x5B, 0x4B, 0x45, 0x52, 0x4E, 0x45, 0x4C, 0x5D, 0x20, 0xD8, 0xAA, 0xD9, 0x87, 0xD9,
     0x8A, 0xD8, 0xA6, 0xD8, 0xA9, 0x20, 0xD9, 0x86, 0xD8, 0xB8, 0xD8, 0xA7, 0xD9, 0x85,
     0x20, 0xD8, 0xA7, 0xD9, 0x84, 0xD9, 0x85, 0xD9, 0x82, 0xD8, 0xA7, 0xD8, 0xB7, 0xD8,
     0xB9, 0xD8, 0xA7, 0xD8, 0xAA, 0x2E, 0x2E, 0x2E, 0x0A]"

definition msg_kernel_129 :: cstring where
  "msg_kernel_129 =
    [0x5B, 0x4B, 0x45, 0x52, 0x4E, 0x45, 0x4C, 0x5D, 0x20, 0xD8, 0xAA, 0xD9, 0x87, 0xD9,
     0x8A, 0xD8, 0xA6, 0xD8, 0xA9, 0x20, 0xD9, 0x85, 0xD8, 0xAF, 0xD9, 0x8A, 0xD8, 0xB1,
     0x20, 0xD8, 0xA7, 0xD9, 0x84, 0xD9, 0x85, 0xD9, 0x87, 0xD8, 0xA7, 0xD9, 0x85, 0x2E,
     0x2E, 0x2E, 0x0A]"

definition msg_kernel_133 :: cstring where
  "msg_kernel_133 =
    [0x5B, 0x4B, 0x45, 0x52, 0x4E, 0x45, 0x4C, 0x5D, 0x20, 0xD8, 0xA5, 0xD9, 0x86, 0xD8,
     0xB4, 0xD8, 0xA7, 0xD8, 0xA1, 0x20, 0xD9, 0x85, 0xD9, 0x87, 0xD9, 0x85, 0xD8, 0xA9,
     0x20, 0xD8, 0xAA, 0xD8, 0xAC, 0xD8, 0xB1, 0xD9, 0x8A, 0xD8, 0xA8, 0xD9, 0x8A, 0xD8,
     0xA9, 0x2E, 0x2E, 0x2E, 0x0A]"

definition msg_kernel_137 :: cstring where
  "msg_kernel_137 =
    [0x0A, 0x5B, 0x4B, 0x45, 0x52, 0x4E, 0x45, 0x4C, 0x5D, 0x20, 0xD9, 0x85, 0xD8, 0xB9,
     0xD9, 0x84, 0xD9, 0x88, 0xD9, 0x85, 0xD8, 0xA7, 0xD8, 0xAA, 0x20, 0xD8, 0xA7, 0xD9,
     0x84, 0xD9, 0x85, 0xD9, 0x87, 0xD8, 0xA7, 0xD9, 0x85, 0x20, 0xD8, 0xA7, 0xD9, 0x84,
     0xD8, 0xAD, 0xD8, 0xA7, 0xD9, 0x84, 0xD9, 0x8A, 0xD8, 0xA9, 0x3A, 0x0A]"

definition msg_kernel_142 :: cstring where
  "msg_kernel_142 =
    [0x0A, 0x5B, 0x4B, 0x45, 0x52, 0x4E, 0x45, 0x4C, 0x5D, 0x20, 0xD8, 0xAA, 0xD9, 0x81,
     0xD8, 0xB9, 0xD9, 0x8A, 0xD9, 0x84, 0x20, 0xD8, 0xA7, 0xD9, 0x84, 0xD9, 0x85, 0xD9,
     0x82, 0xD8, 0xA7, 0xD8, 0xB7, 0xD8, 0xB9, 0xD8, 0xA7, 0xD8, 0xAA, 0x2E, 0x2E, 0x2E, 0x0A]"

definition msg_kernel_145 :: cstring where
  "msg_kernel_145 =
    [0x0A, 0x5B, 0x4B, 0x45, 0x52, 0x4E, 0x45, 0x4C, 0x5D, 0x20, 0xD8, 0xA7, 0xD9, 0x84,
     0xD9, 0x86, 0xD9, 0x88, 0xD8, 0xA7, 0xD8, 0xA9, 0x20, 0xD8, 0xAC, 0xD8, 0xA7, 0xD9,
     0x87, 0xD8, 0xB2, 0xD8, 0xA9, 0x21, 0x0A]"

definition msg_kernel_147 :: cstring where
  "msg_kernel_147 =
    [0x5B, 0x49, 0x4E, 0x46, 0x4F, 0x5D, 0x20, 0xD8, 0xA7, 0xD9, 0x84, 0xD9, 0x86, 0xD8,
     0xB8, 0xD8, 0xA7, 0xD9, 0x85, 0x20, 0xD9, 0x8A, 0xD8, 0xB9, 0xD9, 0x85, 0xD9, 0x84,
     0x20, 0xD8, 0xA7, 0xD9, 0x84, 0xD8, 0xA2, 0xD9, 0x86, 0x20, 0xD9, 0x85, 0xD8, 0xB9,
     0x20, 0xD8, 0xAF, 0xD8, 0xB9, 0xD9, 0x85, 0x20, 0xD8, 0xA7, 0xD9, 0x84, 0xD9, 0x85,
     0xD9, 0x82, 0xD8, 0xA7, 0xD8, 0xB7, 0xD8, 0xB9, 0xD8, 0xA7, 0xD8, 0xAA, 0x20, 0xD9,
     0x88, 0xD8, 0xA7, 0xD9, 0x84, 0xD9, 0x85, 0xD9, 0x87, 0xD8, 0xA7, 0xD9, 0x85, 0x0A]"

definition msg_kernel_148 :: cstring where
  "msg_kernel_148 =
    [0x5B, 0x49, 0x4E, 0x46, 0x4F, 0x5D, 0x20, 0xD8, 0xA7, 0xD8, 0xB6, 0xD8, 0xBA, 0xD8,
     0xB7, 0x20, 0xD8, 0xA3, 0xD9, 0x8A, 0x20, 0xD9, 0x85, 0xD9, 0x81, 0xD8, 0xAA, 0xD8,
     0xA7, 0xD8, 0xAD, 0x20, 0xD9, 0x84, 0xD8, 0xA7, 0xD8, 0xAE, 0xD8, 0xAA, 0xD8, 0xA8,
     0xD8, 0xA7, 0xD8, 0xB1, 0x20, 0xD9, 0x84, 0xD9, 0x88, 0xD8, 0xAD, 0xD8, 0xA9, 0x20,
     0xD8, 0xA7, 0xD9, 0x84, 0xD9, 0x85, 0xD9, 0x81, 0xD8, 0xA7, 0xD8, 0xAA, 0xD9, 0x8A,
     0xD8, 0xAD, 0x0A]"

definition msg_kernel_151 :: cstring where
  "msg_kernel_151 =
    [0x0A, 0x3D, 0x3D, 0x3D, 0x20, 0xD8, 0xA7, 0xD8, 0xAE, 0xD8, 0xAA, 0xD8, 0xA8, 0xD8,
     0xA7, 0xD8, 0xB1, 0x20, 0xD8, 0xA5, 0xD8, 0xAF, 0xD8, 0xA7, 0xD8, 0xB1, 0xD8, 0xA9,
     0x20, 0xD8, 0xA7, 0xD9, 0x84, 0xD8, 0xB0, 0xD8, 0xA7, 0xD9, 0x83, 0xD8, 0xB1, 0xD8,
     0xA9, 0x20, 0x3D, 0x3D, 0x3D, 0x0A]"

definition msg_kernel_158 :: cstring where
  "msg_kernel_158 =
    [0xD8, 0xAA, 0xD9, 0x85, 0x20, 0xD8, 0xAA, 0xD8, 0xAE, 0xD8, 0xB5, 0xD9, 0x8A, 0xD8,
     0xB5, 0x20, 0x33, 0x20, 0xD9, 0x83, 0xD8, 0xAA, 0xD9, 0x84, 0x20, 0xD8, 0xB0, 0xD8,
     0xA7, 0xD9, 0x83, 0xD8, 0xB1, 0xD8, 0xA9, 0x0A]"

definition msg_kernel_163 :: cstring where
  "msg_kernel_163 =
    [0x0A, 0xD8, 0xAA, 0xD9, 0x85, 0x20, 0xD8, 0xAA, 0xD8, 0xAD, 0xD8, 0xB1, 0xD9, 0x8A,
     0xD8, 0xB1, 0x20, 0xD8, 0xA7, 0xD9, 0x84, 0xD9, 0x83, 0xD8, 0xAA, 0xD9, 0x84, 0xD8,
     0xA9, 0x20, 0xD8, 0xA7, 0xD9, 0x84, 0xD8, 0xAB, 0xD8, 0xA7, 0xD9, 0x86, 0xD9, 0x8A,
     0xD8, 0xA9, 0x0A]"

end
