(* ===== verification/Memory.thy ===== *)
theory Memory
  imports Ports Bytes Messages
begin

text \<open>
  The memory manager of \<open>kernel/memory.c\<close> and \<open>kernel/memory.h\<close>: the heap (\<open>kmalloc\<close>, \<open>kfree\<close>,
  \<open>kcalloc\<close>, \<open>krealloc\<close>, \<open>compact_free_blocks\<close>), the page allocator (\<open>alloc_page\<close>, \<open>free_page\<close>,
  \<open>get_page_info\<close>) and the address checks. Block headers are not HOL values: they live in the
  bytes of physical memory at the offsets of the C struct, exactly where the code puts them, so
  that overlapping a header with data would be visible. This theory holds the definitions; the
  heap is verified in \<open>Heap\<close>, \<open>Allocator\<close> and \<open>Heap_Properties\<close>, the pages in \<open>Pages\<close>.
\<close>

section \<open>Constants and data\<close>

definition PAGE_SIZE :: u32 where "PAGE_SIZE = 4096"
definition MEMORY_START :: u32 where "MEMORY_START = 0x100000"
definition MEMORY_END :: u32 where "MEMORY_END = 0x1000000"
definition MAX_PAGES :: u32 where "MAX_PAGES = (MEMORY_END - MEMORY_START) div PAGE_SIZE"

definition PAGE_FREE :: u8 where "PAGE_FREE = 0"
definition PAGE_USED :: u8 where "PAGE_USED = 1"
definition PAGE_RESERVED :: u8 where "PAGE_RESERVED = 2"

record page =
  page_address :: u32
  page_status :: u8
  page_ref_count :: u32

record memory_manager =
  pages :: "page list"
  total_pages :: u32
  free_pages :: u32
  used_pages :: u32
  free_list :: u32
  total_memory :: u32
  free_memory :: u32

record memory_stats =
  total_allocations :: u32
  total_frees :: u32
  current_allocated :: u32
  peak_allocated :: u32
  fragmentation :: u32

record memory = machine +
  mem :: bytes
  manager :: memory_manager
  mstats :: memory_stats
  memory_initialized :: u8

section \<open>Block headers in memory\<close>

text \<open>
  \<open>memory_block_t\<close> on the 32-bit target: \<open>address\<close> at offset 0, \<open>size\<close> at 4, \<open>is_free\<close> (one byte,
  then padding) at 8, \<open>next\<close> at 12, \<open>prev\<close> at 16; its size is 20. NULL is 0.
\<close>

definition BLOCK_SIZE :: u32 where "BLOCK_SIZE = 20"

definition blk_address :: "bytes \<Rightarrow> u32 \<Rightarrow> u32" where "blk_address m p = read32 m p"
definition blk_size :: "bytes \<Rightarrow> u32 \<Rightarrow> u32" where "blk_size m p = read32 m (p + 4)"
definition blk_is_free :: "bytes \<Rightarrow> u32 \<Rightarrow> u8" where "blk_is_free m p = m (p + 8)"
definition blk_next :: "bytes \<Rightarrow> u32 \<Rightarrow> u32" where "blk_next m p = read32 m (p + 12)"
definition blk_prev :: "bytes \<Rightarrow> u32 \<Rightarrow> u32" where "blk_prev m p = read32 m (p + 16)"

definition set_blk_address :: "u32 \<Rightarrow> u32 \<Rightarrow> bytes \<Rightarrow> bytes" where
  "set_blk_address p v m = write32 p v m"
definition set_blk_size :: "u32 \<Rightarrow> u32 \<Rightarrow> bytes \<Rightarrow> bytes" where
  "set_blk_size p v m = write32 (p + 4) v m"
definition set_blk_is_free :: "u32 \<Rightarrow> u8 \<Rightarrow> bytes \<Rightarrow> bytes" where
  "set_blk_is_free p v m = m(p + 8 := v)"
definition set_blk_next :: "u32 \<Rightarrow> u32 \<Rightarrow> bytes \<Rightarrow> bytes" where
  "set_blk_next p v m = write32 (p + 12) v m"
definition set_blk_prev :: "u32 \<Rightarrow> u32 \<Rightarrow> bytes \<Rightarrow> bytes" where
  "set_blk_prev p v m = write32 (p + 16) v m"

text \<open>A pointer as the linked-list loops take it: NULL is \<open>None\<close>.\<close>

definition ptr :: "u32 \<Rightarrow> u32 option" where
  "ptr p = (if p = 0 then None else Some p)"

section \<open>Initialisation\<close>

text \<open>The loop over the page array, with \<open>page_addr\<close> advancing by \<open>PAGE_SIZE\<close>.\<close>

definition init_page :: "nat \<Rightarrow> page" where
  "init_page i = \<lparr>page_address = MEMORY_START + of_nat i * PAGE_SIZE,
     page_status = PAGE_FREE, page_ref_count = 0\<rparr>"

definition init_memory_manager :: "'a memory_scheme \<Rightarrow> 'a memory_scheme" where
  "init_memory_manager s =
     (let mm = manager s;
          total = MEMORY_END - MEMORY_START;
          s = s\<lparr>manager := \<lparr>pages = fill_loop init_page (unat MAX_PAGES) (pages mm),
                 total_pages = MAX_PAGES, free_pages = MAX_PAGES, used_pages = 0,
                 free_list = 0, total_memory = total, free_memory = total\<rparr>\<rparr>;
          s = s\<lparr>mstats := \<lparr>total_allocations = 0, total_frees = 0, current_allocated = 0,
                 peak_allocated = 0, fragmentation = 0\<rparr>\<rparr>;
          initial_block = MEMORY_START;
          m = set_blk_address initial_block (MEMORY_START + BLOCK_SIZE) (mem s);
          m = set_blk_size initial_block (total - BLOCK_SIZE) m;
          m = set_blk_is_free initial_block 1 m;
          m = set_blk_next initial_block 0 m;
          m = set_blk_prev initial_block 0 m;
          s = s\<lparr>mem := m, manager := (manager s)\<lparr>free_list := initial_block\<rparr>\<rparr>;
          s = s\<lparr>memory_initialized := 1\<rparr>;
          s = print_string msg_memory_49 s;
          s = print_string (cstr ''Total Memory: '') s;
          s = print_hex (total_memory (manager s)) s
      in print_string (cstr '' bytes'' @ [0x0A]) s)"

section \<open>The heap\<close>

definition align_address :: "u32 \<Rightarrow> u32 \<Rightarrow> u32" where
  "align_address addr alignment = (addr + alignment - 1) AND NOT (alignment - 1)"

text \<open>
  The part of \<open>kmalloc\<close> that runs once a block fits: split it when there is room for another
  header, mark it used. The result is the memory; the block's size is read back from it.
\<close>

definition take_block :: "u32 \<Rightarrow> u32 \<Rightarrow> bytes \<Rightarrow> bytes" where
  "take_block current aligned_size m =
     (let m =
        (if blk_size m current > aligned_size + BLOCK_SIZE then
           let new_block = blk_address m current + aligned_size;
               m = set_blk_address new_block (blk_address m current + aligned_size + BLOCK_SIZE) m;
               m = set_blk_size new_block (blk_size m current - aligned_size - BLOCK_SIZE) m;
               m = set_blk_is_free new_block 1 m;
               m = set_blk_next new_block (blk_next m current) m;
               m = set_blk_prev new_block current m;
               m = (if blk_next m current \<noteq> 0
                    then set_blk_prev (blk_next m current) new_block m else m);
               m = set_blk_next current new_block m
           in set_blk_size current aligned_size m
         else m)
      in set_blk_is_free current 0 m)"

definition count_alloc :: "u32 \<Rightarrow> 'a memory_scheme \<Rightarrow> 'a memory_scheme" where
  "count_alloc n s =
     (let st = mstats s;
          st = st\<lparr>total_allocations := total_allocations st + 1\<rparr>;
          st = st\<lparr>current_allocated := current_allocated st + n\<rparr>;
          st = (if current_allocated st > peak_allocated st
                then st\<lparr>peak_allocated := current_allocated st\<rparr> else st)
      in s\<lparr>mstats := st, manager := (manager s)\<lparr>free_memory := free_memory (manager s) - n\<rparr>\<rparr>)"

definition kmalloc :: "u32 \<Rightarrow> 'a memory_scheme \<Rightarrow> (u32 \<times> 'a memory_scheme) option" where
  "kmalloc n s =
     (if memory_initialized s = 0 \<or> n = 0 then Some (0, s)
      else
        let aligned_size = align_address n 4; m = mem s
        in case list_find (\<lambda>p. ptr (blk_next m p))
                  (\<lambda>p. blk_is_free m p \<noteq> 0 \<and> blk_size m p \<ge> aligned_size)
                  (ptr (free_list (manager s))) of
             None \<Rightarrow> None
           | Some None \<Rightarrow> Some (0, s)
           | Some (Some current) \<Rightarrow>
               let s = s\<lparr>mem := take_block current aligned_size m\<rparr>;
                   s = count_alloc (blk_size (mem s) current) s
               in Some (blk_address (mem s) current, s))"

text \<open>The loop of \<open>compact_free_blocks\<close>: on a merge it continues at the same block.\<close>

definition merge_next :: "u32 \<Rightarrow> bytes \<Rightarrow> bytes" where
  "merge_next current m =
     (let m = set_blk_size current
                (blk_size m current + (blk_size m (blk_next m current) + BLOCK_SIZE)) m;
          to_remove = blk_next m current;
          m = set_blk_next current (blk_next m to_remove) m
      in if blk_next m to_remove \<noteq> 0 then set_blk_prev (blk_next m to_remove) current m else m)"

partial_function (option) compact_loop :: "u32 \<Rightarrow> bytes \<Rightarrow> bytes option" where
  "compact_loop current m =
     (if current = 0 \<or> blk_next m current = 0 then Some m
      else if blk_is_free m current \<noteq> 0 \<and> blk_is_free m (blk_next m current) \<noteq> 0
        \<and> blk_address m current + blk_size m current
            = blk_address m (blk_next m current) - BLOCK_SIZE
      then compact_loop current (merge_next current m)
      else compact_loop (blk_next m current) m)"

definition compact_free_blocks :: "'a memory_scheme \<Rightarrow> 'a memory_scheme option" where
  "compact_free_blocks s =
     map_option (\<lambda>m. s\<lparr>mem := m\<rparr>) (compact_loop (free_list (manager s)) (mem s))"

definition find_block :: "u32 \<Rightarrow> 'a memory_scheme \<Rightarrow> u32 option option" where
  "find_block p s =
     list_find (\<lambda>b. ptr (blk_next (mem s) b)) (\<lambda>b. blk_address (mem s) b = p)
       (ptr (free_list (manager s)))"

definition count_free :: "u32 \<Rightarrow> 'a memory_scheme \<Rightarrow> 'a memory_scheme" where
  "count_free n s =
     (let st = mstats s;
          st = st\<lparr>total_frees := total_frees st + 1\<rparr>;
          st = st\<lparr>current_allocated := current_allocated st - n\<rparr>
      in s\<lparr>mstats := st, manager := (manager s)\<lparr>free_memory := free_memory (manager s) + n\<rparr>\<rparr>)"

definition kfree :: "u32 \<Rightarrow> 'a memory_scheme \<Rightarrow> 'a memory_scheme option" where
  "kfree p s =
     (if memory_initialized s = 0 \<or> p = 0 then Some s
      else case find_block p s of
        None \<Rightarrow> None
      | Some None \<Rightarrow> Some s
      | Some (Some b) \<Rightarrow>
          if blk_is_free (mem s) b \<noteq> 0 then Some s
          else
            let s = s\<lparr>mem := set_blk_is_free b 1 (mem s)\<rparr>;
                s = count_free (blk_size (mem s) b) s
            in compact_free_blocks s)"

definition kcalloc :: "u32 \<Rightarrow> u32 \<Rightarrow> 'a memory_scheme \<Rightarrow> (u32 \<times> 'a memory_scheme) option" where
  "kcalloc cnt n s =
     (let total_size = cnt * n
      in case kmalloc total_size s of
           None \<Rightarrow> None
         | Some (p, s) \<Rightarrow>
             Some (p, if p \<noteq> 0 then s\<lparr>mem := memset p 0 total_size (mem s)\<rparr> else s))"

definition krealloc :: "u32 \<Rightarrow> u32 \<Rightarrow> 'a memory_scheme \<Rightarrow> (u32 \<times> 'a memory_scheme) option" where
  "krealloc p new_size s =
     (if p = 0 then kmalloc new_size s
      else if new_size = 0 then map_option (\<lambda>s. (0, s)) (kfree p s)
      else case find_block p s of
        None \<Rightarrow> None
      | Some b \<Rightarrow>
          let old_size = (case b of None \<Rightarrow> 0 | Some b \<Rightarrow> blk_size (mem s) b)
          in case kmalloc new_size s of
               None \<Rightarrow> None
             | Some (new_ptr, s) \<Rightarrow>
                 if new_ptr \<noteq> 0 \<and> old_size > 0 then
                   let copy_size = (if old_size < new_size then old_size else new_size);
                       s = s\<lparr>mem := memcpy new_ptr p copy_size (mem s)\<rparr>
                   in map_option (\<lambda>s. (new_ptr, s)) (kfree p s)
                 else Some (new_ptr, s))"

section \<open>Pages\<close>

text \<open>The loops over the page array stop at the first index that satisfies their test.\<close>

definition find_page :: "(page \<Rightarrow> bool) \<Rightarrow> 'a memory_scheme \<Rightarrow> nat option" where
  "find_page P s = find (\<lambda>i. P (pages (manager s) ! i)) [0..<unat MAX_PAGES]"

definition alloc_page :: "'a memory_scheme \<Rightarrow> u32 \<times> 'a memory_scheme" where
  "alloc_page s =
     (case find_page (\<lambda>p. page_status p = PAGE_FREE) s of
        None \<Rightarrow> (0, s)
      | Some i \<Rightarrow>
          let mm = manager s;
              pg = (pages mm ! i)\<lparr>page_status := PAGE_USED, page_ref_count := 1\<rparr>
          in (page_address pg,
              s\<lparr>manager := mm\<lparr>pages := (pages mm)[i := pg], free_pages := free_pages mm - 1,
                used_pages := used_pages mm + 1\<rparr>\<rparr>))"

definition free_page :: "u32 \<Rightarrow> 'a memory_scheme \<Rightarrow> 'a memory_scheme" where
  "free_page addr s =
     (case find_page (\<lambda>p. page_address p = addr) s of
        None \<Rightarrow> s
      | Some i \<Rightarrow>
          let mm = manager s; pg = pages mm ! i
          in if page_status pg = PAGE_USED then
               let pg = pg\<lparr>page_ref_count := page_ref_count pg - 1\<rparr>
               in if page_ref_count pg = 0 then
                    s\<lparr>manager := mm\<lparr>pages := (pages mm)[i := pg\<lparr>page_status := PAGE_FREE\<rparr>],
                      free_pages := free_pages mm + 1, used_pages := used_pages mm - 1\<rparr>\<rparr>
                  else s\<lparr>manager := mm\<lparr>pages := (pages mm)[i := pg]\<rparr>\<rparr>
             else s)"

definition get_page_info :: "u32 \<Rightarrow> 'a memory_scheme \<Rightarrow> nat option" where
  "get_page_info addr s =
     (let page_addr = addr AND NOT (PAGE_SIZE - 1)
      in find_page (\<lambda>p. page_address p = page_addr) s)"

definition get_free_pages_count :: "'a memory_scheme \<Rightarrow> u32" where
  "get_free_pages_count s = free_pages (manager s)"

section \<open>Reports and address checks\<close>

definition get_memory_stats :: "'a memory_scheme \<Rightarrow> memory_stats" where
  "get_memory_stats s = mstats s"

definition print_memory_info :: "'a memory_scheme \<Rightarrow> 'a memory_scheme" where
  "print_memory_info s =
     (let s = print_string (0x0A # cstr ''=== Memory Information ==='' @ [0x0A]) s;
          s = print_string (cstr ''Total Memory: '') s;
          s = print_hex (total_memory (manager s)) s;
          s = print_string (cstr '' bytes'' @ [0x0A]) s;
          s = print_string (cstr ''Free Memory: '') s;
          s = print_hex (free_memory (manager s)) s;
          s = print_string (cstr '' bytes'' @ [0x0A]) s;
          s = print_string (cstr ''Used Memory: '') s;
          s = print_hex (total_memory (manager s) - free_memory (manager s)) s;
          s = print_string (cstr '' bytes'' @ [0x0A]) s;
          s = print_string (cstr ''Total Pages: '') s;
          s = print_hex (total_pages (manager s)) s;
          s = print_string [0x0A] s;
          s = print_string (cstr ''Free Pages: '') s;
          s = print_hex (free_pages (manager s)) s;
          s = print_string [0x0A] s;
          s = print_string (cstr ''Used Pages: '') s;
          s = print_hex (used_pages (manager s)) s;
          s = print_string [0x0A] s;
          s = print_string (cstr ''Allocations: '') s;
          s = print_hex (total_allocations (mstats s)) s;
          s = print_string [0x0A] s;
          s = print_string (cstr ''Frees: '') s;
          s = print_hex (total_frees (mstats s)) s
      in print_string [0x0A] s)"

definition is_valid_address :: "u32 \<Rightarrow> bool" where
  "is_valid_address addr \<longleftrightarrow> addr \<ge> MEMORY_START \<and> addr < MEMORY_END"

definition is_kernel_address :: "u32 \<Rightarrow> bool" where
  "is_kernel_address addr \<longleftrightarrow> addr \<ge> MEMORY_START \<and> addr < MEMORY_START + 0x100000"

section \<open>Power-on state\<close>

text \<open>The machine at power-on: static data zeroed, no input pending.\<close>

definition power_on_memory :: memory where
  "power_on_memory = \<lparr>vga_buffer = replicate 2000 0, cursor_x = 0, cursor_y = 0, stray_stores = [],
     port_output = [], port_input = (\<lambda>k p. 0), port_reads = 0, interrupt_flag = False, cr2 = 0,
     mem = (\<lambda>a. 0),
     manager = \<lparr>pages = replicate 3840 \<lparr>page_address = 0, page_status = 0, page_ref_count = 0\<rparr>,
       total_pages = 0, free_pages = 0, used_pages = 0, free_list = 0, total_memory = 0, free_memory = 0\<rparr>,
     mstats = \<lparr>total_allocations = 0, total_frees = 0, current_allocated = 0, peak_allocated = 0,
       fragmentation = 0\<rparr>,
     memory_initialized = 0\<rparr>"

section \<open>Frame\<close>

interpretation mem_frame: console_frame mem
  by unfold_locales simp_all

interpretation manager_frame: console_frame manager
  by unfold_locales simp_all

interpretation mstats_frame: console_frame mstats
  by unfold_locales simp_all

interpretation memory_initialized_frame: console_frame memory_initialized
  by unfold_locales simp_all

interpretation mem_ports: port_frame mem
  by unfold_locales simp_all

interpretation manager_ports: port_frame manager
  by unfold_locales simp_all

interpretation mstats_ports: port_frame mstats
  by unfold_locales simp_all

interpretation memory_initialized_ports: port_frame memory_initialized
  by unfold_locales simp_all

end
