(* ===== verification/Heap.thy ===== *)
theory Heap
  imports Memory
begin

text \<open>
  The heap of \<open>kernel/memory.c\<close> refines a list of adjacent blocks. A block is its size and
  whether it is free; the list covers the managed memory from \<open>MEMORY_START\<close> to \<open>MEMORY_END\<close>
  without gaps, each block preceded by its 20-byte header. \<open>seg\<close> relates the bytes of memory to
  such a list, \<open>heap_rep\<close> the manager's state. The lemmas follow \<open>compact_free_blocks\<close>, \<open>kmalloc\<close>
  and \<open>kfree\<close> through the header bytes they write.
\<close>

section \<open>Blocks\<close>

type_synonym block = "nat \<times> bool"

fun span :: "block list \<Rightarrow> nat" where
  "span [] = 0"
| "span ((n, fr) # bs) = 20 + n + span bs"

lemma span_append [simp]: "span (xs @ ys) = span xs + span ys"
  by (induction xs) auto

lemma span_Cons: "span (b # bs) = 20 + fst b + span bs"
  by (cases b) simp

text \<open>The addresses that hold headers, as a set and as the list of the headers' addresses.\<close>

fun hdrs :: "nat \<Rightarrow> block list \<Rightarrow> nat set" where
  "hdrs a [] = {}"
| "hdrs a ((n, fr) # bs) = {a..<a + 20} \<union> hdrs (a + 20 + n) bs"

fun hdr_ptrs :: "nat \<Rightarrow> block list \<Rightarrow> u32 list" where
  "hdr_ptrs a [] = []"
| "hdr_ptrs a ((n, fr) # bs) = adr a # hdr_ptrs (a + 20 + n) bs"

lemma hdrs_append [simp]: "hdrs a (xs @ ys) = hdrs a xs \<union> hdrs (a + span xs) ys"
  by (induction a xs rule: hdrs.induct) (auto simp: add.assoc)

lemma hdrs_bounds: "i \<in> hdrs a bs \<Longrightarrow> a \<le> i \<and> i < a + span bs"
  by (induction a bs rule: hdrs.induct) fastforce+

text \<open>One header, and the chain of headers of a list of blocks from address \<open>a\<close> on; \<open>pv\<close> is
  what the first \<open>prev\<close> holds and \<open>nx\<close> what the last \<open>next\<close> holds.\<close>

definition hdr :: "bytes \<Rightarrow> nat \<Rightarrow> nat \<Rightarrow> bool \<Rightarrow> u32 \<Rightarrow> u32 \<Rightarrow> bool" where
  "hdr m a n fr nx pv \<longleftrightarrow> blk_address m (adr a) = adr (a + 20)
     \<and> blk_size m (adr a) = adr n \<and> blk_is_free m (adr a) = (if fr then 1 else 0)
     \<and> blk_next m (adr a) = nx \<and> blk_prev m (adr a) = pv"

definition hd_ptr :: "nat \<Rightarrow> block list \<Rightarrow> u32 \<Rightarrow> u32" where
  "hd_ptr a bs nx = (if bs = [] then nx else adr a)"

fun last_ptr :: "nat \<Rightarrow> u32 \<Rightarrow> block list \<Rightarrow> u32" where
  "last_ptr a pv [] = pv"
| "last_ptr a pv ((n, fr) # bs) = last_ptr (a + 20 + n) (adr a) bs"

fun seg :: "bytes \<Rightarrow> nat \<Rightarrow> u32 \<Rightarrow> block list \<Rightarrow> u32 \<Rightarrow> bool" where
  "seg m a pv [] nx \<longleftrightarrow> True"
| "seg m a pv ((n, fr) # bs) nx \<longleftrightarrow>
     hdr m a n fr (hd_ptr (a + 20 + n) bs nx) pv \<and> seg m (a + 20 + n) (adr a) bs nx"

lemma hd_ptr_simps [simp]:
  "hd_ptr a [] nx = nx" "hd_ptr a (b # bs) nx = adr a" "hd_ptr a (xs @ y # ys) nx = adr a"
  by (simp_all add: hd_ptr_def)

lemma seg_append:
  "seg m a pv (xs @ ys) nx \<longleftrightarrow>
   seg m a pv xs (hd_ptr (a + span xs) ys nx) \<and> seg m (a + span xs) (last_ptr a pv xs) ys nx"
  by (induction xs arbitrary: a pv) (auto simp: hd_ptr_def add.assoc split: if_splits)

section \<open>Header fields\<close>

lemmas blk_defs = blk_address_def blk_size_def blk_is_free_def blk_next_def blk_prev_def
  set_blk_address_def set_blk_size_def set_blk_is_free_def set_blk_next_def set_blk_prev_def

text \<open>Each field of a header is read back from its own store and kept by the other four.\<close>


lemma blk_field_simps [simp]:
  "blk_address (set_blk_address p v m) p = v" "blk_address (set_blk_size p v m) p = blk_address m p"
  "blk_address (set_blk_is_free p w m) p = blk_address m p" "blk_address (set_blk_next p v m) p = blk_address m p"
  "blk_address (set_blk_prev p v m) p = blk_address m p"
  "blk_size (set_blk_address p v m) p = blk_size m p" "blk_size (set_blk_size p v m) p = v"
  "blk_size (set_blk_is_free p w m) p = blk_size m p" "blk_size (set_blk_next p v m) p = blk_size m p"
  "blk_size (set_blk_prev p v m) p = blk_size m p"
  "blk_is_free (set_blk_address p v m) p = blk_is_free m p" "blk_is_free (set_blk_size p v m) p = blk_is_free m p"
  "blk_is_free (set_blk_is_free p w m) p = w" "blk_is_free (set_blk_next p v m) p = blk_is_free m p"
  "blk_is_free (set_blk_prev p v m) p = blk_is_free m p"
  "blk_next (set_blk_address p v m) p = blk_next m p" "blk_next (set_blk_size p v m) p = blk_next m p"
  "blk_next (set_blk_is_free p w m) p = blk_next m p" "blk_next (set_blk_next p v m) p = v"
  "blk_next (set_blk_prev p v m) p = blk_next m p"
  "blk_prev (set_blk_address p v m) p = blk_prev m p" "blk_prev (set_blk_size p v m) p = blk_prev m p"
  "blk_prev (set_blk_is_free p w m) p = blk_prev m p" "blk_prev (set_blk_next p v m) p = blk_prev m p"
  "blk_prev (set_blk_prev p v m) p = v"
  by (simp_all add: blk_defs) (simp_all add: read32_def write32_def)

text \<open>A store into the header at \<open>b\<close> does not reach an address outside its 20 bytes.\<close>

lemma set_blk_outside:
  assumes "i < b \<or> b + 20 \<le> i" "b + 20 \<le> 4294967296" "i < 4294967296"
  shows "set_blk_address (adr b) v m (adr i) = m (adr i)"
    "set_blk_size (adr b) v m (adr i) = m (adr i)"
    "set_blk_is_free (adr b) w m (adr i) = m (adr i)"
    "set_blk_next (adr b) v m (adr i) = m (adr i)"
    "set_blk_prev (adr b) v m (adr i) = m (adr i)"
  using assms by (auto simp: blk_defs write32_outside_nat adr_eq_iff)

lemma hdr_cong:
  assumes "\<And>i. a \<le> i \<Longrightarrow> i < a + 20 \<Longrightarrow> m' (adr i) = m (adr i)"
  shows "hdr m' a n fr nx pv = hdr m a n fr nx pv"
proof -
  have r: "read32 m' (adr (a + k)) = read32 m (adr (a + k))" if "k \<le> 16" for k
    using assms that by (intro read32_cong) simp
  from r [of 0] r [of 4] r [of 12] r [of 16] assms [of "a + 8"] show ?thesis
    by (simp add: hdr_def blk_defs)
qed

lemma seg_cong:
  "(\<And>i. i \<in> hdrs a bs \<Longrightarrow> m' (adr i) = m (adr i)) \<Longrightarrow> seg m' a pv bs nx = seg m a pv bs nx"
proof (induction bs arbitrary: a pv)
  case (Cons b bs)
  obtain n fr where b: "b = (n, fr)" by (cases b)
  have "hdr m' a n fr k pv = hdr m a n fr k pv" for k
    using Cons.prems b by (intro hdr_cong) simp
  moreover have "seg m' (a + 20 + n) (adr a) bs nx = seg m (a + 20 + n) (adr a) bs nx"
    using Cons.prems b by (intro Cons.IH) simp
  ultimately show ?case by (simp add: b)
qed simp

lemma seg_set_prev:
  assumes "seg m a pv bs nx" "bs \<noteq> []" "a + span bs \<le> 4294967296"
  shows "seg (set_blk_prev (adr a) v m) a v bs nx"
proof -
  obtain n fr cs where bs: "bs = (n, fr) # cs" using assms(2) by (cases bs) auto
  have "seg (set_blk_prev (adr a) v m) (a + 20 + n) (adr a) cs nx = seg m (a + 20 + n) (adr a) cs nx"
    using assms(3) bs by (intro seg_cong) (auto dest!: hdrs_bounds intro: set_blk_outside)
  then show ?thesis using assms(1) by (simp add: bs hdr_def)
qed

section \<open>Walking the chain\<close>

lemma seg_path:
  assumes "seg m a pv bs 0" "0 < a" "a + span bs \<le> 4294967295"
  shows "path (\<lambda>p. ptr (blk_next m p)) (ptr (hd_ptr a bs 0)) (hdr_ptrs a bs)"
  using assms
proof (induction bs arbitrary: a pv)
  case Nil
  then show ?case by (simp add: ptr_def)
next
  case (Cons b bs)
  obtain n fr where b: "b = (n, fr)" by (cases b)
  then have "blk_next m (adr a) = hd_ptr (a + 20 + n) bs 0" using Cons.prems by (simp add: hdr_def)
  moreover have "ptr (adr a) = Some (adr a)" using Cons.prems b by (simp add: ptr_def adr_eq_0)
  moreover have "path (\<lambda>p. ptr (blk_next m p)) (ptr (hd_ptr (a + 20 + n) bs 0)) (hdr_ptrs (a + 20 + n) bs)"
    using Cons b by (intro Cons.IH [of _ "adr a"]) simp_all
  ultimately show ?case by (simp add: b)
qed

text \<open>
  A search along the headers for a test that the header contents decide finds the first block
  that passes it.
\<close>

lemma find_hdr_ptrs:
  assumes "seg m a pv bs nx"
    and "\<And>h n fr nx pv. hdr m h n fr nx pv \<Longrightarrow> a \<le> h \<Longrightarrow> h + 20 + n \<le> a + span bs \<Longrightarrow>
           P (adr h) = Q h n fr"
  shows "find P (hdr_ptrs a bs) = None
       \<and> (\<forall>xs n fr ys. bs = xs @ (n, fr) # ys \<longrightarrow> \<not> Q (a + span xs) n fr)
    \<or> (\<exists>xs n fr ys. bs = xs @ (n, fr) # ys \<and> Q (a + span xs) n fr
         \<and> (\<forall>us k g vs. xs = us @ (k, g) # vs \<longrightarrow> \<not> Q (a + span us) k g)
         \<and> find P (hdr_ptrs a bs) = Some (adr (a + span xs)))"
  using assms
proof (induction bs arbitrary: a pv)
  case Nil
  then show ?case by simp
next
  case (Cons b bs)
  obtain n fr where b: "b = (n, fr)" by (cases b)
  let ?a = "a + 20 + n"
  have P: "P (adr a) = Q a n fr" using Cons.prems by (auto simp: b)
  show ?case
  proof (cases "Q a n fr")
    case True
    then show ?thesis using P by (intro disjI2 exI [of _ "[]"]) (simp add: b)
  next
    case False
    have IH: "find P (hdr_ptrs ?a bs) = None
       \<and> (\<forall>xs n fr ys. bs = xs @ (n, fr) # ys \<longrightarrow> \<not> Q (?a + span xs) n fr)
    \<or> (\<exists>xs n fr ys. bs = xs @ (n, fr) # ys \<and> Q (?a + span xs) n fr
         \<and> (\<forall>us k g vs. xs = us @ (k, g) # vs \<longrightarrow> \<not> Q (?a + span us) k g)
         \<and> find P (hdr_ptrs ?a bs) = Some (adr (?a + span xs)))"
      using Cons.prems by (intro Cons.IH [of _ "adr a"]) (auto simp: b)
    have shift: "\<not> Q (a + span xs) k g"
      if "(n, fr) # cs = xs @ (k, g) # ys" "\<forall>us k g vs. cs = us @ (k, g) # vs \<longrightarrow> \<not> Q (?a + span us) k g"
      for cs xs k g ys
      using that False by (cases xs) (auto simp: add.assoc)
    show ?thesis
      using IH
    proof (elim disjE conjE exE)
      assume "find P (hdr_ptrs ?a bs) = None"
        "\<forall>xs n fr ys. bs = xs @ (n, fr) # ys \<longrightarrow> \<not> Q (?a + span xs) n fr"
      then show ?thesis using P False shift [of bs] by (intro disjI1) (auto simp: b)
    next
      fix xs k g ys
      assume *: "bs = xs @ (k, g) # ys" "Q (?a + span xs) k g"
        "\<forall>us k g vs. xs = us @ (k, g) # vs \<longrightarrow> \<not> Q (?a + span us) k g"
        "find P (hdr_ptrs ?a bs) = Some (adr (?a + span xs))"
      then show ?thesis using P False shift [of xs]
        by (intro disjI2 exI [of _ "(n, fr) # xs"] exI [of _ k] exI [of _ g] exI [of _ ys])
           (auto simp: b add.assoc)
    qed
  qed
qed

section \<open>Merging adjacent free blocks\<close>

fun coalesce :: "block list \<Rightarrow> block list" where
  "coalesce [] = []"
| "coalesce [b] = [b]"
| "coalesce ((n, f) # (k, g) # bs) =
     (if f \<and> g then coalesce ((n + (k + 20), True) # bs) else (n, f) # coalesce ((k, g) # bs))"

lemma span_coalesce [simp]: "span (coalesce bs) = span bs"
  by (induction bs rule: coalesce.induct) auto

lemma coalesce_eq_Nil [simp]: "coalesce bs = [] \<longleftrightarrow> bs = []"
  by (induction bs rule: coalesce.induct) auto

lemma hd_ptr_coalesce [simp]: "hd_ptr a (coalesce bs) nx = hd_ptr a bs nx"
  by (simp add: hd_ptr_def)

text \<open>The first two stores of a merge, on the header of the first block; the third only if a block follows.\<close>

definition merged :: "nat \<Rightarrow> nat \<Rightarrow> nat \<Rightarrow> block list \<Rightarrow> bytes \<Rightarrow> bytes" where
  "merged a n k bs m = set_blk_next (adr a) (hd_ptr (a + 20 + n + 20 + k) bs 0) (set_blk_size (adr a) (adr (n + (k + 20))) m)"

lemma merged_outside:
  "i < a \<or> a + 20 \<le> i \<Longrightarrow> i < 4294967296 \<Longrightarrow> a + 20 \<le> 4294967296 \<Longrightarrow> merged a n k bs m (adr i) = m (adr i)"
  by (simp add: merged_def set_blk_outside)

lemma merge_next_eq:
  assumes h: "hdr m a n True (adr (a + 20 + n)) pv" "hdr m (a + 20 + n) k True (hd_ptr (a + 20 + n + 20 + k) bs 0) (adr a)"
    and lim: "0 < a" "a + 20 + n + 20 + k + span bs \<le> 4294967295"
  shows "merge_next (adr a) m = (if bs = [] then merged a n k bs m
    else set_blk_prev (adr (a + 20 + n + 20 + k)) (adr a) (merged a n k bs m))"
proof -
  let ?b = "a + 20 + n" and ?c = "a + 20 + n + 20 + k"
  define m1 where "m1 = set_blk_size (adr a) (adr (n + (k + 20))) m"
  have m2: "merged a n k bs m = set_blk_next (adr a) (hd_ptr ?c bs 0) m1" by (simp add: merged_def m1_def)
  have "m1 (adr i) = m (adr i)" "merged a n k bs m (adr i) = m (adr i)" if "i < a \<or> a + 20 \<le> i" "i < 4294967296" for i
    using that lim(2) by (simp_all add: m1_def merged_outside set_blk_outside)
  then have b: "hdr m1 ?b k True (hd_ptr ?c bs 0) (adr a)" "hdr (merged a n k bs m) ?b k True (hd_ptr ?c bs 0) (adr a)"
    using h(2) lim(2) by (subst hdr_cong [of ?b _ m]; simp)+
  have s1: "blk_size m (adr a) + (blk_size m (blk_next m (adr a)) + BLOCK_SIZE) = adr (n + (k + 20))"
    using h(1,2) by (simp add: hdr_def BLOCK_SIZE_def)
  have n1: "blk_next m1 (adr a) = adr ?b" "blk_next m1 (adr ?b) = hd_ptr ?c bs 0"
      "blk_next (merged a n k bs m) (adr ?b) = hd_ptr ?c bs 0"
    using h(1) b by (simp_all add: hdr_def m1_def)
  have "hd_ptr ?c bs 0 \<noteq> 0 \<longleftrightarrow> bs \<noteq> []" using lim by (auto simp: hd_ptr_def adr_eq_0)
  then show ?thesis
    unfolding merge_next_def Let_def s1 m1_def [symmetric] n1(1,2) m2 [symmetric] n1(3)
    by (simp add: hd_ptr_def)
qed

lemma merge_next_seg:
  assumes "seg m a pv ((n, True) # (k, True) # bs) 0" "0 < a"
    and "a + span ((n, True) # (k, True) # bs) \<le> 4294967295"
  shows "seg (merge_next (adr a) m) a pv ((n + (k + 20), True) # bs) 0"
    and "\<forall>i < 4294967296. i \<notin> hdrs a ((n, True) # (k, True) # bs) \<longrightarrow>
           merge_next (adr a) m (adr i) = m (adr i)"
proof -
  let ?b = "a + 20 + n" and ?c = "a + 20 + n + 20 + k" and ?m = "merged a n k bs m"
  have h: "hdr m a n True (adr ?b) pv" "hdr m ?b k True (hd_ptr ?c bs 0) (adr a)"
      "seg m ?c (adr ?b) bs 0" and lim: "?c + span bs \<le> 4294967295"
    using assms by simp_all
  note eq = merge_next_eq [OF h(1,2) assms(2) lim]
  have out: "?m (adr i) = m (adr i)" if "i < a \<or> a + 20 \<le> i" "i < 4294967296" for i
    using that lim by (simp add: merged_outside)
  have c: "seg ?m ?c (adr ?b) bs 0"
    using h(3) lim by (subst seg_cong [of _ _ _ m]) (auto dest!: hdrs_bounds simp: out)
  have a: "hdr ?m a (n + (k + 20)) True (hd_ptr ?c bs 0) pv"
    using h(1) by (simp add: hdr_def merged_def)
  show "seg (merge_next (adr a) m) a pv ((n + (k + 20), True) # bs) 0"
  proof (cases "bs = []")
    case True
    then show ?thesis using a by (simp add: eq)
  next
    case False
    have "hdr (set_blk_prev (adr ?c) (adr a) ?m) a (n + (k + 20)) True (hd_ptr ?c bs 0) pv"
      using a lim False by (subst hdr_cong [of _ _ ?m]) (auto intro!: set_blk_outside simp: span_Cons neq_Nil_conv)
    moreover have "seg (set_blk_prev (adr ?c) (adr a) ?m) ?c (adr a) bs 0"
      using c False lim by (intro seg_set_prev) simp_all
    ultimately show ?thesis using False by (simp add: eq add.assoc [symmetric])
  qed
  show "\<forall>i < 4294967296. i \<notin> hdrs a ((n, True) # (k, True) # bs) \<longrightarrow>
      merge_next (adr a) m (adr i) = m (adr i)"
  proof (intro allI impI)
    fix i assume i: "i < 4294967296" "i \<notin> hdrs a ((n, True) # (k, True) # bs)"
    then have "?m (adr i) = m (adr i)" by (intro out) auto
    moreover have "set_blk_prev (adr ?c) (adr a) ?m (adr i) = ?m (adr i)" if "bs \<noteq> []"
      using that i lim by (intro set_blk_outside) (auto simp: span_Cons neq_Nil_conv)
    ultimately show "merge_next (adr a) m (adr i) = m (adr i)" by (cases "bs = []") (simp_all add: eq)
  qed
qed

lemma hdr_before:
  assumes "hdr m a n f nx pv" "\<forall>i < 4294967296. i \<notin> hdrs (a + 20 + n) bs \<longrightarrow> m' (adr i) = m (adr i)" "a + 20 + n < 4294967296"
  shows "hdr m' a n f nx pv"
proof (subst hdr_cong [of _ _ m])
  fix i assume "a \<le> i" "i < a + 20"
  moreover from this have "i \<notin> hdrs (a + 20 + n) bs" using hdrs_bounds by fastforce
  ultimately show "m' (adr i) = m (adr i)" using assms(2,3) by auto
qed (rule assms(1))

text \<open>
  The loop ends, the chain it leaves is the coalesced list, and only header bytes change.
\<close>

lemma compact_loop_seg:
  assumes "seg m a pv bs 0" "bs \<noteq> []" "0 < a" "a + span bs \<le> 4294967295"
  shows "\<exists>m'. compact_loop (adr a) m = Some m' \<and> seg m' a pv (coalesce bs) 0
    \<and> (\<forall>i < 4294967296. i \<notin> hdrs a bs \<longrightarrow> m' (adr i) = m (adr i))"
  using assms
proof (induction bs arbitrary: a pv m rule: coalesce.induct)
  case 1
  then show ?case by simp
next
  case (2 b)
  obtain n f where b: "b = (n, f)" by (cases b)
  have "blk_next m (adr a) = 0" using 2(1) by (simp add: b hdr_def)
  then show ?case using 2 by (subst compact_loop.simps) simp
next
  case (3 n f k g bs)
  let ?b = "a + 20 + n"
  have h: "hdr m a n f (adr ?b) pv" "hdr m ?b k g (hd_ptr (?b + 20 + k) bs 0) (adr a)"
    and lim: "?b + span ((k, g) # bs) \<le> 4294967295"
    using "3.prems" by simp_all
  have nz: "adr a \<noteq> 0" "blk_next m (adr a) = adr ?b" "adr ?b \<noteq> 0"
    using h(1) lim "3.prems"(3) by (simp_all add: hdr_def adr_eq_0)
  have contiguous: "blk_address m (adr a) + blk_size m (adr a) = blk_address m (adr ?b) - BLOCK_SIZE"
    using h by (simp add: hdr_def BLOCK_SIZE_def adr_diff ac_simps)
  have free: "blk_is_free m (adr a) \<noteq> 0 \<longleftrightarrow> f" "blk_is_free m (adr ?b) \<noteq> 0 \<longleftrightarrow> g"
    using h by (simp_all add: hdr_def)
  show ?case
  proof (cases "f \<and> g")
    case True
    let ?m = "merge_next (adr a) m"
    have seg: "seg ?m a pv ((n + (k + 20), True) # bs) 0"
      and out: "\<forall>i < 4294967296. i \<notin> hdrs a ((n, f) # (k, g) # bs) \<longrightarrow> ?m (adr i) = m (adr i)"
      using merge_next_seg [of m a pv n k bs] "3.prems" True by simp_all
    obtain m' where m': "compact_loop (adr a) ?m = Some m'"
        "seg m' a pv (coalesce ((n + (k + 20), True) # bs)) 0"
        "\<forall>i < 4294967296. i \<notin> hdrs a ((n + (k + 20), True) # bs) \<longrightarrow> m' (adr i) = ?m (adr i)"
      using "3.IH"(1) [OF True seg] "3.prems" by auto
    have "compact_loop (adr a) m = Some m'"
      using m'(1) nz free contiguous True by (subst compact_loop.simps) simp
    then show ?thesis using True m'(2,3) out by (auto simp: add.assoc)
  next
    case False
    have seg: "seg m ?b (adr a) ((k, g) # bs) 0" using "3.prems" by simp
    obtain m' where m': "compact_loop (adr ?b) m = Some m'"
        "seg m' ?b (adr a) (coalesce ((k, g) # bs)) 0"
        "\<forall>i < 4294967296. i \<notin> hdrs ?b ((k, g) # bs) \<longrightarrow> m' (adr i) = m (adr i)"
      using "3.IH"(2) [OF False seg] lim by auto
    have "compact_loop (adr a) m = Some m'"
      using m'(1) nz free False by (subst compact_loop.simps) auto
    moreover have "hdr m' a n f (adr ?b) pv" using hdr_before [OF h(1) m'(3)] lim by simp
    ultimately show ?thesis using False m'(2,3) by (auto simp: hd_ptr_def)
  qed
qed

section \<open>Taking a block\<close>

definition split_block :: "nat \<Rightarrow> nat \<Rightarrow> block list" where
  "split_block k n = (if n > k + 20 then [(k, False), (n - k - 20, True)] else [(n, False)])"

lemma span_split_block [simp]: "k \<le> n \<Longrightarrow> span (split_block k n) = 20 + n"
  by (simp add: split_block_def)

lemma split_block_not_Nil [simp]: "split_block k n \<noteq> []"
  by (simp add: split_block_def)

definition granted :: "nat \<Rightarrow> nat \<Rightarrow> nat" where
  "granted k n = (if n > k + 20 then k else n)"

lemma granted_ge: "k \<le> n \<Longrightarrow> k \<le> granted k n \<and> granted k n \<le> n"
  by (simp add: granted_def)

text \<open>The five stores that make a header, as the split does for the new block.\<close>

definition new_header :: "u32 \<Rightarrow> u32 \<Rightarrow> u32 \<Rightarrow> u32 \<Rightarrow> u32 \<Rightarrow> bytes \<Rightarrow> bytes" where
  "new_header b ad sz nx pv m = set_blk_prev b pv (set_blk_next b nx
     (set_blk_is_free b 1 (set_blk_size b sz (set_blk_address b ad m))))"

lemma new_header_hdr: "hdr (new_header (adr b) (adr (b + 20)) (adr n) nx pv m) b n True nx pv"
  by (simp add: new_header_def hdr_def)

lemma new_header_outside:
  assumes "i < b \<or> b + 20 \<le> i" "b + 20 \<le> 4294967296" "i < 4294967296"
  shows "new_header (adr b) ad sz nx pv m (adr i) = m (adr i)"
  using assms by (simp add: new_header_def set_blk_outside)

lemma take_block_split:
  assumes h: "hdr m a n True nx pv" and k: "k + 20 < n" and lim: "a + 20 + n \<le> 4294967295"
  shows "take_block (adr a) (adr k) m =
    (let b = a + 20 + k;
         m = new_header (adr b) (adr (b + 20)) (adr (n - k - 20)) nx (adr a) m;
         m = (if nx \<noteq> 0 then set_blk_prev nx (adr b) m else m);
         m = set_blk_size (adr a) (adr k) (set_blk_next (adr a) (adr b) m)
     in set_blk_is_free (adr a) 0 m)"
proof -
  let ?b = "a + 20 + k"
  define m1 where "m1 = set_blk_address (adr ?b) (adr (?b + 20)) m"
  define m2 where "m2 = set_blk_size (adr ?b) (adr (n - k - 20)) m1"
  define m3 where "m3 = set_blk_is_free (adr ?b) 1 m2"
  define m4 where "m4 = set_blk_next (adr ?b) nx m3"
  define m5 where "m5 = set_blk_prev (adr ?b) (adr a) m4"
  have out: "m1 (adr i) = m (adr i)" "m2 (adr i) = m (adr i)" "m3 (adr i) = m (adr i)"
      "m4 (adr i) = m (adr i)" "m5 (adr i) = m (adr i)" if "i < ?b" for i
    using that lim k by (simp_all add: m1_def m2_def m3_def m4_def m5_def set_blk_outside)
  have hs: "hdr m1 a n True nx pv" "hdr m3 a n True nx pv" "hdr m5 a n True nx pv"
    using h out by (subst hdr_cong [of a _ m]; simp)+
  have guard: "blk_size m (adr a) > adr k + BLOCK_SIZE"
    using h lim k by (simp add: hdr_def BLOCK_SIZE_def adr_less_iff)
  have b: "blk_address m (adr a) + adr k = adr ?b"
    "adr ?b + BLOCK_SIZE = adr (?b + 20)"
    using h by (simp_all add: hdr_def BLOCK_SIZE_def)
  have sz: "blk_size m1 (adr a) - adr k - BLOCK_SIZE = adr (n - k - 20)"
    using hs(1) k by (simp add: hdr_def BLOCK_SIZE_def adr_diff)
  have nx: "blk_next m3 (adr a) = nx" "blk_next m5 (adr a) = nx"
    using hs by (simp_all add: hdr_def)
  have "m5 = new_header (adr ?b) (adr (?b + 20)) (adr (n - k - 20)) nx (adr a) m"
    by (simp only: new_header_def m1_def m2_def m3_def m4_def m5_def)
  then show ?thesis
    unfolding take_block_def Let_def if_P [OF guard] b m1_def [symmetric] sz m2_def [symmetric]
      m3_def [symmetric] nx(1) m4_def [symmetric] m5_def [symmetric] nx(2)
    by simp
qed

lemma take_block_whole:
  assumes "hdr m a n True nx pv" "k \<le> n" "\<not> k + 20 < n" "a + 20 + n \<le> 4294967295"
  shows "take_block (adr a) (adr k) m = set_blk_is_free (adr a) 0 m"
proof -
  have "\<not> blk_size m (adr a) > adr k + BLOCK_SIZE"
    using assms by (simp add: hdr_def BLOCK_SIZE_def adr_less_iff)
  then show ?thesis by (simp add: take_block_def)
qed

lemma take_block_seg_split:
  assumes "seg m a pv ((n, True) # bs) 0" and k: "k + 20 < n"
    and lim: "0 < a" "a + span ((n, True) # bs) \<le> 4294967295"
  shows "seg (take_block (adr a) (adr k) m) a pv (split_block k n @ bs) 0 \<and>
    (\<forall>i < 4294967296. (i < a \<or> a + 20 + n \<le> i) \<and> i \<notin> hdrs (a + 20 + n) bs \<longrightarrow>
           take_block (adr a) (adr k) m (adr i) = m (adr i))"
proof -
  let ?c = "a + 20 + n" and ?b = "a + 20 + k"
  have h: "hdr m a n True (hd_ptr ?c bs 0) pv" "seg m ?c (adr a) bs 0"
    using assms(1) by simp_all
  define m1 where
    "m1 = new_header (adr ?b) (adr (?b + 20)) (adr (n - k - 20)) (hd_ptr ?c bs 0) (adr a) m"
  define m2 where "m2 = (if bs \<noteq> [] then set_blk_prev (adr ?c) (adr ?b) m1 else m1)"
  define m3 where "m3 = set_blk_is_free (adr a) 0
    (set_blk_size (adr a) (adr k) (set_blk_next (adr a) (adr ?b) m2))"
  have "hd_ptr ?c bs 0 \<noteq> 0 \<longleftrightarrow> bs \<noteq> []" using lim by (auto simp: hd_ptr_def adr_eq_0)
  then have m3: "take_block (adr a) (adr k) m = m3"
    using take_block_split [OF h(1) k] lim by (auto simp: Let_def m1_def m2_def m3_def hd_ptr_def)
  have out1: "m1 (adr i) = m (adr i)" if "i < ?b \<or> ?b + 20 \<le> i" "i < 4294967296" for i
    using that lim k unfolding m1_def by (intro new_header_outside) simp_all
  have out2: "m2 (adr i) = m1 (adr i)"
    if "bs = [] \<or> i < ?c \<or> ?c + 20 \<le> i" "i < 4294967296" for i
    using that lim unfolding m2_def by (auto intro!: set_blk_outside simp: span_Cons neq_Nil_conv)
  have out3: "m3 (adr i) = m2 (adr i)" if "i < a \<or> a + 20 \<le> i" "i < 4294967296" for i
    using that lim by (simp add: m3_def set_blk_outside)
  have "hdr m2 a n True (hd_ptr ?c bs 0) pv"
    using h(1) out1 out2 k lim by (subst hdr_cong [of _ _ m]) simp_all
  then have "hdr m3 a k False (adr ?b) pv" by (simp add: m3_def hdr_def)
  moreover have "hdr m3 ?b (n - k - 20) True (hd_ptr ?c bs 0) (adr a)"
    using new_header_hdr [of ?b "n - k - 20"] out2 out3 k lim
    by (subst hdr_cong [of _ _ m1]) (simp_all add: m1_def)
  moreover have "seg m3 ?c (adr ?b) bs 0"
  proof -
    have "seg m1 ?c (adr a) bs 0"
      using h(2) out1 k lim by (subst seg_cong [of _ _ _ m]) (auto dest!: hdrs_bounds)
    then have "seg m2 ?c (adr ?b) bs 0" using lim unfolding m2_def by (auto intro: seg_set_prev)
    then show ?thesis using out3 lim by (subst seg_cong [of _ _ _ m2]) (auto dest!: hdrs_bounds)
  qed
  moreover have "?b + 20 + (n - k - 20) = ?c" using k by simp
  ultimately have "seg m3 a pv (split_block k n @ bs) 0" using k by (simp add: split_block_def ac_simps)
  moreover have "m3 (adr i) = m (adr i)"
    if i: "i < 4294967296" "i < a \<or> ?c \<le> i" "i \<notin> hdrs ?c bs" for i
  proof -
    have "bs = [] \<or> i < ?c \<or> ?c + 20 \<le> i" using i(3) by (cases bs) auto
    then show ?thesis using out1 out2 out3 i k by auto
  qed
  ultimately show ?thesis by (simp add: m3)
qed

lemma take_block_seg:
  assumes "seg m a pv ((n, True) # bs) 0" "k \<le> n"
    and lim: "0 < a" "a + span ((n, True) # bs) \<le> 4294967295"
  shows "seg (take_block (adr a) (adr k) m) a pv (split_block k n @ bs) 0 \<and>
    (\<forall>i < 4294967296. (i < a \<or> a + 20 + n \<le> i) \<and> i \<notin> hdrs (a + 20 + n) bs \<longrightarrow>
           take_block (adr a) (adr k) m (adr i) = m (adr i))"
proof (cases "k + 20 < n")
  case True
  then show ?thesis by (intro take_block_seg_split assms)
next
  case False
  let ?m = "set_blk_is_free (adr a) 0 m" and ?c = "a + 20 + n"
  have h: "hdr m a n True (hd_ptr ?c bs 0) pv" "seg m ?c (adr a) bs 0"
    using assms(1) by simp_all
  have m: "take_block (adr a) (adr k) m = ?m"
    using take_block_whole [OF h(1) assms(2) False] lim by simp
  have "hdr ?m a n False (hd_ptr ?c bs 0) pv" using h(1) by (simp add: hdr_def)
  moreover have "seg ?m ?c (adr a) bs 0"
    using h(2) lim by (subst seg_cong [of _ _ _ m]) (auto dest!: hdrs_bounds intro: set_blk_outside)
  moreover have "?m (adr i) = m (adr i)" if "i < 4294967296" "i < a \<or> ?c \<le> i" for i
    using that lim by (intro set_blk_outside) auto
  ultimately show ?thesis using False by (simp add: m split_block_def)
qed

section \<open>The abstract allocator\<close>

text \<open>
  What the heap promises, on the list of blocks alone: allocation takes the first free block that
  is large enough and splits it, release marks the block whose data starts at \<open>p\<close> and merges
  neighbours. Both are total functions.
\<close>

abbreviation HEAP_LO :: nat where "HEAP_LO \<equiv> 0x100000"
abbreviation HEAP_LEN :: nat where "HEAP_LEN \<equiv> 0xF00000"

fun first_fit :: "nat \<Rightarrow> block list \<Rightarrow> (block list \<times> nat \<times> block list) option" where
  "first_fit k [] = None"
| "first_fit k ((n, fr) # bs) =
     (if fr \<and> k \<le> n then Some ([], n, bs)
      else map_option (\<lambda>(xs, l, ys). ((n, fr) # xs, l, ys)) (first_fit k bs))"

definition spec_alloc :: "nat \<Rightarrow> block list \<Rightarrow> nat \<times> block list" where
  "spec_alloc k bs = (case first_fit k bs of
       None \<Rightarrow> (0, bs)
     | Some (xs, n, ys) \<Rightarrow> (HEAP_LO + span xs + 20, xs @ split_block k n @ ys))"

fun release :: "nat \<Rightarrow> nat \<Rightarrow> block list \<Rightarrow> block list" where
  "release a p [] = []"
| "release a p ((n, fr) # bs) =
     (if a + 20 = p then (n, True) # bs else (n, fr) # release (a + 20 + n) p bs)"

definition spec_free :: "nat \<Rightarrow> block list \<Rightarrow> block list" where
  "spec_free p bs = coalesce (release HEAP_LO p bs)"

text \<open>The bytes handed out to callers, their number, and the regions they form.\<close>

fun used_bytes :: "nat \<Rightarrow> block list \<Rightarrow> nat set" where
  "used_bytes a [] = {}"
| "used_bytes a ((n, fr) # bs) =
     (if fr then {} else {a + 20..<a + 20 + n}) \<union> used_bytes (a + 20 + n) bs"

fun used_size :: "block list \<Rightarrow> nat" where
  "used_size [] = 0"
| "used_size ((n, fr) # bs) = (if fr then 0 else n) + used_size bs"

fun regions :: "nat \<Rightarrow> block list \<Rightarrow> (nat \<times> nat) set" where
  "regions a [] = {}"
| "regions a ((n, fr) # bs) = (if fr then {} else {(a + 20, n)}) \<union> regions (a + 20 + n) bs"

fun no_adjacent_free :: "block list \<Rightarrow> bool" where
  "no_adjacent_free ((n, f) # (k, g) # bs) \<longleftrightarrow> \<not> (f \<and> g) \<and> no_adjacent_free ((k, g) # bs)"
| "no_adjacent_free _ \<longleftrightarrow> True"

subsection \<open>Facts on the abstract allocator\<close>

lemma first_fit_None: "first_fit k bs = None \<longleftrightarrow> (\<forall>(n, fr) \<in> set bs. fr \<longrightarrow> n < k)"
  by (induction k bs rule: first_fit.induct) auto

lemma first_fit_append:
  "\<forall>(l, g) \<in> set xs. g \<longrightarrow> l < k \<Longrightarrow> k \<le> n \<Longrightarrow> first_fit k (xs @ (n, True) # ys) = Some (xs, n, ys)"
  by (induction xs) auto

lemma first_fit_SomeD:
  "first_fit k bs = Some (xs, n, ys) \<Longrightarrow> bs = xs @ (n, True) # ys \<and> k \<le> n"
  by (induction k bs arbitrary: xs rule: first_fit.induct) (auto split: if_splits)

lemma used_bytes_append [simp]:
  "used_bytes a (xs @ ys) = used_bytes a xs \<union> used_bytes (a + span xs) ys"
  by (induction a xs rule: used_bytes.induct) (auto simp: add.assoc)

lemma used_bytes_bounds: "i \<in> used_bytes a bs \<Longrightarrow> a + 20 \<le> i \<and> i < a + span bs"
  by (induction a bs rule: used_bytes.induct) (fastforce split: if_splits)+

lemma used_bytes_hdrs: "i \<in> used_bytes a bs \<Longrightarrow> i \<notin> hdrs a bs"
proof (induction a bs rule: used_bytes.induct)
  case (2 a n fr bs)
  then show ?case
    by (auto split: if_splits dest: used_bytes_bounds hdrs_bounds)
qed simp

lemma used_size_append [simp]: "used_size (xs @ ys) = used_size xs + used_size ys"
  by (induction xs) auto

lemma used_size_le: "used_size bs \<le> span bs"
  by (induction bs rule: used_size.induct) auto

lemma used_size_split_block: "used_size (split_block k n) = granted k n"
  by (simp add: split_block_def granted_def)

lemma used_size_coalesce [simp]: "used_size (coalesce bs) = used_size bs"
  by (induction bs rule: coalesce.induct) auto

lemma regions_append [simp]: "regions a (xs @ ys) = regions a xs \<union> regions (a + span xs) ys"
  by (induction a xs rule: regions.induct) (auto simp: add.assoc)

lemma regions_bounds: "(p, n) \<in> regions a bs \<Longrightarrow> a + 20 \<le> p \<and> p + n \<le> a + span bs"
  by (induction a bs rule: regions.induct) (fastforce split: if_splits)+

lemma regions_coalesce [simp]: "regions a (coalesce bs) = regions a bs"
  by (induction bs arbitrary: a rule: coalesce.induct) (auto simp: add.assoc)

lemma regions_used_bytes: "(p, n) \<in> regions a bs \<Longrightarrow> {p..<p + n} \<subseteq> used_bytes a bs"
  by (induction a bs rule: regions.induct) (auto split: if_splits)

lemma regions_split:
  "(p, n) \<in> regions a bs \<Longrightarrow> \<exists>xs ys. bs = xs @ (n, False) # ys \<and> p = a + span xs + 20"
proof (induction a bs rule: regions.induct)
  case (2 a l fr bs)
  show ?case
  proof (cases "\<not> fr \<and> (p, n) = (a + 20, l)")
    case True
    then show ?thesis by (intro exI [of _ "[]"] exI [of _ bs]) auto
  next
    case False
    then have "(p, n) \<in> regions (a + 20 + l) bs" using 2(2) by (auto split: if_splits)
    then obtain xs ys where "bs = xs @ (n, False) # ys \<and> p = a + 20 + l + span xs + 20"
      using 2(1) by blast
    then show ?thesis by (intro exI [of _ "(l, fr) # xs"] exI [of _ ys]) auto
  qed
qed simp

lemma regions_disjoint:
  "(p, n) \<in> regions a bs \<Longrightarrow> (q, k) \<in> regions a bs \<Longrightarrow> (p, n) = (q, k) \<or> p + n + 20 \<le> q \<or> q + k + 20 \<le> p"
  by (induction a bs rule: regions.induct) (fastforce split: if_splits dest: regions_bounds)+

lemma no_adjacent_free_coalesce: "no_adjacent_free (coalesce bs)"
proof (induction bs rule: coalesce.induct)
  case (3 n f k g bs)
  show ?case
  proof (cases "f \<and> g")
    case False
    have "\<exists>l c. coalesce ((k, g) # bs) = (l, g) # c"
    proof (induction "(k, g) # bs" arbitrary: k bs rule: coalesce.induct)
      case (3 n' k' g' bs')
      then show ?case by (cases "g \<and> g'") auto
    qed auto
    then show ?thesis using 3 False by (auto split: if_splits)
  qed (use 3 in simp)
qed simp_all

lemma coalesce_id: "no_adjacent_free bs \<Longrightarrow> coalesce bs = bs"
  by (induction bs rule: coalesce.induct) auto

lemma no_adjacent_free_split:
  "no_adjacent_free (xs @ (n, True) # ys) \<Longrightarrow> no_adjacent_free (xs @ split_block k n @ ys)"
proof (induction xs)
  case Nil
  then show ?case by (cases ys) (auto simp: split_block_def)
next
  case (Cons b bs)
  obtain l h where "b = (l, h)" by (cases b)
  then show ?case using Cons by (cases bs) (auto simp: split_block_def)
qed

end
