(* ===== verification/Allocator.thy ===== *)
theory Allocator
  imports Heap
begin

text \<open>
  \<open>kmalloc\<close>, \<open>kfree\<close>, \<open>kcalloc\<close> and \<open>krealloc\<close> refine the abstract allocator of theory \<open>Heap\<close>.
  \<open>heap_inv s bs\<close> relates the kernel's memory state to a list of blocks and says that the
  counters agree with it. The locale \<open>allocator\<close> is the interface the rest of the kernel relies
  on; it is interpreted on \<open>kmalloc\<close> and \<open>kfree\<close> here and on the page allocator in \<open>Pages\<close>.
\<close>

section \<open>The heap invariant\<close>

definition heap_rep :: "'a memory_scheme \<Rightarrow> block list \<Rightarrow> bool" where
  "heap_rep s bs \<longleftrightarrow> memory_initialized s \<noteq> 0 \<and> free_list (manager s) = adr HEAP_LO
     \<and> seg (mem s) HEAP_LO 0 bs 0 \<and> span bs = HEAP_LEN \<and> (\<forall>b \<in> set bs. 4 dvd fst b)"

definition stats_rep :: "'a memory_scheme \<Rightarrow> block list \<Rightarrow> bool" where
  "stats_rep s bs \<longleftrightarrow> total_memory (manager s) = adr HEAP_LEN
     \<and> current_allocated (mstats s) = adr (used_size bs)
     \<and> free_memory (manager s) = adr (HEAP_LEN - used_size bs)
     \<and> current_allocated (mstats s) \<le> peak_allocated (mstats s)"

definition heap_inv :: "'a memory_scheme \<Rightarrow> block list \<Rightarrow> bool" where
  "heap_inv s bs \<longleftrightarrow> heap_rep s bs \<and> stats_rep s bs \<and> no_adjacent_free bs"

lemma heap_repD:
  assumes "heap_rep s bs"
  shows "memory_initialized s \<noteq> 0" "free_list (manager s) = adr HEAP_LO"
    "seg (mem s) HEAP_LO 0 bs 0" "span bs = HEAP_LEN" "bs \<noteq> []" "HEAP_LO + span bs \<le> 4294967295"
    "\<forall>b \<in> set bs. 4 dvd fst b"
  using assms by (auto simp: heap_rep_def)

lemma heap_rep_path:
  assumes "heap_rep s bs"
  shows "list_find (\<lambda>p. ptr (blk_next (mem s) p)) P (ptr (free_list (manager s)))
    = Some (find P (hdr_ptrs HEAP_LO bs))"
proof (rule list_find_path)
  note r = heap_repD [OF assms]
  have "hd_ptr HEAP_LO bs 0 = free_list (manager s)" using r by (simp add: hd_ptr_def)
  then show "path (\<lambda>p. ptr (blk_next (mem s) p)) (ptr (free_list (manager s))) (hdr_ptrs HEAP_LO bs)"
    using seg_path [OF r(3) _ r(6)] by simp
qed

section \<open>Alignment\<close>

lemma and_not_mask: "x AND NOT (mask n) = push_bit n (drop_bit n (x :: u32))"
  by (rule bit_eqI) (auto simp: bit_simps not_less)

lemma and_not_3: "unat (x AND NOT 3 :: u32) = 4 * (unat x div 4)"
proof -
  have "(3 :: u32) = mask 2" by (simp add: mask_eq_exp_minus_1)
  then have "x AND NOT 3 = push_bit 2 (drop_bit 2 x)" by (simp only: and_not_mask)
  moreover have "unat (drop_bit 2 x) = unat x div 4"
    by (simp add: unat_drop_bit_eq drop_bit_eq_div [of 2 "unat x"])
  moreover have "4 * (unat x div 4) < 4294967296" using unat_u32_bound [of x] by linarith
  ultimately show ?thesis
    by (simp add: push_bit_eq_mult unat_word_ariths mult.commute)
qed

lemma align_4: "unat (align_address n 4) = 4 * (unat (n + 3) div 4)"
  using and_not_3 [of "n + 3"] by (simp add: align_address_def add.commute)

lemma align_4_dvd: "4 dvd unat (align_address n 4)"
  by (simp add: align_4)

lemma align_4_ge:
  assumes "n \<le> 0xFFFFFFFC"
  shows "unat n \<le> unat (align_address n 4)" "unat (align_address n 4) < unat n + 4"
proof -
  have "unat n \<le> 4294967292" using assms by (simp add: word_le_nat_alt)
  then have "unat (n + 3) = unat n + 3" by (simp add: unat_word_ariths)
  then show "unat n \<le> unat (align_address n 4)" "unat (align_address n 4) < unat n + 4"
    unfolding align_4 by linarith+
qed

section \<open>Allocation\<close>

lemma take_block_rep:
  assumes r: "heap_rep s bs" and f: "first_fit k bs = Some (xs, l, ys)" and k: "4 dvd k"
    and m: "m = take_block (adr (HEAP_LO + span xs)) (adr k) (mem s)"
  shows "seg m HEAP_LO 0 (xs @ split_block k l @ ys) 0"
    and "heap_rep (s\<lparr>mem := m\<rparr>) (xs @ split_block k l @ ys)"
    and "i \<in> used_bytes HEAP_LO bs \<Longrightarrow> m (adr i) = mem s (adr i)"
proof -
  let ?a = "HEAP_LO + span xs"
  have bs: "bs = xs @ (l, True) # ys" "k \<le> l" using first_fit_SomeD [OF f] by auto
  note rd = heap_repD [OF r]
  have sg: "seg (mem s) HEAP_LO 0 xs (adr ?a)" "seg (mem s) ?a (last_ptr HEAP_LO 0 xs) ((l, True) # ys) 0"
    using rd(3) by (simp_all only: bs seg_append hd_ptr_simps)
  have lim: "?a + span ((l, True) # ys) \<le> 4294967295" using rd(6) by (simp add: bs)
  have tb: "seg m ?a (last_ptr HEAP_LO 0 xs) (split_block k l @ ys) 0"
    "\<forall>i < 4294967296. (i < ?a \<or> ?a + 20 + l \<le> i) \<and> i \<notin> hdrs (?a + 20 + l) ys \<longrightarrow> m (adr i) = mem s (adr i)"
    using take_block_seg [OF sg(2) bs(2) _ lim] m by auto
  have "m (adr i) = mem s (adr i)" if "i < ?a" for i
  proof -
    have "i \<notin> hdrs (?a + 20 + l) ys" using that hdrs_bounds by fastforce
    then show ?thesis using tb(2) that lim by simp
  qed
  then have "seg m HEAP_LO 0 xs (adr ?a)"
    using sg(1) by (subst seg_cong [of _ _ _ "mem s"]) (auto dest!: hdrs_bounds)
  then show sg': "seg m HEAP_LO 0 (xs @ split_block k l @ ys) 0"
    using tb(1) by (simp add: seg_append hd_ptr_def)
  have "\<forall>b \<in> set (split_block k l). 4 dvd fst b"
    using rd(7) k bs by (auto simp: split_block_def dvd_diff_nat)
  then show "heap_rep (s\<lparr>mem := m\<rparr>) (xs @ split_block k l @ ys)"
    using rd sg' bs by (auto simp: heap_rep_def)
  show "i \<in> used_bytes HEAP_LO bs \<Longrightarrow> m (adr i) = mem s (adr i)"
  proof -
    assume i: "i \<in> used_bytes HEAP_LO bs"
    then have "i < 4294967296" using used_bytes_bounds [OF i] rd(6) by simp
    moreover have "i < ?a \<or> ?a + 20 + l \<le> i"
      using i by (auto simp: bs dest!: used_bytes_bounds)
    moreover have "i \<notin> hdrs (?a + 20 + l) ys" using used_bytes_hdrs [OF i] by (simp add: bs)
    ultimately show ?thesis using tb(2) by blast
  qed
qed

lemma kmalloc_search:
  assumes r: "heap_rep s bs" and k: "k < 4294967296"
  shows "find (\<lambda>p. blk_is_free (mem s) p \<noteq> 0 \<and> blk_size (mem s) p \<ge> adr k) (hdr_ptrs HEAP_LO bs)
    = map_option (\<lambda>(xs, l, ys). adr (HEAP_LO + span xs)) (first_fit k bs)"
    (is "find ?P _ = _")
proof -
  note rd = heap_repD [OF r]
  have Q: "(blk_is_free (mem s) (adr h) \<noteq> 0 \<and> blk_size (mem s) (adr h) \<ge> adr k) = (fr \<and> k \<le> n)"
    if "hdr (mem s) h n fr nx pv" "HEAP_LO \<le> h" "h + 20 + n \<le> HEAP_LO + span bs" for h n fr nx pv
    using that rd(6) k by (auto simp: hdr_def adr_le_iff)
  have F: "find ?P (hdr_ptrs HEAP_LO bs) = None
       \<and> (\<forall>xs n fr ys. bs = xs @ (n, fr) # ys \<longrightarrow> \<not> (fr \<and> k \<le> n))
    \<or> (\<exists>xs n fr ys. bs = xs @ (n, fr) # ys \<and> (fr \<and> k \<le> n)
         \<and> (\<forall>us l g vs. xs = us @ (l, g) # vs \<longrightarrow> \<not> (g \<and> k \<le> l))
         \<and> find ?P (hdr_ptrs HEAP_LO bs) = Some (adr (HEAP_LO + span xs)))"
    by (rule find_hdr_ptrs [OF rd(3)]) (rule Q)
  show ?thesis
    using F
  proof (elim disjE conjE exE)
    assume *: "find ?P (hdr_ptrs HEAP_LO bs) = None"
      "\<forall>xs n fr ys. bs = xs @ (n, fr) # ys \<longrightarrow> \<not> (fr \<and> k \<le> n)"
    then have "first_fit k bs = None"
      unfolding first_fit_None by (force simp: in_set_conv_decomp)
    then show ?thesis using * by simp
  next
    fix xs n fr ys
    assume *: "bs = xs @ (n, fr) # ys" "fr" "k \<le> n"
      "\<forall>us l g vs. xs = us @ (l, g) # vs \<longrightarrow> \<not> (g \<and> k \<le> l)"
      "find ?P (hdr_ptrs HEAP_LO bs) = Some (adr (HEAP_LO + span xs))"
    then have "\<forall>(l, g) \<in> set xs. g \<longrightarrow> l < k" by (force simp: in_set_conv_decomp)
    then show ?thesis using * first_fit_append [of xs k n ys] by simp
  qed
qed

lemma seg_block:
  assumes "seg m a pv (xs @ (n, fr) # ys) nx"
  shows "blk_address m (adr (a + span xs)) = adr (a + span xs + 20)"
    "blk_size m (adr (a + span xs)) = adr n"
    "blk_is_free m (adr (a + span xs)) = (if fr then 1 else 0)"
  using assms by (simp_all add: seg_append hdr_def)

lemma seg_split_block:
  assumes "seg m a pv (xs @ split_block k l @ ys) nx"
  shows "blk_address m (adr (a + span xs)) = adr (a + span xs + 20)"
    "blk_size m (adr (a + span xs)) = adr (granted k l)"
  using assms by (auto simp: split_block_def granted_def seg_block split: if_splits)

lemma kmalloc_eq:
  assumes r: "heap_rep s bs" and "n \<noteq> 0" and k: "k = unat (align_address n 4)"
  shows "kmalloc n s = (case first_fit k bs of
      None \<Rightarrow> Some (0, s)
    | Some (xs, l, ys) \<Rightarrow> Some (adr (HEAP_LO + span xs + 20),
        count_alloc (adr (granted k l))
          (s\<lparr>mem := take_block (adr (HEAP_LO + span xs)) (adr k) (mem s)\<rparr>)))"
proof -
  have ak: "align_address n 4 = adr k" "k < 4294967296" using k unat_u32_bound by simp_all
  note rd = heap_repD [OF r]
  show ?thesis
  proof (cases "first_fit k bs")
    case None
    then show ?thesis using rd(1) assms(2) ak
      by (simp add: kmalloc_def Let_def heap_rep_path [OF r] kmalloc_search [OF r])
  next
    case (Some t)
    obtain xs l ys where t: "t = (xs, l, ys)" by (cases t)
    then have f: "first_fit k bs = Some (xs, l, ys)" using Some by simp
    have "4 dvd k" using k align_4_dvd by simp
    from seg_split_block [OF take_block_rep(1) [OF r f this refl]]
    show ?thesis using rd(1) assms(2) ak f
      by (simp add: kmalloc_def Let_def heap_rep_path [OF r] kmalloc_search [OF r] count_alloc_def)
  qed
qed

lemma heap_inv_cong:
  assumes "heap_inv s bs" "mem t = mem s" "manager t = manager s" "mstats t = mstats s"
    "memory_initialized t = memory_initialized s"
  shows "heap_inv t bs"
  using assms by (auto simp: heap_inv_def heap_rep_def stats_rep_def)

lemma count_alloc_fields [simp]:
  "mem (count_alloc n s) = mem s"
  "memory_initialized (count_alloc n s) = memory_initialized s"
  "free_list (manager (count_alloc n s)) = free_list (manager s)"
  by (simp_all add: count_alloc_def Let_def)

lemma count_alloc_stats:
  assumes "stats_rep s bs" "used_size cs = used_size bs + g" "used_size cs \<le> HEAP_LEN"
  shows "stats_rep (count_alloc (adr g) s) cs"
proof -
  have "adr (HEAP_LEN - used_size bs) - adr g = adr (HEAP_LEN - used_size cs)"
    using assms(2,3) by (simp add: adr_diff)
  then show ?thesis
    using assms(1,2) by (auto simp: stats_rep_def count_alloc_def Let_def not_less)
qed

text \<open>The state components a heap operation may change.\<close>

definition same_but_heap :: "'a memory_scheme \<Rightarrow> 'a memory_scheme \<Rightarrow> bool" where
  "same_but_heap s t \<longleftrightarrow>
     (\<exists>m f st. t = s\<lparr>mem := m, manager := (manager s)\<lparr>free_memory := f\<rparr>, mstats := st\<rparr>)"

lemma same_but_heap_refl: "same_but_heap s s"
  unfolding same_but_heap_def
  by (intro exI [of _ "mem s"] exI [of _ "free_memory (manager s)"] exI [of _ "mstats s"]) simp

lemma same_but_heap_trans: "same_but_heap s t \<Longrightarrow> same_but_heap t u \<Longrightarrow> same_but_heap s u"
  unfolding same_but_heap_def by (auto, blast)

lemma same_but_heapI:
  "same_but_heap s (s\<lparr>mem := m, manager := (manager s)\<lparr>free_memory := f\<rparr>, mstats := st\<rparr>)"
  unfolding same_but_heap_def by blast

lemma count_alloc_same: "same_but_heap s (count_alloc n (s\<lparr>mem := m\<rparr>))"
proof -
  define st where "st = mstats (count_alloc n (s\<lparr>mem := m\<rparr>))"
  have "count_alloc n (s\<lparr>mem := m\<rparr>) = s\<lparr>mem := m,
      manager := (manager s)\<lparr>free_memory := free_memory (manager s) - n\<rparr>, mstats := st\<rparr>"
    by (simp add: st_def count_alloc_def Let_def)
  then show ?thesis unfolding same_but_heap_def by blast
qed

lemma kmalloc_refines:
  assumes inv: "heap_inv s bs" and "n \<noteq> 0" and spec: "spec_alloc (unat (align_address n 4)) bs = (p, cs)"
  shows "\<exists>t. kmalloc n s = Some (adr p, t) \<and> heap_inv t cs \<and> same_but_heap s t
    \<and> (\<forall>i \<in> used_bytes HEAP_LO bs. mem t (adr i) = mem s (adr i))"
proof -
  define k where "k = unat (align_address n 4)"
  have r: "heap_rep s bs" and st: "stats_rep s bs" and adj: "no_adjacent_free bs"
    using inv by (simp_all add: heap_inv_def)
  note eq = kmalloc_eq [OF r assms(2) k_def]
  show ?thesis
  proof (cases "first_fit k bs")
    case None
    then show ?thesis using eq spec inv by (simp add: spec_alloc_def k_def same_but_heap_refl)
  next
    case (Some u)
    obtain xs l ys where u: "u = (xs, l, ys)" by (cases u)
    then have f: "first_fit k bs = Some (xs, l, ys)" using Some by simp
    have bs: "bs = xs @ (l, True) # ys" "k \<le> l" using first_fit_SomeD [OF f] by auto
    let ?m = "take_block (adr (HEAP_LO + span xs)) (adr k) (mem s)"
    let ?t = "count_alloc (adr (granted k l)) (s\<lparr>mem := ?m\<rparr>)"
    have cs: "cs = xs @ split_block k l @ ys" "p = HEAP_LO + span xs + 20"
      using spec f by (simp_all add: spec_alloc_def k_def)
    note tb = take_block_rep [OF r f _ refl, unfolded cs(1) [symmetric]]
    have dvd: "4 dvd k" using align_4_dvd by (simp add: k_def)
    have "heap_rep ?t cs" using tb(2) [OF dvd] by (simp add: heap_rep_def)
    moreover have "stats_rep ?t cs"
    proof (rule count_alloc_stats)
      show "stats_rep (s\<lparr>mem := ?m\<rparr>) bs" using st by (auto simp: stats_rep_def)
      show "used_size cs = used_size bs + granted k l" by (simp add: cs bs used_size_split_block)
      show "used_size cs \<le> HEAP_LEN"
        using used_size_le [of cs] heap_repD(4) [OF tb(2) [OF dvd]] by simp
    qed
    moreover have "no_adjacent_free cs" using adj by (simp add: cs bs no_adjacent_free_split)
    ultimately have "heap_inv ?t cs" by (simp add: heap_inv_def)
    moreover have "kmalloc n s = Some (adr p, ?t)" using eq f by (simp add: cs)
    ultimately show ?thesis using tb(3) [OF dvd] count_alloc_same by auto
  qed
qed

section \<open>Release\<close>

lemma release_append:
  "\<forall>us k g vs. xs = us @ (k, g) # vs \<longrightarrow> a + span us + 20 \<noteq> p \<Longrightarrow>
   release a p (xs @ ys) = xs @ release (a + span xs) p ys"
proof (induction xs arbitrary: a)
  case (Cons x xs)
  obtain n fr where x: "x = (n, fr)" by (cases x)
  have "a + 20 \<noteq> p" using Cons.prems x by (metis append_Nil span.simps(1) add_0_right)
  moreover have "\<forall>us k g vs. xs = us @ (k, g) # vs \<longrightarrow> a + 20 + n + span us + 20 \<noteq> p"
  proof (intro allI impI)
    fix us k g vs assume "xs = us @ (k, g) # vs"
    then have "x # xs = (x # us) @ (k, g) # vs" by simp
    then show "a + 20 + n + span us + 20 \<noteq> p"
      using Cons.prems by (metis x span.simps(2) add.assoc)
  qed
  ultimately show ?case using Cons.IH [of "a + 20 + n"] by (simp add: x add.assoc)
qed simp

lemma find_block_rep:
  assumes r: "heap_rep s bs" and p: "p \<noteq> 0"
  shows "find_block p s = Some None \<and> release HEAP_LO (unat p) bs = bs
    \<or> (\<exists>xs n fr ys. bs = xs @ (n, fr) # ys \<and> unat p = HEAP_LO + span xs + 20
        \<and> find_block p s = Some (Some (adr (HEAP_LO + span xs)))
        \<and> release HEAP_LO (unat p) bs = xs @ (n, True) # ys)"
proof -
  note rd = heap_repD [OF r]
  have Q: "(blk_address (mem s) (adr h) = p) = (h + 20 = unat p)"
    if "hdr (mem s) h n fr nx pv" "HEAP_LO \<le> h" "h + 20 + n \<le> HEAP_LO + span bs" for h n fr nx pv
  proof -
    have "adr (h + 20) = p \<longleftrightarrow> adr (h + 20) = adr (unat p)" by simp
    also have "\<dots> \<longleftrightarrow> h + 20 = unat p"
      using that rd(6) unat_u32_bound [of p] by (intro adr_eq_iff) simp_all
    finally show ?thesis using that by (simp add: hdr_def)
  qed
  have F: "find (\<lambda>b. blk_address (mem s) b = p) (hdr_ptrs HEAP_LO bs) = None
       \<and> (\<forall>xs n fr ys. bs = xs @ (n, fr) # ys \<longrightarrow> HEAP_LO + span xs + 20 \<noteq> unat p)
    \<or> (\<exists>xs n fr ys. bs = xs @ (n, fr) # ys \<and> HEAP_LO + span xs + 20 = unat p
         \<and> (\<forall>us k g vs. xs = us @ (k, g) # vs \<longrightarrow> HEAP_LO + span us + 20 \<noteq> unat p)
         \<and> find (\<lambda>b. blk_address (mem s) b = p) (hdr_ptrs HEAP_LO bs) = Some (adr (HEAP_LO + span xs)))"
    by (rule find_hdr_ptrs [OF rd(3)]) (rule Q)
  show ?thesis
    using F
  proof (elim disjE conjE exE)
    assume *: "find (\<lambda>b. blk_address (mem s) b = p) (hdr_ptrs HEAP_LO bs) = None"
      "\<forall>xs n fr ys. bs = xs @ (n, fr) # ys \<longrightarrow> HEAP_LO + span xs + 20 \<noteq> unat p"
    then have "release HEAP_LO (unat p) (bs @ []) = bs @ []" by (subst release_append) auto
    then show ?thesis using * by (simp add: find_block_def heap_rep_path [OF r])
  next
    fix xs n fr ys
    assume *: "bs = xs @ (n, fr) # ys" "HEAP_LO + span xs + 20 = unat p"
      "\<forall>us k g vs. xs = us @ (k, g) # vs \<longrightarrow> HEAP_LO + span us + 20 \<noteq> unat p"
      "find (\<lambda>b. blk_address (mem s) b = p) (hdr_ptrs HEAP_LO bs) = Some (adr (HEAP_LO + span xs))"
    then have "release HEAP_LO (unat p) bs = xs @ (n, True) # ys"
      by (simp add: release_append)
    then show ?thesis using *
      by (intro disjI2 exI [of _ xs] exI [of _ n] exI [of _ fr] exI [of _ ys])
         (simp add: find_block_def heap_rep_path [OF r])
  qed
qed

text \<open>Storing 1 to \<open>is_free\<close> of one block.\<close>

lemma set_free_seg:
  assumes "seg m a pv (xs @ (n, fr) # ys) 0" "a + span (xs @ (n, fr) # ys) \<le> 4294967295"
  shows "seg (set_blk_is_free (adr (a + span xs)) 1 m) a pv (xs @ (n, True) # ys) 0"
proof -
  let ?h = "a + span xs" and ?m = "set_blk_is_free (adr (a + span xs)) 1 m"
  have out: "?m (adr i) = m (adr i)" if "i < ?h \<or> ?h + 20 \<le> i" "i < 4294967296" for i
    using that assms(2) by (intro set_blk_outside) simp_all
  have "seg ?m a pv xs (adr ?h)"
    using assms out by (subst seg_cong [of _ _ _ m]) (auto simp: seg_append dest!: hdrs_bounds)
  moreover have "seg ?m (?h + 20 + n) (adr ?h) ys 0"
    using assms out by (subst seg_cong [of _ _ _ m]) (auto simp: seg_append dest!: hdrs_bounds)
  moreover have "hdr ?m ?h n True (hd_ptr (?h + 20 + n) ys 0) (last_ptr a pv xs)"
    using assms(1) by (simp add: seg_append hdr_def)
  ultimately show ?thesis by (simp add: seg_append)
qed

lemma compact_rep:
  assumes "heap_rep s bs"
  shows "\<exists>m. compact_free_blocks s = Some (s\<lparr>mem := m\<rparr>) \<and> heap_rep (s\<lparr>mem := m\<rparr>) (coalesce bs)
    \<and> (\<forall>i < 4294967296. i \<notin> hdrs HEAP_LO bs \<longrightarrow> m (adr i) = mem s (adr i))"
proof -
  note rd = heap_repD [OF assms]
  obtain m where m: "compact_loop (adr HEAP_LO) (mem s) = Some m" "seg m HEAP_LO 0 (coalesce bs) 0"
      "\<forall>i < 4294967296. i \<notin> hdrs HEAP_LO bs \<longrightarrow> m (adr i) = mem s (adr i)"
    using compact_loop_seg [OF rd(3,5) _ rd(6)] by auto
  have "\<forall>b \<in> set (coalesce bs). 4 dvd fst b"
    using rd(7) by (induction bs rule: coalesce.induct) auto
  then have "heap_rep (s\<lparr>mem := m\<rparr>) (coalesce bs)"
    using rd m(2) by (simp add: heap_rep_def)
  then show ?thesis using m rd(2) by (intro exI [of _ m]) (simp add: compact_free_blocks_def)
qed

lemma count_free_fields [simp]:
  "mem (count_free n s) = mem s"
  "memory_initialized (count_free n s) = memory_initialized s"
  "free_list (manager (count_free n s)) = free_list (manager s)"
  by (simp_all add: count_free_def Let_def)

lemma count_free_stats:
  assumes "stats_rep s bs" "used_size bs = used_size cs + n" "used_size bs \<le> HEAP_LEN"
  shows "stats_rep (count_free (adr n) s) cs"
proof -
  have "adr (used_size bs) - adr n = adr (used_size cs)"
    "adr (HEAP_LEN - used_size bs) + adr n = adr (HEAP_LEN - used_size cs)"
    using assms(2,3) by (simp_all add: adr_diff)
  moreover have "adr (used_size cs) \<le> adr (used_size bs)"
    using assms(2,3) by (subst adr_le_iff) simp_all
  ultimately show ?thesis
    using assms(1) by (auto simp: stats_rep_def count_free_def Let_def)
qed

lemma count_free_same: "same_but_heap s ((count_free n (s\<lparr>mem := m\<rparr>))\<lparr>mem := m'\<rparr>)"
proof -
  define st where "st = mstats (count_free n (s\<lparr>mem := m\<rparr>))"
  have "(count_free n (s\<lparr>mem := m\<rparr>))\<lparr>mem := m'\<rparr> = s\<lparr>mem := m',
      manager := (manager s)\<lparr>free_memory := free_memory (manager s) + n\<rparr>, mstats := st\<rparr>"
    by (simp add: st_def count_free_def Let_def)
  then show ?thesis unfolding same_but_heap_def by blast
qed

text \<open>Releasing a block that is in use.\<close>

lemma kfree_used_block:
  assumes inv: "heap_inv s (xs @ (n, False) # ys)"
  defines "t \<equiv> count_free (adr n) (s\<lparr>mem := set_blk_is_free (adr (HEAP_LO + span xs)) 1 (mem s)\<rparr>)"
  shows "\<exists>m. compact_free_blocks t = Some (t\<lparr>mem := m\<rparr>)
    \<and> heap_inv (t\<lparr>mem := m\<rparr>) (coalesce (xs @ (n, True) # ys)) \<and> same_but_heap s (t\<lparr>mem := m\<rparr>)
    \<and> (\<forall>i < 4294967296. i \<notin> hdrs HEAP_LO (xs @ (n, False) # ys) \<longrightarrow> m (adr i) = mem s (adr i))"
proof -
  let ?h = "HEAP_LO + span xs" and ?cs = "xs @ (n, True) # ys" and ?bs = "xs @ (n, False) # ys"
  have r: "heap_rep s ?bs" and st: "stats_rep s ?bs" using inv by (simp_all add: heap_inv_def)
  note rd = heap_repD [OF r]
  have tr: "heap_rep t ?cs"
    using rd set_free_seg [OF rd(3,6)] by (auto simp: t_def heap_rep_def)
  have ts: "stats_rep t ?cs"
    unfolding t_def using st used_size_le [of ?bs] rd(4)
    by (intro count_free_stats [of _ ?bs]) (auto simp: stats_rep_def)
  obtain m where m: "compact_free_blocks t = Some (t\<lparr>mem := m\<rparr>)" "heap_rep (t\<lparr>mem := m\<rparr>) (coalesce ?cs)"
      "\<forall>i < 4294967296. i \<notin> hdrs HEAP_LO ?cs \<longrightarrow> m (adr i) = mem t (adr i)"
    using compact_rep [OF tr] by blast
  have "heap_inv (t\<lparr>mem := m\<rparr>) (coalesce ?cs)"
    using m(2) ts by (auto simp: heap_inv_def stats_rep_def no_adjacent_free_coalesce)
  moreover have "m (adr i) = mem s (adr i)" if "i < 4294967296" "i \<notin> hdrs HEAP_LO ?bs" for i
  proof -
    have "set_blk_is_free (adr ?h) 1 (mem s) (adr i) = mem s (adr i)"
      using that rd(6) by (intro set_blk_outside) auto
    then show ?thesis using m(3) that by (simp add: t_def)
  qed
  moreover have "same_but_heap s (t\<lparr>mem := m\<rparr>)" unfolding t_def by (rule count_free_same)
  ultimately show ?thesis using m(1) by blast
qed

lemma kfree_refines:
  assumes inv: "heap_inv s bs" and "p \<noteq> 0"
  shows "\<exists>t. kfree p s = Some t \<and> heap_inv t (spec_free (unat p) bs) \<and> same_but_heap s t
    \<and> (\<forall>i < 4294967296. i \<notin> hdrs HEAP_LO bs \<longrightarrow> mem t (adr i) = mem s (adr i))"
proof -
  have r: "heap_rep s bs" and adj: "no_adjacent_free bs" using inv by (simp_all add: heap_inv_def)
  note rd = heap_repD [OF r]
  have noop: "spec_free (unat p) bs = bs" if "release HEAP_LO (unat p) bs = bs"
    using that adj by (simp add: spec_free_def coalesce_id)
  show ?thesis
    using find_block_rep [OF r assms(2)]
  proof (elim disjE conjE exE)
    assume "find_block p s = Some None" "release HEAP_LO (unat p) bs = bs"
    then show ?thesis using inv noop by (simp add: kfree_def same_but_heap_refl)
  next
    fix xs n fr ys
    assume bs: "bs = xs @ (n, fr) # ys"
      and fb: "find_block p s = Some (Some (adr (HEAP_LO + span xs)))"
      and rel: "release HEAP_LO (unat p) bs = xs @ (n, True) # ys"
    have blk: "blk_is_free (mem s) (adr (HEAP_LO + span xs)) = (if fr then 1 else 0)"
        "blk_size (mem s) (adr (HEAP_LO + span xs)) = adr n"
      using seg_block [of "mem s" HEAP_LO 0 xs n fr ys 0] rd(3) bs by simp_all
    show ?thesis
    proof (cases fr)
      case True
      then have "kfree p s = Some s" using fb blk assms(2) by (simp add: kfree_def)
      then show ?thesis using inv noop rel bs True by (simp add: same_but_heap_refl)
    next
      case False
      have "kfree p s = compact_free_blocks (count_free (adr n)
          (s\<lparr>mem := set_blk_is_free (adr (HEAP_LO + span xs)) 1 (mem s)\<rparr>))"
        using fb blk assms(2) rd(1) False by (simp add: kfree_def Let_def)
      then show ?thesis
        using kfree_used_block [of s xs n ys] inv bs rel False by (auto simp: spec_free_def)
    qed
  qed
qed

section \<open>The abstraction function\<close>

text \<open>
  The list of blocks can be read off the memory: follow \<open>next\<close> from the head. Every block takes
  at least 20 bytes, so the managed memory has room for at most 786432 of them; that bound is the
  fuel of the walk.
\<close>

fun read_blocks :: "nat \<Rightarrow> bytes \<Rightarrow> u32 \<Rightarrow> block list" where
  "read_blocks 0 m p = []"
| "read_blocks (Suc fuel) m p =
     (if p = 0 then []
      else (unat (blk_size m p), blk_is_free m p \<noteq> 0) # read_blocks fuel m (blk_next m p))"

definition heap_blocks :: "'a memory_scheme \<Rightarrow> block list" where
  "heap_blocks s = read_blocks 786432 (mem s) (free_list (manager s))"

lemma read_blocks_seg:
  "seg m a pv bs 0 \<Longrightarrow> length bs \<le> fuel \<Longrightarrow> 0 < a \<Longrightarrow> a + span bs \<le> 4294967295 \<Longrightarrow>
   read_blocks fuel m (hd_ptr a bs 0) = bs"
proof (induction bs arbitrary: a pv fuel)
  case Nil
  then show ?case by (cases fuel) simp_all
next
  case (Cons b bs)
  obtain n fr where b: "b = (n, fr)" by (cases b)
  obtain f where f: "fuel = Suc f" using Cons.prems by (cases fuel) auto
  have "read_blocks f m (hd_ptr (a + 20 + n) bs 0) = bs"
    using Cons.prems by (intro Cons.IH [of _ "adr a"]) (simp_all add: b f)
  then show ?case using Cons.prems by (auto simp: b f hdr_def adr_eq_0 unat_adr)
qed

lemma span_length: "20 * length bs \<le> span bs"
  by (induction bs) (simp_all add: span_Cons)

lemma heap_blocks_rep: "heap_rep s bs \<Longrightarrow> heap_blocks s = bs"
proof -
  assume "heap_rep s bs"
  note rd = heap_repD [OF this]
  have "free_list (manager s) = hd_ptr HEAP_LO bs 0" using rd(2,5) by (simp add: hd_ptr_def)
  moreover have "length bs \<le> 786432" using span_length [of bs] rd(4) by simp
  ultimately show ?thesis
    unfolding heap_blocks_def using read_blocks_seg [OF rd(3) _ _ rd(6)] by simp
qed

definition heap_ok :: "'a memory_scheme \<Rightarrow> bool" where
  "heap_ok s \<longleftrightarrow> heap_inv s (heap_blocks s)"

lemma heap_ok_iff: "heap_ok s \<and> heap_blocks s = bs \<longleftrightarrow> heap_inv s bs"
  using heap_blocks_rep [of s bs] by (auto simp: heap_ok_def heap_inv_def)

lemma heap_okI: "heap_inv s bs \<Longrightarrow> heap_ok s" "heap_inv s bs \<Longrightarrow> heap_blocks s = bs"
  using heap_ok_iff by blast+

definition live :: "'a memory_scheme \<Rightarrow> (nat \<times> nat) set" where
  "live s = regions HEAP_LO (heap_blocks s)"

lemma heap_ok_cong:
  assumes "mem t = mem s" "manager t = manager s" "mstats t = mstats s"
    "memory_initialized t = memory_initialized s"
  shows "heap_blocks t = heap_blocks s" "heap_ok t = heap_ok s" "live t = live s"
  using assms by (simp_all add: heap_blocks_def heap_ok_def live_def heap_inv_def heap_rep_def stats_rep_def)

section \<open>Initialisation\<close>

lemma init_heap_inv: "heap_inv (init_memory_manager s) [(HEAP_LEN - 20, True)]"
proof -
  have "adr HEAP_LO = MEMORY_START" "adr (HEAP_LO + 20) = MEMORY_START + BLOCK_SIZE"
    "adr HEAP_LEN = MEMORY_END - MEMORY_START"
    "adr (HEAP_LEN - 20) = MEMORY_END - MEMORY_START - BLOCK_SIZE"
    by (simp_all add: adr_def MEMORY_START_def MEMORY_END_def BLOCK_SIZE_def)
  then show ?thesis
    by (simp add: init_memory_manager_def Let_def heap_inv_def heap_rep_def stats_rep_def hdr_def)
qed

section \<open>Regions handed out\<close>

lemma regions_spec_alloc:
  assumes "first_fit k bs = Some (xs, l, ys)"
  shows "regions HEAP_LO (xs @ split_block k l @ ys)
    = insert (HEAP_LO + span xs + 20, granted k l) (regions HEAP_LO bs)"
  using first_fit_SomeD [OF assms] by (auto simp: split_block_def granted_def add.assoc)

lemma regions_release: "regions a (release a p bs) = {r \<in> regions a bs. fst r \<noteq> p}"
proof (induction a p bs rule: release.induct)
  case (2 a p n fr bs)
  have "fst r \<noteq> p" if "r \<in> regions (a + 20 + n) bs" "a + 20 = p" for r
    using that by (cases r) (auto dest!: regions_bounds)
  then show ?case using 2 by auto
qed simp

lemma regions_spec_free:
  "regions HEAP_LO (spec_free p bs) = {r \<in> regions HEAP_LO bs. fst r \<noteq> p}"
  by (simp add: spec_free_def regions_release)

text \<open>The region a successful allocation adds does not touch the others, not even their headers.\<close>

lemma spec_alloc_disjoint:
  assumes "first_fit k bs = Some (xs, l, ys)" "(q, n) \<in> regions HEAP_LO bs"
  shows "q + n + 20 \<le> HEAP_LO + span xs + 20 \<or> HEAP_LO + span xs + 20 + granted k l + 20 \<le> q"
  using assms first_fit_SomeD [OF assms(1)] granted_ge [of k l]
  by (auto dest!: regions_bounds)

section \<open>The allocator interface\<close>

text \<open>
  What a client may rely on: the regions handed out never overlap, an allocation that returns a
  non-null pointer adds a region of at least the requested size (for requests up to a limit)
  and changes no other, a release removes exactly its region, and both
  operations always return.
\<close>

datatype request = Alloc u32 | Free u32

fun run_requests ::
  "(u32 \<Rightarrow> 's \<Rightarrow> (u32 \<times> 's) option) \<Rightarrow> (u32 \<Rightarrow> 's \<Rightarrow> 's option) \<Rightarrow> request list \<Rightarrow> 's \<Rightarrow> 's option" where
  "run_requests alloc free [] s = Some s"
| "run_requests alloc free (Alloc n # rs) s =
     (case alloc n s of None \<Rightarrow> None | Some (p, t) \<Rightarrow> run_requests alloc free rs t)"
| "run_requests alloc free (Free p # rs) s =
     (case free p s of None \<Rightarrow> None | Some t \<Rightarrow> run_requests alloc free rs t)"

locale allocator =
  fixes ok :: "'s \<Rightarrow> bool" and regs :: "'s \<Rightarrow> (nat \<times> nat) set"
    and alloc :: "u32 \<Rightarrow> 's \<Rightarrow> (u32 \<times> 's) option" and free :: "u32 \<Rightarrow> 's \<Rightarrow> 's option"
    and limit :: u32
  assumes regs_disjoint: "\<And>s p n q k. ok s \<Longrightarrow> (p, n) \<in> regs s \<Longrightarrow> (q, k) \<in> regs s \<Longrightarrow>
      (p, n) = (q, k) \<or> p + n \<le> q \<or> q + k \<le> p"
    and alloc_ok: "\<And>s n. ok s \<Longrightarrow> \<exists>p t. alloc n s = Some (p, t) \<and> ok t"
    and alloc_null: "\<And>s n t. ok s \<Longrightarrow> alloc n s = Some (0, t) \<Longrightarrow> regs t = regs s"
    and alloc_regs: "\<And>s n p t. ok s \<Longrightarrow> alloc n s = Some (p, t) \<Longrightarrow> p \<noteq> 0 \<Longrightarrow>
      \<exists>k. regs t = insert (unat p, k) (regs s) \<and> unat p \<notin> fst ` regs s
        \<and> (n \<le> limit \<longrightarrow> unat n \<le> k)"
    and free_ok: "\<And>s p. ok s \<Longrightarrow> \<exists>t. free p s = Some t \<and> ok t"
    and free_regs: "\<And>s p t. ok s \<Longrightarrow> free p s = Some t \<Longrightarrow> regs t = {r \<in> regs s. fst r \<noteq> unat p}"
begin

lemma run_ok: "ok s \<Longrightarrow> \<exists>t. run_requests alloc free rs s = Some t \<and> ok t"
proof (induction rs arbitrary: s)
  case (Cons r rs)
  show ?case
  proof (cases r)
    case (Alloc n)
    obtain p t where "alloc n s = Some (p, t)" "ok t" using alloc_ok [OF Cons.prems] by blast
    then show ?thesis using Cons.IH Alloc by simp
  next
    case (Free p)
    obtain t where "free p s = Some t" "ok t" using free_ok [OF Cons.prems] by blast
    then show ?thesis using Cons.IH Free by simp
  qed
qed simp

lemma run_disjoint:
  assumes "ok s" "run_requests alloc free rs s = Some t" "(p, n) \<in> regs t" "(q, k) \<in> regs t"
  shows "(p, n) = (q, k) \<or> p + n \<le> q \<or> q + k \<le> p"
  using run_ok [OF assms(1), of rs] assms(2-) regs_disjoint by auto

lemma alloc_then_free:
  assumes "ok s" "alloc n s = Some (p, t)" "p \<noteq> 0"
  shows "\<exists>u. free p t = Some u \<and> ok u \<and> regs u = regs s"
proof -
  have "ok t" using alloc_ok [OF assms(1), of n] assms(2) by auto
  then obtain u where u: "free p t = Some u" "ok u" using free_ok by blast
  then have "regs u = {r \<in> regs t. fst r \<noteq> unat p}" using free_regs \<open>ok t\<close> by blast
  then have "regs u = regs s" using alloc_regs [OF assms] by (auto simp: image_iff)
  then show ?thesis using u by blast
qed

end

text \<open>The two ways \<open>kmalloc\<close> ends on a heap that satisfies the invariant.\<close>

lemma kmalloc_cases:
  assumes "heap_ok s"
  obtains (null) "kmalloc n s = Some (0, s)" "n = 0 \<or> first_fit (unat (align_address n 4)) (heap_blocks s) = None"
  | (granted) xs l ys t where "n \<noteq> 0"
      "first_fit (unat (align_address n 4)) (heap_blocks s) = Some (xs, l, ys)"
      "kmalloc n s = Some (adr (HEAP_LO + span xs + 20), t)"
      "heap_ok t" "heap_blocks t = xs @ split_block (unat (align_address n 4)) l @ ys"
      "same_but_heap s t" "\<forall>i \<in> used_bytes HEAP_LO (heap_blocks s). mem t (adr i) = mem s (adr i)"
proof -
  let ?k = "unat (align_address n 4)" and ?bs = "heap_blocks s"
  have inv: "heap_inv s ?bs" using assms by (simp add: heap_ok_def)
  then have r: "heap_rep s ?bs" by (simp add: heap_inv_def)
  show thesis
  proof (cases "n = 0")
    case True
    then show thesis by (intro null) (simp_all add: kmalloc_def)
  next
    case False
    show thesis
    proof (cases "first_fit ?k ?bs")
      case None
      then show thesis using kmalloc_eq [OF r False refl] by (intro null) simp_all
    next
      case (Some u)
      obtain xs l ys where u: "u = (xs, l, ys)" by (cases u)
      then have "spec_alloc ?k ?bs = (HEAP_LO + span xs + 20, xs @ split_block ?k l @ ys)"
        using Some by (simp add: spec_alloc_def)
      then show thesis using kmalloc_refines [OF inv False] Some u False heap_okI
        by (metis granted)
    qed
  qed
qed

lemma kfree_ok:
  assumes "heap_ok s"
  shows "\<exists>t. kfree p s = Some t \<and> heap_ok t \<and> same_but_heap s t
    \<and> heap_blocks t = (if p = 0 then heap_blocks s else spec_free (unat p) (heap_blocks s))
    \<and> (\<forall>i < 4294967296. i \<notin> hdrs HEAP_LO (heap_blocks s) \<longrightarrow> mem t (adr i) = mem s (adr i))"
proof (cases "p = 0")
  case True
  then show ?thesis using assms by (simp add: kfree_def same_but_heap_refl)
next
  case False
  then show ?thesis using kfree_refines [OF assms [unfolded heap_ok_def] False] heap_okI by auto
qed

lemma heap_ok_repD: "heap_ok s \<Longrightarrow> heap_rep s (heap_blocks s)"
  by (simp add: heap_ok_def heap_inv_def)

lemma first_fit_bound:
  assumes "heap_ok s" "first_fit k (heap_blocks s) = Some (xs, l, ys)"
  shows "HEAP_LO + span xs + 20 + granted k l \<le> HEAP_LO + HEAP_LEN"
    and "unat (adr (HEAP_LO + span xs + 20)) = HEAP_LO + span xs + 20"
    and "adr (HEAP_LO + span xs + 20) \<noteq> 0"
    and "4 dvd k \<Longrightarrow> 4 dvd granted k l"
proof -
  note bs = first_fit_SomeD [OF assms(2)]
  note rd = heap_repD [OF heap_ok_repD [OF assms(1)]]
  have "span xs + 20 + l + span ys = HEAP_LEN" using rd(4) bs by simp
  then show "HEAP_LO + span xs + 20 + granted k l \<le> HEAP_LO + HEAP_LEN"
    and "unat (adr (HEAP_LO + span xs + 20)) = HEAP_LO + span xs + 20"
    and "adr (HEAP_LO + span xs + 20) \<noteq> 0"
    using granted_ge [of k l] bs by (auto intro!: unat_adr simp: adr_eq_0)
  have "4 dvd l" using rd(7) bs by auto
  then show "4 dvd k \<Longrightarrow> 4 dvd granted k l" by (simp add: granted_def)
qed

interpretation kernel_heap: allocator heap_ok live kmalloc kfree "0xFFFFFFFC"
proof
  fix s :: "'a memory_scheme" and p n q k :: nat
  assume "heap_ok s" "(p, n) \<in> live s" "(q, k) \<in> live s"
  then show "(p, n) = (q, k) \<or> p + n \<le> q \<or> q + k \<le> p"
    using regions_disjoint [of p n HEAP_LO "heap_blocks s" q k] by (auto simp: live_def)
next
  fix s :: "'a memory_scheme" and n :: u32
  assume ok: "heap_ok s"
  from ok show "\<exists>p t. kmalloc n s = Some (p, t) \<and> heap_ok t"
    by (cases rule: kmalloc_cases [of s n]) (use ok in auto)
next
  fix s t :: "'a memory_scheme" and n :: u32
  assume ok: "heap_ok s" and km: "kmalloc n s = Some (0, t)"
  from ok show "live t = live s"
  proof (cases rule: kmalloc_cases [of s n])
    case (granted xs l ys u)
    then show ?thesis using km first_fit_bound(3) [OF ok granted(2)] by simp
  qed (use km in simp)
next
  fix s t :: "'a memory_scheme" and n p :: u32
  assume ok: "heap_ok s" and km: "kmalloc n s = Some (p, t)" "p \<noteq> 0"
  show "\<exists>k. live t = insert (unat p, k) (live s) \<and> unat p \<notin> fst ` live s
      \<and> (n \<le> 0xFFFFFFFC \<longrightarrow> unat n \<le> k)"
    using ok
  proof (cases rule: kmalloc_cases [of s n])
    case null
    then show ?thesis using km by simp
  next
    case (granted xs l ys u)
    let ?k = "unat (align_address n 4)"
    note fb = first_fit_bound [OF ok granted(2)]
    have p: "unat p = HEAP_LO + span xs + 20" "t = u" using km granted(3) fb(2) by auto
    have "unat n \<le> Heap.granted ?k l" if "n \<le> 0xFFFFFFFC"
      using align_4_ge(1) [OF that] granted_ge [of ?k l] first_fit_SomeD [OF granted(2)] by simp
    moreover have "unat p \<notin> fst ` live s"
      using spec_alloc_disjoint [OF granted(2)] by (fastforce simp: p live_def)
    ultimately show ?thesis
      using regions_spec_alloc [OF granted(2)] granted(5) p
      by (intro exI [of _ "Heap.granted ?k l"]) (auto simp: live_def)
  qed
next
  fix s :: "'a memory_scheme" and p :: u32
  assume "heap_ok s"
  then show "\<exists>t. kfree p s = Some t \<and> heap_ok t" using kfree_ok by blast
next
  fix s t :: "'a memory_scheme" and p :: u32
  assume "heap_ok s" "kfree p s = Some t"
  then have "heap_blocks t = (if p = 0 then heap_blocks s else spec_free (unat p) (heap_blocks s))"
    using kfree_ok [of s p] by auto
  moreover have "fst r \<noteq> 0" if "r \<in> live s" for r
    using that by (cases r) (auto simp: live_def dest!: regions_bounds)
  ultimately show "live t = {r \<in> live s. fst r \<noteq> unat p}"
    by (auto simp: live_def regions_spec_free)
qed

end
