(* ===== verification/Heap_Properties.thy ===== *)
theory Heap_Properties
  imports Allocator
begin

text \<open>
  \<open>kcalloc\<close> and \<open>krealloc\<close> on top of the verified \<open>kmalloc\<close> and \<open>kfree\<close>, and the properties of the
  heap as a whole.
\<close>

section \<open>Stores into handed-out memory\<close>

text \<open>Data written to a region never reaches a header, so the heap stays as it is.\<close>

lemma heap_data_write:
  assumes "heap_ok s" "\<And>i. i \<in> hdrs HEAP_LO (heap_blocks s) \<Longrightarrow> m (adr i) = mem s (adr i)"
  shows "heap_ok (s\<lparr>mem := m\<rparr>)" "heap_blocks (s\<lparr>mem := m\<rparr>) = heap_blocks s"
    "live (s\<lparr>mem := m\<rparr>) = live s"
proof -
  have "seg m HEAP_LO 0 (heap_blocks s) 0 = seg (mem s) HEAP_LO 0 (heap_blocks s) 0"
    using assms(2) by (rule seg_cong)
  then have "heap_inv (s\<lparr>mem := m\<rparr>) (heap_blocks s)"
    using assms(1) by (auto simp: heap_ok_def heap_inv_def heap_rep_def stats_rep_def)
  from heap_okI [OF this] show "heap_ok (s\<lparr>mem := m\<rparr>)"
    "heap_blocks (s\<lparr>mem := m\<rparr>) = heap_blocks s" "live (s\<lparr>mem := m\<rparr>) = live s"
    by (simp_all add: live_def)
qed

lemma live_bounds:
  assumes "heap_ok s" "(p, n) \<in> live s"
  shows "HEAP_LO + 20 \<le> p" "p + n \<le> HEAP_LO + HEAP_LEN"
  using regions_bounds [of p n HEAP_LO "heap_blocks s"] heap_repD(4) [OF heap_ok_repD [OF assms(1)]] assms(2)
  by (simp_all add: live_def)

lemma live_not_hdrs:
  assumes "(p, n) \<in> live s" "p \<le> i" "i < p + n"
  shows "i \<notin> hdrs HEAP_LO (heap_blocks s)" "i \<in> used_bytes HEAP_LO (heap_blocks s)"
proof -
  show "i \<in> used_bytes HEAP_LO (heap_blocks s)"
    using regions_used_bytes [of p n HEAP_LO "heap_blocks s"] assms by (auto simp: live_def)
  then show "i \<notin> hdrs HEAP_LO (heap_blocks s)" by (rule used_bytes_hdrs)
qed

lemma live_unique: "(p, n) \<in> live s \<Longrightarrow> (p, k) \<in> live s \<Longrightarrow> n = k"
  using regions_disjoint [of p n HEAP_LO "heap_blocks s" p k] by (auto simp: live_def)

section \<open>kmalloc, as its callers see it\<close>

lemma kmalloc_region:
  assumes ok: "heap_ok s" and km: "kmalloc n s = Some (p, t)" "p \<noteq> 0"
  shows "\<exists>k. heap_ok t \<and> same_but_heap s t
      \<and> (n \<le> 0xFFFFFFFC \<longrightarrow> unat n \<le> k) \<and> 4 dvd k \<and> live t = insert (unat p, k) (live s)
      \<and> HEAP_LO + 20 \<le> unat p \<and> unat p + k \<le> HEAP_LO + HEAP_LEN
      \<and> (\<forall>q l. (q, l) \<in> live s \<longrightarrow> q + l + 20 \<le> unat p \<or> unat p + k + 20 \<le> q)
      \<and> (\<forall>i \<in> used_bytes HEAP_LO (heap_blocks s). mem t (adr i) = mem s (adr i))"
  using ok
proof (cases rule: kmalloc_cases [of s n])
  case null
  then show ?thesis using km by simp
next
  case (granted xs l ys u)
  let ?k = "unat (align_address n 4)"
  note fb = first_fit_bound [OF ok granted(2)]
  have p: "unat p = HEAP_LO + span xs + 20" and t: "t = u" using km granted(3) fb(2) by auto
  have "live t = insert (unat p, Heap.granted ?k l) (live s)"
    using regions_spec_alloc [OF granted(2)] granted(5) p t by (simp add: live_def)
  moreover have "unat n \<le> Heap.granted ?k l" if "n \<le> 0xFFFFFFFC"
    using align_4_ge(1) [OF that] granted_ge [of ?k l] first_fit_SomeD [OF granted(2)] by simp
  moreover have "q + j + 20 \<le> unat p \<or> unat p + Heap.granted ?k l + 20 \<le> q" if "(q, j) \<in> live s" for q j
    using spec_alloc_disjoint [OF granted(2)] that by (simp add: p live_def)
  ultimately show ?thesis using fb(1) fb(4) [OF align_4_dvd] p t granted(4,6,7)
    by (intro exI [of _ "Heap.granted ?k l"]) auto
qed

text \<open>Some free block is large enough for a request, after the alignment; \<open>kmalloc\<close> fails exactly when none is.\<close>

definition fits :: "u32 \<Rightarrow> 'a memory_scheme \<Rightarrow> bool" where
  "fits n s \<longleftrightarrow> list_ex (\<lambda>(m, fr). fr \<and> unat (align_address n 4) \<le> m) (heap_blocks s)"

lemma fits_first_fit: "fits n s \<longleftrightarrow> first_fit (unat (align_address n 4)) (heap_blocks s) \<noteq> None"
  unfolding first_fit_None fits_def list_ex_iff by (simp add: split_beta not_less)

lemma kmalloc_null:
  assumes "heap_ok s" "n = 0 \<or> \<not> fits n s"
  shows "kmalloc n s = Some (0, s)"
  using assms(1) by (cases rule: kmalloc_cases [of s n]) (use assms(2) in \<open>auto simp: fits_first_fit\<close>)

lemma kmalloc_fits:
  assumes "heap_ok s" "n \<noteq> 0" "fits n s"
  obtains p t where "kmalloc n s = Some (p, t)" "p \<noteq> 0"
  using assms(1)
proof (cases rule: kmalloc_cases [of s n])
  case null
  then show ?thesis using assms(2,3) by (simp add: fits_first_fit)
next
  case (granted xs l ys t)
  then show ?thesis using that first_fit_bound(3) [OF assms(1) granted(2)] by blast
qed

section \<open>Taking a block and giving it back\<close>

lemma coalesce_merge:
  "coalesce (xs @ (k, True) # (j, True) # ys) = coalesce (xs @ (k + (j + 20), True) # ys)"
proof (induction xs rule: coalesce.induct)
  case (2 b)
  then show ?case by (cases b) (simp add: add_ac)
qed simp_all

lemma spec_free_alloc:
  assumes "first_fit k bs = Some (xs, l, ys)" "no_adjacent_free bs"
  shows "spec_free (HEAP_LO + span xs + 20) (xs @ split_block k l @ ys) = bs"
proof -
  have bs: "bs = xs @ (l, True) # ys" "k \<le> l" using first_fit_SomeD [OF assms(1)] by auto
  have "HEAP_LO + span us + 20 \<noteq> HEAP_LO + span xs + 20" if "xs = us @ (n, g) # vs" for us n g vs
    using that by simp
  then have "release HEAP_LO (HEAP_LO + span xs + 20) (xs @ split_block k l @ ys)
      = xs @ release (HEAP_LO + span xs) (HEAP_LO + span xs + 20) (split_block k l @ ys)"
    by (intro release_append) blast
  also have "coalesce \<dots> = coalesce bs"
    using coalesce_merge [of xs k "l - k - 20" ys] by (simp add: split_block_def bs)
  finally show ?thesis using assms(2) by (simp add: spec_free_def coalesce_id)
qed

section \<open>Accounting\<close>

lemma regions_finite [simp]: "finite (regions a bs)"
  by (induction a bs rule: regions.induct) simp_all

lemma regions_size: "(\<Sum>r \<in> regions a bs. snd r) = used_size bs"
proof (induction a bs rule: regions.induct)
  case (2 a n fr bs)
  have "(a + 20, n) \<notin> regions (a + 20 + n) bs" using regions_bounds [of "a + 20" n "a + 20 + n" bs] by auto
  then show ?case using 2 by simp
qed simp

text \<open>What the two operations do to the counters of calls.\<close>

lemma kmalloc_counts:
  assumes "heap_ok s" "kmalloc n s = Some (p, t)"
  shows "total_frees (mstats t) = total_frees (mstats s)"
    "total_allocations (mstats t) = total_allocations (mstats s) + (if p = 0 then 0 else 1)"
proof -
  have "t = s \<or> total_frees (mstats t) = total_frees (mstats s) \<and> total_allocations (mstats t) = total_allocations (mstats s) + 1"
    using assms(2) by (auto simp: kmalloc_def count_alloc_def Let_def split: if_splits option.splits)
  moreover have "p = 0 \<longleftrightarrow> t = s"
    using assms(1)
  proof (cases rule: kmalloc_cases [of s n])
    case null
    then show ?thesis using assms(2) by simp
  next
    case (granted xs l ys u)
    have "p \<noteq> 0" using granted(3) assms(2) first_fit_bound(3) [OF assms(1) granted(2)] by simp
    then obtain k where "live t = insert (unat p, k) (live s)" "unat p \<notin> fst ` live s"
      using kernel_heap.alloc_regs [OF assms] by blast
    then have "(unat p, k) \<in> live t" "(unat p, k) \<notin> live s" by (force simp: image_iff)+
    then have "t \<noteq> s" by blast
    with \<open>p \<noteq> 0\<close> show ?thesis by simp
  qed
  ultimately show "total_frees (mstats t) = total_frees (mstats s)"
    "total_allocations (mstats t) = total_allocations (mstats s) + (if p = 0 then 0 else 1)" by auto
qed

lemma kfree_counts:
  assumes "heap_ok s" "kfree p s = Some t"
  shows "total_allocations (mstats t) = total_allocations (mstats s)"
    "total_frees (mstats t) = total_frees (mstats s) + (if unat p \<in> fst ` live s then 1 else 0)"
proof -
  let ?bs = "heap_blocks s"
  note r = heap_ok_repD [OF assms(1)]
  have "p = 0 \<or> p \<noteq> 0" by blast
  then have "t = s \<and> unat p \<notin> fst ` live s \<or> unat p \<in> fst ` live s
      \<and> total_allocations (mstats t) = total_allocations (mstats s) \<and> total_frees (mstats t) = total_frees (mstats s) + 1"
  proof (elim disjE)
    assume "p = 0"
    then show ?thesis using assms(2) live_bounds(1) [OF assms(1)] by (force simp: kfree_def)
  next
    assume p: "p \<noteq> 0"
    have none: "unat p \<notin> fst ` live s" if "release HEAP_LO (unat p) ?bs = ?bs"
    proof -
      have "live s = {r \<in> live s. fst r \<noteq> unat p}" using regions_release [of HEAP_LO "unat p" ?bs] that by (simp add: live_def)
      then have "\<forall>r \<in> live s. fst r \<noteq> unat p" by blast
      then show ?thesis by force
    qed
    from find_block_rep [OF r p] show ?thesis
    proof (elim disjE conjE exE)
      assume "find_block p s = Some None" "release HEAP_LO (unat p) ?bs = ?bs"
      then show ?thesis using assms(2) p none by (simp add: kfree_def split: if_splits)
    next
      fix xs n fr ys
      assume bs: "?bs = xs @ (n, fr) # ys" "unat p = HEAP_LO + span xs + 20"
        and fb: "find_block p s = Some (Some (adr (HEAP_LO + span xs)))"
        and rel: "release HEAP_LO (unat p) ?bs = xs @ (n, True) # ys"
      have fl: "blk_is_free (mem s) (adr (HEAP_LO + span xs)) = (if fr then 1 else 0)"
        using seg_block [of "mem s" HEAP_LO 0 xs n fr ys 0] heap_repD(3) [OF r] bs(1) by simp
      show ?thesis
      proof (cases fr)
        case True
        then show ?thesis using assms(2) p fb fl none rel bs(1) by (simp add: kfree_def split: if_splits)
      next
        case False
        then have "(unat p, n) \<in> live s" using bs by (simp add: live_def)
        then have "unat p \<in> fst ` live s" by (force simp: image_iff)
        then show ?thesis using assms(2) p fb fl False heap_repD(1) [OF r]
          by (auto simp: kfree_def compact_free_blocks_def count_free_def Let_def split: if_splits)
      qed
    qed
  qed
  then show "total_allocations (mstats t) = total_allocations (mstats s)"
    "total_frees (mstats t) = total_frees (mstats s) + (if unat p \<in> fst ` live s then 1 else 0)" by auto
qed

text \<open>As many regions are in use as allocations have not been matched by a release.\<close>

definition calls_counted :: "'a memory_scheme \<Rightarrow> bool" where
  "calls_counted s \<longleftrightarrow> total_allocations (mstats s) = total_frees (mstats s) + of_nat (card (live s))"

lemma live_finite [simp]: "finite (live s)"
  by (simp add: live_def)

lemma calls_counted_kmalloc:
  assumes "heap_ok s" "calls_counted s" "kmalloc n s = Some (p, t)"
  shows "calls_counted t"
proof (cases "p = 0")
  case True
  then have "live t = live s" using kernel_heap.alloc_null [OF assms(1)] assms(3) by blast
  then show ?thesis using assms(2) kmalloc_counts [OF assms(1,3)] True by (simp add: calls_counted_def)
next
  case False
  then obtain k where "live t = insert (unat p, k) (live s)" "unat p \<notin> fst ` live s"
    using kernel_heap.alloc_regs [OF assms(1,3)] by blast
  then have "card (live t) = Suc (card (live s))" by (subst card_insert_disjoint [symmetric]) (auto simp: image_iff)
  then show ?thesis using assms(2) kmalloc_counts [OF assms(1,3)] False by (simp add: calls_counted_def)
qed

lemma calls_counted_kfree:
  assumes "heap_ok s" "calls_counted s" "kfree p s = Some t"
  shows "calls_counted t"
proof -
  have lt: "live t = {r \<in> live s. fst r \<noteq> unat p}" by (rule kernel_heap.free_regs [OF assms(1,3)])
  show ?thesis
  proof (cases "unat p \<in> fst ` live s")
    case True
    then obtain n where n: "(unat p, n) \<in> live s" by auto
    have "r = (unat p, n)" if "r \<in> live s" "fst r = unat p" for r using live_unique [OF n, of "snd r"] that by (cases r) simp
    then have "live s = insert (unat p, n) (live t)" using n lt by blast
    moreover have "(unat p, n) \<notin> live t" using lt by simp
    ultimately have "card (live s) = Suc (card (live t))" using card_insert_disjoint [of "live t" "(unat p, n)"] by simp
    then show ?thesis using assms(2) kfree_counts [OF assms(1,3)] True by (simp add: calls_counted_def)
  next
    case False
    then have "live t = live s" using lt by (force simp: image_iff)
    then show ?thesis using assms(2) kfree_counts [OF assms(1,3)] False by (simp add: calls_counted_def)
  qed
qed

lemma run_calls_counted:
  "heap_ok s \<Longrightarrow> calls_counted s \<Longrightarrow> run_requests kmalloc kfree rs s = Some t \<Longrightarrow> heap_ok t \<and> calls_counted t"
proof (induction rs arbitrary: s)
  case (Cons r rs)
  show ?case
  proof (cases r)
    case (Alloc n)
    obtain p u where "kmalloc n s = Some (p, u)" "heap_ok u" using kernel_heap.alloc_ok [OF Cons.prems(1)] by blast
    then show ?thesis using Cons Alloc calls_counted_kmalloc [OF Cons.prems(1,2)] by simp
  next
    case (Free p)
    obtain u where "kfree p s = Some u" "heap_ok u" using kernel_heap.free_ok [OF Cons.prems(1)] by blast
    then show ?thesis using Cons Free calls_counted_kfree [OF Cons.prems(1,2)] by simp
  qed
qed simp

lemma init_calls_counted: "heap_ok (init_memory_manager s)" "calls_counted (init_memory_manager s)"
  using heap_okI [OF init_heap_inv, of s] by (simp_all add: calls_counted_def live_def) (simp add: init_memory_manager_def Let_def)

lemma regions_empty: "regions a bs = {} \<Longrightarrow> n \<in> set bs \<Longrightarrow> snd n"
  by (induction a bs rule: regions.induct) (auto split: if_splits)

lemma all_free_single:
  assumes "no_adjacent_free bs" "\<forall>b \<in> set bs. snd b" "bs \<noteq> []"
  shows "\<exists>n. bs = [(n, True)]"
  using assms by (cases bs rule: no_adjacent_free.cases) auto

section \<open>kcalloc and krealloc\<close>

lemma find_block_live:
  assumes ok: "heap_ok s" and lv: "(unat p, l) \<in> live s"
  shows "\<exists>b. find_block p s = Some (Some b) \<and> blk_size (mem s) b = adr l"
proof -
  let ?bs = "heap_blocks s"
  note r = heap_ok_repD [OF ok]
  have "(unat p, l) \<notin> regions HEAP_LO (release HEAP_LO (unat p) ?bs)" "(unat p, l) \<in> regions HEAP_LO ?bs"
    using lv by (auto simp: regions_release live_def)
  then have rel: "release HEAP_LO (unat p) ?bs \<noteq> ?bs" by metis
  have "p \<noteq> 0" using live_bounds(1) [OF ok lv] by auto
  from find_block_rep [OF r this] rel obtain xs n fr ys where
    b: "?bs = xs @ (n, fr) # ys" "unat p = HEAP_LO + span xs + 20" "\<not> fr"
      "find_block p s = Some (Some (adr (HEAP_LO + span xs)))" by (metis (full_types))
  then have "(unat p, n) \<in> live s" by (simp add: live_def)
  then have "n = l" using lv live_unique by blast
  moreover have "blk_size (mem s) (adr (HEAP_LO + span xs)) = adr n"
    using seg_block(2) heap_repD(3) [OF r] b(1) by metis
  ultimately show ?thesis using b(4) by blast
qed

lemma live_addr:
  assumes "heap_ok s" "(q, l) \<in> live s" "i < l"
  shows "q + i < 4294967296" "q + i \<notin> hdrs HEAP_LO (heap_blocks s)"
    "q + i \<in> used_bytes HEAP_LO (heap_blocks s)"
  using live_bounds [OF assms(1,2)] live_not_hdrs [OF assms(2), of "q + i"] assms(3) by simp_all

text \<open>Bytes written only inside one region leave the heap and every other region alone.\<close>

lemma region_write:
  assumes ok: "heap_ok t" and p: "(p, k) \<in> live t"
    and out: "\<And>i. i < 4294967296 \<Longrightarrow> \<not> (p \<le> i \<and> i < p + k) \<Longrightarrow> m (adr i) = mem t (adr i)"
  shows "heap_ok (t\<lparr>mem := m\<rparr>)" "live (t\<lparr>mem := m\<rparr>) = live t"
    "heap_blocks (t\<lparr>mem := m\<rparr>) = heap_blocks t"
    "(q, l) \<in> live t \<Longrightarrow> q \<noteq> p \<Longrightarrow> i < l \<Longrightarrow> m (adr (q + i)) = mem t (adr (q + i))"
proof -
  have "m (adr i) = mem t (adr i)" if "i \<in> hdrs HEAP_LO (heap_blocks t)" for i
  proof (rule out)
    show "i < 4294967296" using hdrs_bounds [OF that] heap_repD(6) [OF heap_ok_repD [OF ok]] by simp
    show "\<not> (p \<le> i \<and> i < p + k)" using live_not_hdrs(1) [OF p] that by blast
  qed
  from heap_data_write [OF ok this] show "heap_ok (t\<lparr>mem := m\<rparr>)" "live (t\<lparr>mem := m\<rparr>) = live t"
    "heap_blocks (t\<lparr>mem := m\<rparr>) = heap_blocks t" by simp_all
  assume q: "(q, l) \<in> live t" "q \<noteq> p" "i < l"
  have "\<not> (p \<le> q + i \<and> q + i < p + k)"
    using kernel_heap.regs_disjoint [OF ok q(1) p] q(2,3) by auto
  then show "m (adr (q + i)) = mem t (adr (q + i))" using out live_addr(1) [OF ok q(1,3)] by blast
qed

lemma kcalloc_region:
  assumes ok: "heap_ok s" and n: "unat cnt * unat n \<le> 0xFFFFFFFC"
    and kc: "kcalloc cnt n s = Some (p, t)" "p \<noteq> 0"
  shows "\<exists>k. heap_ok t \<and> unat cnt * unat n \<le> k \<and> live t = insert (unat p, k) (live s)
      \<and> (\<forall>q l. (q, l) \<in> live s \<longrightarrow> q + l + 20 \<le> unat p \<or> unat p + k + 20 \<le> q)
      \<and> (\<forall>i < unat cnt * unat n. mem t (adr (unat p + i)) = 0)
      \<and> (\<forall>q l i. (q, l) \<in> live s \<longrightarrow> i < l \<longrightarrow> mem t (adr (q + i)) = mem s (adr (q + i)))"
proof -
  let ?n = "unat cnt * unat n"
  have tot: "unat (cnt * n) = ?n" using n by (simp add: unat_word_ariths)
  obtain u where km: "kmalloc (cnt * n) s = Some (p, u)"
    and t: "t = u\<lparr>mem := memset p 0 (cnt * n) (mem u)\<rparr>"
    using kc by (auto simp: kcalloc_def Let_def split: option.splits if_splits)
  have "cnt * n \<le> 0xFFFFFFFC" using n tot by (simp add: word_le_nat_alt)
  with kmalloc_region [OF ok km kc(2)] obtain k where k: "heap_ok u" "?n \<le> k"
    "live u = insert (unat p, k) (live s)" "unat p + k \<le> HEAP_LO + HEAP_LEN"
    "\<forall>q l. (q, l) \<in> live s \<longrightarrow> q + l + 20 \<le> unat p \<or> unat p + k + 20 \<le> q"
    "\<forall>i \<in> used_bytes HEAP_LO (heap_blocks s). mem u (adr i) = mem s (adr i)"
    unfolding tot by blast
  have set: "mem t (adr i) = (if unat p \<le> i \<and> i < unat p + ?n then 0 else mem u (adr i))"
    if "i < 4294967296" for i
    using memset_loop_at [of "unat p" ?n i 0 "mem u"] that k(2,4) t by (simp add: memset_def tot)
  have p: "(unat p, k) \<in> live u" using k(3) by simp
  have out: "mem t (adr i) = mem u (adr i)" if "i < 4294967296" "\<not> (unat p \<le> i \<and> i < unat p + k)" for i
    using set that k(2) by auto
  note reg = region_write(1,2,4) [where m = "mem t", OF k(1) p out]
  have "mem t (adr (q + i)) = mem s (adr (q + i))" if "(q, l) \<in> live s" "i < l" for q l i
  proof -
    have "q \<noteq> unat p" using k(5) that by fastforce
    then show ?thesis using reg(3) [of q l i] k(3,6) that live_addr(3) [OF ok that] by auto
  qed
  moreover have "mem t (adr (unat p + i)) = 0" if "i < ?n" for i
    using set [of "unat p + i"] that k(2,4) by simp
  ultimately show ?thesis using reg(1,2) k t by (intro exI [of _ k]) simp
qed

lemma krealloc_moves:
  assumes ok: "heap_ok s" and p: "(unat p, l) \<in> live s" "0 < l" and n: "n \<noteq> 0" "n \<le> 0xFFFFFFFC"
    and km: "kmalloc n s = Some (q, u)" "q \<noteq> 0"
  shows "\<exists>t k. krealloc p n s = Some (q, t) \<and> heap_ok t \<and> unat n \<le> k
    \<and> live t = insert (unat q, k) {r \<in> live s. fst r \<noteq> unat p}
    \<and> (\<forall>i < min l (unat n). mem t (adr (unat q + i)) = mem s (adr (unat p + i)))
    \<and> (\<forall>r j i. (r, j) \<in> live s \<longrightarrow> r \<noteq> unat p \<longrightarrow> i < j \<longrightarrow> mem t (adr (r + i)) = mem s (adr (r + i)))"
proof -
  let ?c = "min l (unat n)"
  obtain k where k: "heap_ok u" "unat n \<le> k" "live u = insert (unat q, k) (live s)"
    "unat q + k \<le> HEAP_LO + HEAP_LEN"
    "\<forall>r j. (r, j) \<in> live s \<longrightarrow> r + j + 20 \<le> unat q \<or> unat q + k + 20 \<le> r"
    "\<forall>i \<in> used_bytes HEAP_LO (heap_blocks s). mem u (adr i) = mem s (adr i)"
    using kmalloc_region [OF ok km] n(2) by blast
  have lb: "unat p + l \<le> HEAP_LO + HEAP_LEN" "p \<noteq> 0" using live_bounds [OF ok p(1)] by auto
  have pq: "unat p + l + 20 \<le> unat q \<or> unat q + k + 20 \<le> unat p" using k(5) p(1) by blast
  define m where "m = memcpy_loop (adr (unat q)) (adr (unat p)) ?c (mem u)"
  have cp: "m (adr i) = (if unat q \<le> i \<and> i < unat q + ?c then mem u (adr (unat p + (i - unat q))) else mem u (adr i))"
    if "i < 4294967296" for i
    unfolding m_def using that k(2,4) lb(1) pq by (intro memcpy_loop_at) auto
  have qu: "(unat q, k) \<in> live u" using k(3) by simp
  have out: "m (adr i) = mem u (adr i)" if "i < 4294967296" "\<not> (unat q \<le> i \<and> i < unat q + k)" for i
    using cp that k(2) by auto
  note w = region_write [where m = m, OF k(1) qu out]
  obtain t where t: "kfree p (u\<lparr>mem := m\<rparr>) = Some t" "heap_ok t"
    "\<forall>i < 4294967296. i \<notin> hdrs HEAP_LO (heap_blocks u) \<longrightarrow> mem t (adr i) = m (adr i)"
    using kfree_ok [OF w(1), of p] w(3) by auto
  have lt: "live t = {r \<in> live u. fst r \<noteq> unat p}"
    using kernel_heap.free_regs [OF w(1) t(1)] w(2) by simp
  have keep: "mem t (adr (r + i)) = m (adr (r + i))" if "(r, j) \<in> live u" "i < j" for r j i
    using t(3) live_addr [OF k(1) that] by simp
  obtain b where b: "find_block p s = Some (Some b)" "blk_size (mem s) b = adr l"
    using find_block_live [OF ok p(1)] by blast
  have c: "unat (if adr l < n then adr l else n) = ?c" "0 < adr l"
    using lb(1) p(2) by (auto simp: unat_adr word_less_nat_alt)
  have m: "memcpy q p (if adr l < n then adr l else n) (mem u) = m"
    unfolding memcpy_def c m_def by simp
  have "krealloc p n s = Some (q, t)"
    using b km n(1) lb(2) c(2) m t(1) by (simp add: krealloc_def Let_def)
  moreover have "live t = insert (unat q, k) {r \<in> live s. fst r \<noteq> unat p}"
    using lt k(3) pq by auto
  moreover have "mem t (adr (unat q + i)) = mem s (adr (unat p + i))" if "i < ?c" for i
    using keep [OF qu, of i] cp [of "unat q + i"] that k(2,4,6) live_addr(3) [OF ok p(1), of i] by simp
  moreover have "mem t (adr (r + i)) = mem s (adr (r + i))" if r: "(r, j) \<in> live s" "i < j" for r j i
  proof -
    have "r \<noteq> unat q" "(r, j) \<in> live u" using k(3,5) r by fastforce+
    then show ?thesis using keep w(4) r k(6) live_addr(3) [OF ok r] by metis
  qed
  ultimately show ?thesis using t(2) k(2) by blast
qed

lemma krealloc_refused:
  assumes ok: "heap_ok s" and p: "(unat p, l) \<in> live s" and n: "n \<noteq> 0"
    and km: "kmalloc n s = Some (0, u)"
  shows "krealloc p n s = Some (0, s)"
proof -
  have "p \<noteq> 0" using live_bounds(1) [OF ok p] by auto
  moreover have "u = s" using ok
    by (cases rule: kmalloc_cases [of s n]) (use km first_fit_bound(3) [OF ok] in auto)
  ultimately show ?thesis
    using find_block_live [OF ok p] km n by (auto simp: krealloc_def Let_def)
qed

section \<open>Properties of the heap\<close>

text \<open>The machine after initialisation of the memory manager.\<close>

definition ready_memory :: memory where
  "ready_memory = init_memory_manager power_on_memory"

lemma ready_memory_ok: "heap_ok ready_memory"
  and ready_memory_blocks: "heap_blocks ready_memory = [(HEAP_LEN - 20, True)]"
  unfolding ready_memory_def using heap_okI [OF init_heap_inv] by blast+

lemma ready_memory_live [simp]: "live ready_memory = {}"
  by (simp add: live_def ready_memory_blocks)

lemma ready_kmalloc:
  "\<exists>t. kmalloc 10 ready_memory = Some (0x100014, t) \<and> heap_ok t \<and> (0x100014, 12) \<in> live t"
proof -
  have "unat (align_address 10 4) = 12" by code_simp
  then have "spec_alloc (unat (align_address 10 4)) (heap_blocks ready_memory)
      = (0x100014, [(12, False), (HEAP_LEN - 52, True)])"
    by (simp add: spec_alloc_def split_block_def ready_memory_blocks)
  with kmalloc_refines [OF ready_memory_ok [unfolded heap_ok_def], of 10] obtain t where
    t: "kmalloc 10 ready_memory = Some (0x100014, t)" "heap_inv t [(12, False), (HEAP_LEN - 52, True)]"
    by (auto simp: adr_def)
  then show ?thesis using heap_okI [OF t(2)] by (simp add: live_def)
qed

lemma kmalloc_to:
  assumes "heap_inv s bs" "n \<noteq> 0" "unat (align_address n 4) = k" "spec_alloc k bs = (p, cs)"
  obtains t where "kmalloc n s = Some (adr p, t)" "heap_inv t cs"
  using kmalloc_refines [OF assms(1,2), of p cs] assms(3,4) by auto

text \<open>Two blocks are taken and given back again.\<close>

lemma two_blocks:
  "\<exists>t. kmalloc 10 ready_memory = Some (0x100014, t)
    \<and> (\<exists>u. kmalloc 100 t = Some (0x100034, u) \<and> heap_ok u
      \<and> heap_blocks u = [(12, False), (100, False), (HEAP_LEN - 172, True)]
      \<and> (\<exists>v. kfree 0x100014 u = Some v \<and> heap_ok v \<and> heap_blocks v = [(12, True), (100, False), (HEAP_LEN - 172, True)]
        \<and> (\<exists>w. kfree 0x100034 v = Some w \<and> heap_ok w \<and> heap_blocks w = [(HEAP_LEN - 20, True)])))"
proof -
  have al: "unat (align_address 10 4) = 12" "unat (align_address 100 4) = 100" by code_simp+
  have r: "heap_inv ready_memory [(HEAP_LEN - 20, True)]" unfolding ready_memory_def by (rule init_heap_inv)
  obtain t where t: "kmalloc 10 ready_memory = Some (adr 0x100014, t)" "heap_inv t [(12, False), (HEAP_LEN - 52, True)]"
    by (rule kmalloc_to [OF r _ al(1)]) (auto simp: spec_alloc_def split_block_def)
  obtain u where u: "kmalloc 100 t = Some (adr 0x100034, u)" "heap_inv u [(12, False), (100, False), (HEAP_LEN - 172, True)]"
    by (rule kmalloc_to [OF t(2) _ al(2)]) (auto simp: spec_alloc_def split_block_def)
  obtain v where v: "kfree 0x100014 u = Some v" "heap_ok v" "heap_blocks v = [(12, True), (100, False), (HEAP_LEN - 172, True)]"
    using kfree_ok [OF heap_okI(1) [OF u(2)], of "0x100014"] heap_okI(2) [OF u(2)] by (auto simp: spec_free_def)
  obtain w where "kfree 0x100034 v = Some w" "heap_ok w" "heap_blocks w = [(HEAP_LEN - 20, True)]"
    using kfree_ok [OF v(2), of "0x100034"] v(3) by (auto simp: spec_free_def)
  then show ?thesis using t(1) u(1) heap_okI [OF u(2)] v by (simp add: adr_def)
qed

text \<open>
  C1: \<open>kmalloc\<close> refines the first-fit specification. On a well-formed heap and for a non-zero
  request it returns, its result is the address the specification chooses (NULL when no free
  block is large enough), and the blocks in memory afterwards are the specification's.
\<close>

theorem kmalloc_implements_spec:
  assumes "heap_ok s" "n \<noteq> 0"
  shows "\<exists>t. kmalloc n s
      = Some (adr (fst (spec_alloc (unat (align_address n 4)) (heap_blocks s))), t)
    \<and> heap_ok t \<and> heap_blocks t = snd (spec_alloc (unat (align_address n 4)) (heap_blocks s))"
proof -
  let ?r = "spec_alloc (unat (align_address n 4)) (heap_blocks s)"
  have "?r = (fst ?r, snd ?r)" by simp
  from kmalloc_refines [OF assms(1) [unfolded heap_ok_def] assms(2) this] show ?thesis
    using heap_okI by blast
qed

theorem kmalloc_implements_spec_witness:
  "\<exists>t. kmalloc 10 ready_memory = Some (0x100014, t)
     \<and> heap_blocks t = [(12, False), (HEAP_LEN - 52, True)]"
proof -
  have "unat (align_address 10 4) = 12" by code_simp
  then show ?thesis using kmalloc_implements_spec [OF ready_memory_ok, of 10]
    by (auto simp: ready_memory_blocks spec_alloc_def split_block_def adr_def)
qed

text \<open>
  C2: \<open>kfree\<close> refines its specification. On a well-formed heap it always returns; a pointer that
  is the start of a block marks it free and merges all neighbouring free blocks, any other
  non-null pointer (and a second release of the same block) changes nothing, and no byte outside the headers
  is touched.
\<close>

theorem kfree_implements_spec:
  assumes "heap_ok s" "p \<noteq> 0"
  shows "\<exists>t. kfree p s = Some t \<and> heap_ok t \<and> heap_blocks t = spec_free (unat p) (heap_blocks s)
    \<and> (\<forall>i < 4294967296. i \<notin> hdrs HEAP_LO (heap_blocks s) \<longrightarrow> mem t (adr i) = mem s (adr i))"
  using kfree_ok [OF assms(1), of p] assms(2) by auto

theorem kfree_implements_spec_witness:
  "\<exists>s t. heap_blocks (s :: memory) = [(12, True), (100, False), (HEAP_LEN - 172, True)]
    \<and> kfree 0x100034 s = Some t \<and> heap_blocks t = [(HEAP_LEN - 20, True)]"
proof -
  obtain s :: memory where s: "heap_ok s" "heap_blocks s = [(12, True), (100, False), (HEAP_LEN - 172, True)]"
    using two_blocks by blast
  with kfree_implements_spec [OF s(1), of "0x100034"] show ?thesis by (auto simp: spec_free_def)
qed

text \<open>
  C21: what a caller of \<open>kmalloc\<close> gets. A non-null result is the start of a region inside the
  managed memory, a multiple of 4 bytes long, separated from every other region in use by room for
  a block header, and no byte of those regions has changed. For requests of up to \<open>0xFFFFFFFC\<close>
  bytes the region is at least as large as the request; for the three larger sizes it need not be,
  because their alignment wraps around.
\<close>

theorem kmalloc_region_usable:
  assumes "heap_ok s" "kmalloc n s = Some (p, t)" "p \<noteq> 0"
  shows "\<exists>k. heap_ok t \<and> (n \<le> 0xFFFFFFFC \<longrightarrow> unat n \<le> k) \<and> 4 dvd k \<and> live t = insert (unat p, k) (live s)
      \<and> HEAP_LO + 20 \<le> unat p \<and> unat p + k \<le> HEAP_LO + HEAP_LEN
      \<and> (\<forall>q l. (q, l) \<in> live s \<longrightarrow> q + l + 20 \<le> unat p \<or> unat p + k + 20 \<le> q)
      \<and> (\<forall>q l i. (q, l) \<in> live s \<longrightarrow> i < l \<longrightarrow> mem t (adr (q + i)) = mem s (adr (q + i)))"
  using kmalloc_region [OF assms] live_addr(3) [OF assms(1)] by metis

theorem kmalloc_region_usable_witness:
  "\<exists>p t k. kmalloc 10 ready_memory = Some (p, t) \<and> p \<noteq> 0 \<and> 10 \<le> k \<and> live t = {(unat p, k)}"
proof -
  obtain t where t: "kmalloc 10 ready_memory = Some (0x100014, t)" using ready_kmalloc by blast
  with kmalloc_region_usable [OF ready_memory_ok t] show ?thesis by auto
qed

text \<open>
  C22: giving a block back. Releasing what \<open>kmalloc\<close> just returned restores the heap exactly: the
  same list of blocks, with the same sizes and the same free memory.
\<close>

theorem kmalloc_kfree_roundtrip:
  assumes "heap_ok s" "kmalloc n s = Some (p, t)" "p \<noteq> 0"
  shows "\<exists>u. kfree p t = Some u \<and> heap_ok u \<and> heap_blocks u = heap_blocks s
    \<and> free_memory (manager u) = free_memory (manager s)"
  using assms(1)
proof (cases rule: kmalloc_cases [of s n])
  case null
  then show ?thesis using assms by simp
next
  case (granted xs l ys v)
  note fb = first_fit_bound [OF assms(1) granted(2)]
  have p: "p = adr (HEAP_LO + span xs + 20)" "t = v" using granted(3) assms(2) by auto
  have "no_adjacent_free (heap_blocks s)" using assms(1) by (simp add: heap_ok_def heap_inv_def)
  then have "spec_free (unat p) (heap_blocks t) = heap_blocks s"
    using spec_free_alloc [OF granted(2)] granted(5) p fb(2) by simp
  then obtain u where u: "kfree p t = Some u" "heap_ok u" "heap_blocks u = heap_blocks s"
    using kfree_ok [of t p] granted(4) p(2) assms(3) by auto
  then show ?thesis using assms(1) by (auto simp: heap_ok_def heap_inv_def stats_rep_def)
qed

theorem kmalloc_kfree_roundtrip_witness:
  "\<exists>t u. kmalloc 10 ready_memory = Some (0x100014, t) \<and> kfree 0x100014 t = Some u
     \<and> heap_blocks u = [(HEAP_LEN - 20, True)]"
proof -
  obtain t where t: "kmalloc 10 ready_memory = Some (0x100014, t)" using ready_kmalloc by blast
  with kmalloc_kfree_roundtrip [OF ready_memory_ok t] show ?thesis by (auto simp: ready_memory_blocks)
qed

text \<open>
  C3: every history of requests. Starting from the initialised heap, any sequence of \<open>kmalloc\<close> and
  \<open>kfree\<close> calls, with any sizes and any pointers (wild ones and double releases included), returns,
  leaves the heap well-formed, and the regions in use at the end do not overlap.
\<close>

theorem heap_history_safe:
  "\<exists>t. run_requests kmalloc kfree rs (init_memory_manager s) = Some t \<and> heap_ok t
    \<and> (\<forall>p n q k. (p, n) \<in> live t \<longrightarrow> (q, k) \<in> live t \<longrightarrow>
         (p, n) = (q, k) \<or> p + n \<le> q \<or> q + k \<le> p)"
proof -
  have "heap_ok (init_memory_manager s)" using heap_okI [OF init_heap_inv] by blast
  from kernel_heap.run_ok [OF this] obtain t where
    t: "run_requests kmalloc kfree rs (init_memory_manager s) = Some t" "heap_ok t" by blast
  show ?thesis
    by (intro exI [of _ t] conjI t allI impI) (rule kernel_heap.regs_disjoint [OF t(2)])
qed

theorem heap_history_safe_witness:
  "\<exists>t. run_requests kmalloc kfree [Alloc 10, Alloc 100, Free 0x100014, Free 0x100014, Free 3, Alloc 8]
     (init_memory_manager power_on_memory) = Some t \<and> heap_ok t"
  using heap_history_safe [of "[Alloc 10, Alloc 100, Free 0x100014, Free 0x100014, Free 3, Alloc 8]"
      power_on_memory] by (elim exE conjE) (intro exI conjI)

text \<open>
  C26: accounting. After any history of \<open>kmalloc\<close> and \<open>kfree\<close> calls on the initialised heap, whatever sizes
  and pointers they were given, the counter of allocated bytes is the total size of the regions in
  use, the free memory counter is the rest of the managed memory (so it counts the headers as free),
  the peak is not below the present value, and the number of successful allocations is the number
  of effective releases plus the number of regions in use.
\<close>

theorem heap_accounting:
  assumes "run_requests kmalloc kfree rs (init_memory_manager s) = Some t"
  shows "unat (current_allocated (mstats t)) = (\<Sum>r \<in> live t. snd r)
    \<and> unat (free_memory (manager t)) = HEAP_LEN - (\<Sum>r \<in> live t. snd r)
    \<and> free_memory (manager t) + current_allocated (mstats t) = total_memory (manager t)
    \<and> current_allocated (mstats t) \<le> peak_allocated (mstats t)
    \<and> total_allocations (mstats t) = total_frees (mstats t) + of_nat (card (live t))"
proof -
  let ?bs = "heap_blocks t"
  have ok: "heap_ok t" "calls_counted t" using run_calls_counted [OF init_calls_counted assms] by blast+
  have st: "stats_rep t ?bs" and sp: "span ?bs = HEAP_LEN"
    using ok(1) heap_repD(4) [OF heap_ok_repD] by (auto simp: heap_ok_def heap_inv_def)
  have le: "used_size ?bs \<le> HEAP_LEN" using used_size_le [of ?bs] sp by simp
  have "unat (adr (HEAP_LEN - used_size ?bs)) = HEAP_LEN - used_size ?bs" "unat (adr (used_size ?bs)) = used_size ?bs"
    using le by (auto intro: unat_adr)
  moreover have "adr (HEAP_LEN - used_size ?bs) + adr (used_size ?bs) = adr HEAP_LEN" using le by simp
  ultimately show ?thesis
    using st ok(2) regions_size [of HEAP_LO ?bs] by (auto simp: stats_rep_def calls_counted_def live_def)
qed

theorem heap_accounting_witness:
  "\<exists>t. run_requests kmalloc kfree [Alloc 10, Alloc 100, Free 0x100014] (init_memory_manager power_on_memory) = Some t
    \<and> unat (current_allocated (mstats t)) = 100 \<and> total_allocations (mstats t) = total_frees (mstats t) + 1"
proof -
  obtain t where t: "run_requests kmalloc kfree [Alloc 10, Alloc 100, Free 0x100014] (init_memory_manager power_on_memory) = Some t"
      "heap_blocks t = [(12, True), (100, False), (HEAP_LEN - 172, True)]"
    using two_blocks unfolding ready_memory_def by auto
  then have "live t = {(0x100034, 100)}" by (simp add: live_def)
  with heap_accounting [OF t(1)] t(1) show ?thesis by (intro exI [of _ t]) simp
qed

text \<open>
  C25: no leak by fragmentation. When after any history of \<open>kmalloc\<close> and \<open>kfree\<close> calls on the
  initialised heap no region is in use any more, the compaction in \<open>kfree\<close> has put the heap together
  again: it is one free block that spans the managed memory, all of it is counted as free, and a
  request for all of it is granted.
\<close>

theorem heap_full_recovery:
  assumes "run_requests kmalloc kfree rs (init_memory_manager s) = Some t" "live t = {}"
  shows "heap_blocks t = [(HEAP_LEN - 20, True)] \<and> unat (free_memory (manager t)) = HEAP_LEN
    \<and> (\<exists>u. kmalloc 0xEFFFEC t = Some (0x100014, u) \<and> heap_blocks u = [(HEAP_LEN - 20, False)])"
proof -
  have ok: "heap_ok t" using run_calls_counted [OF init_calls_counted assms(1)] by blast
  then have inv: "heap_rep t (heap_blocks t)" "stats_rep t (heap_blocks t)" "no_adjacent_free (heap_blocks t)"
    by (simp_all add: heap_ok_def heap_inv_def)
  have "\<forall>b \<in> set (heap_blocks t). snd b" using regions_empty assms(2) unfolding live_def by blast
  then obtain n where "heap_blocks t = [(n, True)]" using all_free_single inv heap_repD(5) by blast
  then have one: "heap_blocks t = [(HEAP_LEN - 20, True)]" using heap_repD(4) [OF inv(1)] by simp
  have t: "heap_inv t [(HEAP_LEN - 20, True)]" using ok one by (simp add: heap_ok_def)
  have "align_address 0xEFFFEC 4 = 0xEFFFEC" by code_simp
  then have al: "unat (align_address 0xEFFFEC 4) = HEAP_LEN - 20" by simp
  obtain u where "kmalloc 0xEFFFEC t = Some (adr 0x100014, u)" "heap_inv u [(HEAP_LEN - 20, False)]"
    by (rule kmalloc_to [OF t _ al]) (auto simp: spec_alloc_def split_block_def)
  then show ?thesis using one inv(2) heap_okI(2) by (auto simp: stats_rep_def unat_adr adr_def)
qed

theorem heap_full_recovery_witness:
  "\<exists>t u. run_requests kmalloc kfree [Alloc 10, Alloc 100, Free 0x100014, Free 0x100034] (init_memory_manager power_on_memory) = Some t
    \<and> kmalloc 0xEFFFEC t = Some (0x100014, u)"
proof -
  obtain t where t: "run_requests kmalloc kfree [Alloc 10, Alloc 100, Free 0x100014, Free 0x100034] (init_memory_manager power_on_memory) = Some t"
      "heap_blocks t = [(HEAP_LEN - 20, True)]"
    using two_blocks unfolding ready_memory_def by auto
  then have "live t = {}" by (simp add: live_def)
  from heap_full_recovery [OF t(1) this] t(1) show ?thesis by blast
qed

text \<open>
  C24: \<open>kcalloc\<close>. Let the product of count and size, as a number, be at most \<open>0xFFFFFFFC\<close>. When it is 0 or
  no free block has room for it, the result is NULL and nothing changes. In all other cases the
  caller gets a region of at least that many bytes, all of them zero, apart from all other regions,
  whose contents are kept.
\<close>

theorem kcalloc_zeroed:
  assumes "heap_ok s" "unat cnt * unat n \<le> 0xFFFFFFFC"
  shows "if unat cnt * unat n = 0 \<or> \<not> fits (cnt * n) s then kcalloc cnt n s = Some (0, s)
    else \<exists>p t k. kcalloc cnt n s = Some (p, t) \<and> p \<noteq> 0
      \<and> heap_ok t \<and> unat cnt * unat n \<le> k \<and> live t = insert (unat p, k) (live s)
      \<and> (\<forall>q l. (q, l) \<in> live s \<longrightarrow> q + l + 20 \<le> unat p \<or> unat p + k + 20 \<le> q)
      \<and> (\<forall>i < unat cnt * unat n. mem t (adr (unat p + i)) = 0)
      \<and> (\<forall>q l i. (q, l) \<in> live s \<longrightarrow> i < l \<longrightarrow> mem t (adr (q + i)) = mem s (adr (q + i)))"
proof -
  have tot: "unat (cnt * n) = unat cnt * unat n" using assms(2) by (simp add: unat_word_ariths)
  then have zero: "cnt * n = 0 \<longleftrightarrow> unat cnt * unat n = 0" by (metis unat_eq_zero)
  show ?thesis
  proof (cases "unat cnt * unat n = 0 \<or> \<not> fits (cnt * n) s")
    case True
    then have "kmalloc (cnt * n) s = Some (0, s)" using zero by (intro kmalloc_null [OF assms(1)]) blast
    then show ?thesis unfolding if_P [OF True] by (simp add: kcalloc_def)
  next
    case False
    then obtain p u where "kmalloc (cnt * n) s = Some (p, u)" and p: "p \<noteq> 0" using kmalloc_fits [OF assms(1)] zero by blast
    then have "\<exists>t. kcalloc cnt n s = Some (p, t)" by (simp add: kcalloc_def)
    then obtain t where t: "kcalloc cnt n s = Some (p, t)" by blast
    show ?thesis unfolding if_not_P [OF False] using kcalloc_region [OF assms t p] t p by blast
  qed
qed

theorem kcalloc_zeroed_witness:
  "\<exists>p t. kcalloc 2 5 ready_memory = Some (p, t) \<and> p \<noteq> 0 \<and> (\<forall>i < 10. mem t (adr (unat p + i)) = 0)"
proof -
  have "unat (align_address 10 4) = 12" by code_simp
  then have "fits (2 * 5) ready_memory" by (simp add: fits_def ready_memory_blocks)
  then show ?thesis using kcalloc_zeroed [OF ready_memory_ok, of 2 5] by auto
qed

text \<open>
  C23: \<open>krealloc\<close> of a region in use that is not empty, to at most \<open>0xFFFFFFFC\<close> bytes. It always
  returns. For the size 0 it releases the region and returns NULL. When no free block has room for
  the new size it returns NULL and changes nothing. In all other cases the result is a region of at
  least the new size that holds the first bytes of the old region, as many as fit, and the old
  region is released. All other regions keep their contents in every case.
\<close>

theorem krealloc_preserves:
  assumes "heap_ok s" "(unat p, l) \<in> live s" "0 < l" "n \<le> 0xFFFFFFFC"
  shows "if n = 0 then \<exists>t. krealloc p n s = Some (0, t) \<and> heap_ok t \<and> live t = {r \<in> live s. fst r \<noteq> unat p}
      \<and> (\<forall>r j i. (r, j) \<in> live s \<longrightarrow> i < j \<longrightarrow> mem t (adr (r + i)) = mem s (adr (r + i)))
    else if \<not> fits n s then krealloc p n s = Some (0, s)
    else \<exists>q t k. krealloc p n s = Some (q, t) \<and> q \<noteq> 0
      \<and> heap_ok t \<and> unat n \<le> k \<and> live t = insert (unat q, k) {r \<in> live s. fst r \<noteq> unat p}
      \<and> (\<forall>i < min l (unat n). mem t (adr (unat q + i)) = mem s (adr (unat p + i)))
      \<and> (\<forall>r j i. (r, j) \<in> live s \<longrightarrow> r \<noteq> unat p \<longrightarrow> i < j \<longrightarrow> mem t (adr (r + i)) = mem s (adr (r + i)))"
proof -
  consider "n = 0" | "n \<noteq> 0" "\<not> fits n s" | "n \<noteq> 0" "fits n s" by blast
  then show ?thesis
  proof cases
    case 1
    have p: "p \<noteq> 0" using live_bounds(1) [OF assms(1,2)] by auto
    obtain t where t: "kfree p s = Some t" "heap_ok t"
        "\<forall>i < 4294967296. i \<notin> hdrs HEAP_LO (heap_blocks s) \<longrightarrow> mem t (adr i) = mem s (adr i)"
      using kfree_ok [OF assms(1), of p] by auto
    have "mem t (adr (r + i)) = mem s (adr (r + i))" if "(r, j) \<in> live s" "i < j" for r j i
      using t(3) live_addr [OF assms(1) that] by simp
    then show ?thesis using t 1 p kernel_heap.free_regs [OF assms(1) t(1)] by (auto simp: krealloc_def)
  next
    case 2
    then show ?thesis using krealloc_refused [OF assms(1,2)] kmalloc_null [OF assms(1)] by simp
  next
    case 3
    obtain q u where "kmalloc n s = Some (q, u)" "q \<noteq> 0" using kmalloc_fits [OF assms(1) 3] by blast
    from krealloc_moves [OF assms(1-3) 3(1) assms(4) this] this(2) 3 show ?thesis by (simp only: if_False not_True_eq_False) blast
  qed
qed

theorem krealloc_preserves_witness:
  "\<exists>(s :: memory) q t k. (0x100014, 12) \<in> live s \<and> krealloc 0x100014 50 s = Some (q, t) \<and> q \<noteq> 0
    \<and> 50 \<le> k \<and> live t = insert (unat q, k) {r \<in> live s. fst r \<noteq> 0x100014}
    \<and> (\<forall>i < 12. mem t (adr (unat q + i)) = mem s (adr (0x100014 + i)))"
proof -
  obtain s :: memory where s: "heap_ok s" "heap_blocks s = [(12, False), (100, False), (HEAP_LEN - 172, True)]"
    using two_blocks by blast
  have "unat (align_address 50 4) = 52" by code_simp
  then have "fits 50 s" by (simp add: fits_def s(2))
  moreover have lv: "(unat (0x100014 :: u32), 12) \<in> live s" by (simp add: live_def s(2))
  ultimately show ?thesis using krealloc_preserves [OF s(1) lv, of 50] by (intro exI [of _ s]) auto
qed



text \<open>
  \<open>kcalloc\<close> does not check its product. \<open>0x40000001\<close> elements of 4 bytes wrap to 4 bytes, and
  on the initialised heap the call succeeds with a region of 4 bytes.
\<close>

theorem kcalloc_product_wraps:
  "\<exists>t. kcalloc 0x40000001 4 (init_memory_manager s) = Some (0x100014, t) \<and> live t = {(0x100014, 4)}"
proof -
  let ?s = "init_memory_manager s"
  have ok: "heap_ok ?s" "heap_blocks ?s = [(HEAP_LEN - 20, True)]" using heap_okI [OF init_heap_inv] by blast+
  have "unat (align_address 4 4) = 4" by code_simp
  then have "spec_alloc (unat (align_address 4 4)) (heap_blocks ?s) = (0x100014, [(4, False), (HEAP_LEN - 44, True)])"
    by (simp add: spec_alloc_def split_block_def ok(2))
  with kmalloc_refines [OF ok(1) [unfolded heap_ok_def], of 4] obtain t where
    t: "kmalloc 4 ?s = Some (0x100014, t)" "heap_inv t [(4, False), (HEAP_LEN - 44, True)]"
    by (auto simp: adr_def)
  then have lt: "heap_ok t" "live t = {(0x100014, 4)}" using heap_okI [OF t(2)] by (simp_all add: live_def)
  have "memset 0x100014 0 4 (mem t) (adr i) = mem t (adr i)"
    if "i < 4294967296" "\<not> (0x100014 \<le> i \<and> i < 0x100014 + 4)" for i
    using memset_loop_at [of "0x100014" 4 i 0 "mem t"] that by (auto simp: memset_def adr_def)
  from region_write(2) [where m = "memset 0x100014 0 4 (mem t)", OF lt(1) _ this] lt(2) t(1)
  have "live (t\<lparr>mem := memset 0x100014 0 4 (mem t)\<rparr>) = {(0x100014, 4)}" by simp
  moreover have w: "(0x40000001 :: u32) * 4 = 4" by code_simp
  ultimately show ?thesis using t(1) unfolding kcalloc_def Let_def w by simp
qed

end
