(* ===== verification/Pages.thy ===== *)
theory Pages
  imports Heap_Properties
begin

text \<open>
  The page allocator of \<open>kernel/memory.c\<close>: its invariant, \<open>alloc_page\<close>, \<open>free_page\<close> and
  \<open>get_page_info\<close>, and how the pages relate to the heap.
\<close>

section \<open>The page table invariant\<close>

lemma MAX_PAGES_nat [simp]: "unat MAX_PAGES = 3840"
  unfolding MAX_PAGES_def MEMORY_END_def MEMORY_START_def PAGE_SIZE_def by code_simp

definition page_at :: "nat \<Rightarrow> u32" where
  "page_at i = adr (HEAP_LO + i * 4096)"

definition used_indices :: "page list \<Rightarrow> nat set" where
  "used_indices ps = {i. i < length ps \<and> page_status (ps ! i) = PAGE_USED}"

definition page_ok :: "nat \<Rightarrow> page \<Rightarrow> bool" where
  "page_ok i pg \<longleftrightarrow> page_address pg = page_at i
     \<and> (page_status pg = PAGE_FREE \<and> page_ref_count pg = 0
        \<or> page_status pg = PAGE_USED \<and> page_ref_count pg = 1)"

definition pages_ok :: "'a memory_scheme \<Rightarrow> bool" where
  "pages_ok s \<longleftrightarrow> (let mm = manager s in
     length (pages mm) = 3840 \<and> (\<forall>i < 3840. page_ok i (pages mm ! i))
     \<and> used_pages mm = of_nat (card (used_indices (pages mm)))
     \<and> free_pages mm = of_nat (3840 - card (used_indices (pages mm)))
     \<and> total_pages mm = 3840)"

lemma used_indices_bound: "length ps = 3840 \<Longrightarrow> card (used_indices ps) \<le> 3840"
proof -
  assume "length ps = 3840"
  then have "used_indices ps \<subseteq> {..<3840}" by (auto simp: used_indices_def)
  from card_mono [OF _ this] show ?thesis by simp
qed

lemma finite_used_indices [simp]: "finite (used_indices ps)"
  by (simp add: used_indices_def)

lemma used_indices_update:
  assumes "i < length ps"
  shows "used_indices (ps[i := pg]) =
    (if page_status pg = PAGE_USED then insert i (used_indices ps) else used_indices ps - {i})"
  using assms by (auto simp: used_indices_def nth_list_update split: if_splits)

lemma page_status_distinct [simp]: "PAGE_FREE \<noteq> PAGE_USED" "PAGE_USED \<noteq> PAGE_FREE"
  by (simp_all add: PAGE_FREE_def PAGE_USED_def)

lemma unat_page_at: "i < 3840 \<Longrightarrow> unat (page_at i) = HEAP_LO + i * 4096"
  unfolding page_at_def by (rule unat_adr) simp

lemma page_at_inj: "i < 3840 \<Longrightarrow> j < 3840 \<Longrightarrow> page_at i = page_at j \<longleftrightarrow> i = j"
  by (metis unat_page_at add_left_cancel mult_cancel2 zero_neq_numeral)

text \<open>The search loops return the first index that passes the test.\<close>

lemma find_upt: "find P [0..<n] = Some i \<Longrightarrow> i < n \<and> P i \<and> (\<forall>j < i. \<not> P j)"
  by (auto simp: find_Some_iff)

lemma find_page_None: "find_page P s = None \<longleftrightarrow> (\<forall>i < 3840. \<not> P (pages (manager s) ! i))"
  by (auto simp: find_page_def find_None_iff)

lemma find_page_Some:
  "find_page P s = Some i \<Longrightarrow> i < 3840 \<and> P (pages (manager s) ! i)
     \<and> (\<forall>j < i. \<not> P (pages (manager s) ! j))"
  unfolding find_page_def by (drule find_upt) simp

lemma find_page_address:
  assumes "pages_ok s" "i < 3840"
  shows "find_page (\<lambda>p. page_address p = page_at i) s = Some i"
proof -
  have ad: "page_address (pages (manager s) ! j) = page_at j" if "j < 3840" for j
    using assms(1) that by (auto simp: pages_ok_def page_ok_def Let_def)
  then have "find_page (\<lambda>p. page_address p = page_at i) s \<noteq> None"
    using assms(2) by (auto simp: find_page_None)
  then obtain j where j: "find_page (\<lambda>p. page_address p = page_at i) s = Some j" by blast
  with find_page_Some [OF j] ad [of j] assms(2) page_at_inj [of i j] show ?thesis by simp
qed

section \<open>Initialisation, allocation, release\<close>

lemma init_pages_manager:
  "manager (init_memory_manager s) = \<lparr>pages = fill_loop init_page 3840 (pages (manager s)),
     total_pages = MAX_PAGES, free_pages = MAX_PAGES, used_pages = 0, free_list = MEMORY_START,
     total_memory = MEMORY_END - MEMORY_START, free_memory = MEMORY_END - MEMORY_START\<rparr>"
  by (simp add: init_memory_manager_def Let_def)

lemma MAX_PAGES_word: "MAX_PAGES = 3840"
  unfolding MAX_PAGES_def MEMORY_END_def MEMORY_START_def PAGE_SIZE_def by code_simp

lemma init_page_ok: "page_ok i (init_page i)"
  by (simp add: page_ok_def init_page_def page_at_def adr_def MEMORY_START_def PAGE_SIZE_def)

lemma init_pages_ok:
  assumes "length (pages (manager s)) = 3840"
  shows "pages_ok (init_memory_manager s)"
proof -
  let ?ps = "pages (manager (init_memory_manager s))"
  have ps: "?ps = map init_page [0..<3840]"
    unfolding init_pages_manager using fill_loop_all [OF assms] by simp
  moreover have "used_indices (map init_page [0..<3840]) = {}"
    by (auto simp: used_indices_def init_page_def)
  ultimately show ?thesis
    by (simp add: pages_ok_def init_pages_manager init_page_ok MAX_PAGES_word)
qed

lemma pages_ok_update:
  assumes "pages_ok s" "i < 3840" "page_ok i pg" "mm = manager s"
    "used_pages mm' = of_nat (card (used_indices ((pages mm)[i := pg])))"
    "free_pages mm' = of_nat (3840 - card (used_indices ((pages mm)[i := pg])))"
    "pages mm' = (pages mm)[i := pg]" "total_pages mm' = total_pages mm"
  shows "pages_ok (s\<lparr>manager := mm'\<rparr>)"
  using assms by (auto simp: pages_ok_def Let_def nth_list_update)

lemma alloc_page_eq:
  assumes "pages_ok s" "find_page (\<lambda>p. page_status p = PAGE_FREE) s = Some i"
  defines "mm \<equiv> manager s"
  shows "alloc_page s = (page_at i, s\<lparr>manager := mm\<lparr>
      pages := (pages mm)[i := \<lparr>page_address = page_at i, page_status = PAGE_USED, page_ref_count = 1\<rparr>],
      free_pages := free_pages mm - 1, used_pages := used_pages mm + 1\<rparr>\<rparr>)"
    "pages_ok (snd (alloc_page s))"
proof -
  have i: "i < 3840" "page_status (pages mm ! i) = PAGE_FREE"
    using find_page_Some [OF assms(2)] by (auto simp: mm_def)
  have len: "length (pages mm) = 3840" using assms(1) by (auto simp: pages_ok_def Let_def mm_def)
  have "pages mm ! i = \<lparr>page_address = page_at i, page_status = PAGE_FREE, page_ref_count = 0\<rparr>"
    using assms(1) i by (cases "pages mm ! i") (auto simp: pages_ok_def page_ok_def Let_def mm_def)
  then show eq: "alloc_page s = (page_at i, s\<lparr>manager := mm\<lparr>
      pages := (pages mm)[i := \<lparr>page_address = page_at i, page_status = PAGE_USED, page_ref_count = 1\<rparr>],
      free_pages := free_pages mm - 1, used_pages := used_pages mm + 1\<rparr>\<rparr>)"
    using assms(2) by (simp add: alloc_page_def Let_def mm_def)
  have ui: "i \<notin> used_indices (pages mm)" using i by (simp add: used_indices_def)
  moreover from ui have "card (used_indices (pages mm)) < 3840"
    using card_mono [of "{..<3840}" "insert i (used_indices (pages mm))"] i len
    by (simp add: used_indices_def subset_eq)
  ultimately have "used_pages mm + 1 = of_nat (card (insert i (used_indices (pages mm))))"
    "free_pages mm - 1 = of_nat (3840 - card (insert i (used_indices (pages mm))))"
    using assms(1) by (simp_all add: pages_ok_def Let_def mm_def of_nat_diff)
  then show "pages_ok (snd (alloc_page s))"
    unfolding eq snd_conv using i len
    by (intro pages_ok_update [OF assms(1)]) (auto simp: mm_def used_indices_update page_ok_def)
qed

lemma free_page_eq:
  assumes "pages_ok s" "i < 3840" "page_status (pages (manager s) ! i) = PAGE_USED"
  defines "mm \<equiv> manager s"
  shows "free_page (page_at i) s = s\<lparr>manager := mm\<lparr>
      pages := (pages mm)[i := \<lparr>page_address = page_at i, page_status = PAGE_FREE, page_ref_count = 0\<rparr>],
      free_pages := free_pages mm + 1, used_pages := used_pages mm - 1\<rparr>\<rparr>"
    "pages_ok (free_page (page_at i) s)"
proof -
  have len: "length (pages mm) = 3840" using assms(1) by (auto simp: pages_ok_def Let_def mm_def)
  have "pages mm ! i = \<lparr>page_address = page_at i, page_status = PAGE_USED, page_ref_count = 1\<rparr>"
    using assms(1-3) by (cases "pages mm ! i") (auto simp: pages_ok_def page_ok_def Let_def mm_def)
  then show eq: "free_page (page_at i) s = s\<lparr>manager := mm\<lparr>
      pages := (pages mm)[i := \<lparr>page_address = page_at i, page_status = PAGE_FREE, page_ref_count = 0\<rparr>],
      free_pages := free_pages mm + 1, used_pages := used_pages mm - 1\<rparr>\<rparr>"
    using find_page_address [OF assms(1,2)] by (simp add: free_page_def Let_def mm_def)
  have ui: "i \<in> used_indices (pages mm)" using assms(2,3) len by (simp add: used_indices_def mm_def)
  then have c: "card (used_indices (pages mm)) = Suc (card (used_indices (pages mm) - {i}))"
    using card_Suc_Diff1 [of "used_indices (pages mm)" i] by simp
  moreover have "card (used_indices (pages mm)) \<le> 3840" using used_indices_bound [OF len] .
  ultimately have "used_pages mm - 1 = of_nat (card (used_indices (pages mm) - {i}))"
    "free_pages mm + 1 = of_nat (3840 - card (used_indices (pages mm) - {i}))"
    using assms(1) by (simp_all add: pages_ok_def Let_def mm_def of_nat_diff)
  then show "pages_ok (free_page (page_at i) s)"
    unfolding eq using assms(2) len
    by (intro pages_ok_update [OF assms(1)]) (auto simp: mm_def used_indices_update page_ok_def)
qed

lemma page_address_None:
  assumes "pages_ok s" "\<forall>i < 3840. a \<noteq> page_at i"
  shows "find_page (\<lambda>p. page_address p = a) s = None"
  using assms by (auto simp: find_page_None pages_ok_def page_ok_def Let_def)

section \<open>The page allocator provides the allocator interface\<close>

definition page_regions :: "'a memory_scheme \<Rightarrow> (nat \<times> nat) set" where
  "page_regions s = (\<lambda>i. (HEAP_LO + i * 4096, 4096)) ` used_indices (pages (manager s))"


lemma pages_ok_length: "pages_ok s \<Longrightarrow> length (pages (manager s)) = 3840"
  by (simp add: pages_ok_def Let_def)

lemma alloc_page_cases:
  assumes "pages_ok s"
  obtains (full) "alloc_page s = (0, s)" "\<forall>i < 3840. page_status (pages (manager s) ! i) = PAGE_USED"
  | (taken) i where "find_page (\<lambda>p. page_status p = PAGE_FREE) s = Some i" "i < 3840"
      "i \<notin> used_indices (pages (manager s))" "fst (alloc_page s) = page_at i"
      "page_regions (snd (alloc_page s)) = insert (HEAP_LO + i * 4096, 4096) (page_regions s)"
      "pages_ok (snd (alloc_page s))"
proof (cases "find_page (\<lambda>p. page_status p = PAGE_FREE) s")
  case None
  then have "\<forall>i < 3840. page_status (pages (manager s) ! i) = PAGE_USED"
    using assms by (fastforce simp: find_page_None pages_ok_def page_ok_def Let_def)
  then show thesis using None by (intro full) (simp_all add: alloc_page_def)
next
  case (Some i)
  note ap = alloc_page_eq [OF assms Some]
  have i: "i < 3840" "i \<notin> used_indices (pages (manager s))"
    using find_page_Some [OF Some] by (auto simp: used_indices_def)
  then show thesis using Some ap(2) pages_ok_length [OF assms]
    by (intro taken [of i]) (simp_all add: ap(1) page_regions_def used_indices_update)
qed



section \<open>Properties of the page allocator\<close>

lemma ready_pages_ok: "pages_ok ready_memory"
  unfolding ready_memory_def by (rule init_pages_ok) (simp add: power_on_memory_def)



text \<open>
  C29: one page. \<open>alloc_page\<close> returns NULL, changing nothing, exactly when every page is in use;
  otherwise it returns the lowest free page, page-aligned and inside the managed memory, marks
  that entry alone, moves one unit between the counters, and \<open>free_page\<close> on the result brings
  the state back exactly as it was.
\<close>

theorem alloc_page_correct:
  assumes "pages_ok s"
  shows "(\<forall>i < 3840. page_status (pages (manager s) ! i) = PAGE_USED) \<and> alloc_page s = (0, s)
    \<or> (\<exists>i t. i < 3840 \<and> alloc_page s = (adr (HEAP_LO + i * 4096), t)
        \<and> page_status (pages (manager s) ! i) = PAGE_FREE
        \<and> (\<forall>j < i. page_status (pages (manager s) ! j) \<noteq> PAGE_FREE)
        \<and> page_status (pages (manager t) ! i) = PAGE_USED
        \<and> (\<forall>j. j \<noteq> i \<longrightarrow> pages (manager t) ! j = pages (manager s) ! j)
        \<and> free_pages (manager t) = free_pages (manager s) - 1
        \<and> used_pages (manager t) = used_pages (manager s) + 1
        \<and> mem t = mem s \<and> free_page (adr (HEAP_LO + i * 4096)) t = s)"
  using assms
proof (cases rule: alloc_page_cases)
  case full
  then show ?thesis by blast
next
  case (taken i)
  let ?t = "snd (alloc_page s)"
  note ap = alloc_page_eq(1) [OF assms taken(1)]
  note len = pages_ok_length [OF assms]
  have st: "page_status (pages (manager s) ! i) = PAGE_FREE"
    "\<forall>j < i. page_status (pages (manager s) ! j) \<noteq> PAGE_FREE" using find_page_Some [OF taken(1)] by auto
  have ti: "page_status (pages (manager ?t) ! i) = PAGE_USED" using ap taken(2) len by simp
  have "pages (manager s) ! i = \<lparr>page_address = page_at i, page_status = PAGE_FREE, page_ref_count = 0\<rparr>"
    using assms st(1) taken(2) by (cases "pages (manager s) ! i") (auto simp: pages_ok_def page_ok_def Let_def)
  then have "(pages (manager s))[i := \<lparr>page_address = page_at i, page_status = PAGE_FREE, page_ref_count = 0\<rparr>]
      = pages (manager s)" by (metis list_update_id)
  then have "free_page (page_at i) ?t = s"
    using free_page_eq(1) [OF taken(6,2) ti] by (simp add: ap)
  then show ?thesis using taken(2) st ti ap by (auto simp: page_at_def)
qed

theorem alloc_page_correct_witness:
  "\<exists>i < 3840. fst (alloc_page ready_memory) = adr (HEAP_LO + i * 4096)"
proof -
  have "page_status (pages (manager ready_memory) ! 0) = PAGE_FREE"
    unfolding ready_memory_def init_pages_manager
    by (simp add: nth_fill_loop power_on_memory_def init_page_def)
  moreover have "(0 :: nat) < 3840" by simp
  ultimately have "\<not> (\<forall>i < 3840. page_status (pages (manager ready_memory) ! i) = PAGE_USED)" by force
  then show ?thesis using alloc_page_correct [OF ready_pages_ok] by auto
qed

text \<open>
  \<open>get_page_info\<close>. For every address in the managed memory it returns the entry of the page
  that contains the address, and NULL exactly for the addresses \<open>is_valid_address\<close> rejects.
\<close>

lemma unat_page_of: "unat (a AND NOT (PAGE_SIZE - 1)) = unat a div 4096 * 4096"
proof -
  have m: "PAGE_SIZE - 1 = (mask 12 :: u32)" by (simp add: PAGE_SIZE_def mask_eq_exp_minus_1)
  have "unat a div 4096 * 4096 < 4294967296" using unat_u32_bound [of a] by linarith
  then show ?thesis unfolding m and_not_mask push_bit_eq_mult drop_bit_eq_div unat_word_ariths
    by (simp add: unat_div)
qed

lemma valid_nat: "is_valid_address a \<longleftrightarrow> HEAP_LO \<le> unat a \<and> unat a < 16777216"
  by (simp add: is_valid_address_def MEMORY_START_def MEMORY_END_def word_le_nat_alt word_less_nat_alt)

lemma page_of_address:
  assumes "is_valid_address a"
  shows "(unat a - HEAP_LO) div 4096 < 3840" "a AND NOT (PAGE_SIZE - 1) = page_at ((unat a - HEAP_LO) div 4096)"
proof -
  obtain d where d: "unat a = HEAP_LO + d" "d < 15728640"
    using assms by (auto simp: valid_nat intro: that [of "unat a - HEAP_LO"])
  then show "(unat a - HEAP_LO) div 4096 < 3840" by (simp add: less_mult_imp_div_less)
  have "HEAP_LO + d = d + 256 * 4096" by simp
  then have "(HEAP_LO + d) div 4096 = 256 + d div 4096" by (simp only: div_mult_self1)
  then have "unat (a AND NOT (PAGE_SIZE - 1)) = HEAP_LO + d div 4096 * 4096"
    unfolding unat_page_of d(1) by simp
  then show "a AND NOT (PAGE_SIZE - 1) = page_at ((unat a - HEAP_LO) div 4096)"
    unfolding page_at_def d(1) by (metis adr_unat add_diff_cancel_left')
qed

theorem get_page_info_correct:
  assumes "pages_ok s"
  shows "get_page_info a s = (if is_valid_address a then Some ((unat a - HEAP_LO) div 4096) else None)"
proof (cases "is_valid_address a")
  case True
  then show ?thesis using find_page_address [OF assms] page_of_address [OF True]
    by (simp add: get_page_info_def Let_def)
next
  case False
  have "a AND NOT (PAGE_SIZE - 1) \<noteq> page_at i" if i: "i < 3840" for i
  proof
    assume "a AND NOT (PAGE_SIZE - 1) = page_at i"
    then have "unat a div 4096 * 4096 = HEAP_LO + i * 4096"
      using unat_page_of [of a] unat_page_at [OF i] by simp
    then have "unat a div 4096 = 256 + i" by simp
    then have "HEAP_LO \<le> unat a" "unat a < 16777216" using i by linarith+
    then show False using False by (simp add: valid_nat)
  qed
  then show ?thesis using page_address_None [OF assms] False by (simp add: get_page_info_def Let_def)
qed

theorem get_page_info_correct_witness:
  "get_page_info 0x102345 ready_memory = Some 2 \<and> get_page_info 0 ready_memory = None"
  using get_page_info_correct [OF ready_pages_ok, of "0x102345"] get_page_info_correct [OF ready_pages_ok, of 0]
  by (simp add: valid_nat)

text \<open>
  The two allocators share memory. The page allocator manages the range the heap
  lives in, and nothing reserves pages for it: on the initialised system the first page it hands out starts at the
  heap's first block header and contains the first region \<open>kmalloc\<close> hands out.
\<close>

theorem page_overlaps_heap:
  assumes "length (pages (manager s)) = 3840"
  shows "fst (alloc_page (init_memory_manager s)) = free_list (manager (init_memory_manager s))
    \<and> (\<exists>t. kmalloc 4 (init_memory_manager s) = Some (fst (alloc_page (init_memory_manager s)) + 20, t))"
proof -
  let ?s = "init_memory_manager s"
  note ok = init_pages_ok [OF assms]
  have "page_status (pages (manager ?s) ! 0) = PAGE_FREE"
    using assms unfolding init_pages_manager by (simp add: nth_fill_loop init_page_def)
  moreover have "[0..<3840] = 0 # [Suc 0..<3840]" by (rule upt_conv_Cons) simp
  ultimately have "find_page (\<lambda>p. page_status p = PAGE_FREE) ?s = Some 0"
    unfolding find_page_def MAX_PAGES_nat by simp
  then have ap: "fst (alloc_page ?s) = adr HEAP_LO" using alloc_page_eq(1) [OF ok] by (simp add: page_at_def)
  have fl: "free_list (manager ?s) = adr HEAP_LO" using init_heap_inv [of s] by (simp add: heap_inv_def heap_rep_def)
  have "unat (align_address 4 4) = 4" by code_simp
  then have "spec_alloc (unat (align_address 4 4)) [(HEAP_LEN - 20, True)] = (0x100014, [(4, False), (HEAP_LEN - 44, True)])"
    by (simp add: spec_alloc_def split_block_def)
  with kmalloc_refines [OF init_heap_inv, of 4] have "\<exists>t. kmalloc 4 ?s = Some (adr 0x100014, t)" by fastforce
  then show ?thesis unfolding ap fl by (simp add: adr_def)
qed

theorem page_overlaps_heap_witness:
  "fst (alloc_page (init_memory_manager power_on_memory)) = free_list (manager (init_memory_manager power_on_memory))"
proof -
  have "length (pages (manager power_on_memory)) = 3840" by (simp add: power_on_memory_def)
  from page_overlaps_heap [OF this] show ?thesis by blast
qed

end
