(* ===== verification/Task.thy ===== *)
theory Task
  imports Memory
begin

text \<open>
  Task management, \<open>kernel/task.c\<close> and \<open>kernel/task.h\<close>. The tasks live in the static array
  \<open>tasks[MAX_TASKS]\<close>, and every \<open>task_t*\<close> of the program points into it: a task pointer is an
  index into the array, NULL is \<open>None\<close>. The task list is linked through the \<open>next\<close> field.
  An operation that walks the list returns an option: \<open>None\<close> when its loop does not end.
\<close>

section \<open>Data\<close>

definition TASK_RUNNING :: int where "TASK_RUNNING = 0"
definition TASK_READY :: int where "TASK_READY = 1"
definition TASK_SLEEPING :: int where "TASK_SLEEPING = 2"
definition TASK_ZOMBIE :: int where "TASK_ZOMBIE = 3"
definition MAX_TASKS :: nat where "MAX_TASKS = 64"
definition INVALID_PID :: int where "INVALID_PID = -1"

record task =
  pid :: int
  state :: int
  priority :: int
  esp :: u32
  ebp :: u32
  eip :: u32
  cr3 :: u32
  name :: "u8 list"
  parent_pid :: int
  start_time :: u32
  next_task :: "nat option"

record tasking = memory +
  current_task :: "nat option"
  task_list :: "nat option"
  next_pid :: int
  tasks :: "task list"
  task_count :: int

text \<open>Assigning to fields of the task a pointer points to.\<close>

definition set_task :: "nat \<Rightarrow> (task \<Rightarrow> task) \<Rightarrow> 'a tasking_scheme \<Rightarrow> 'a tasking_scheme" where
  "set_task i f s = s\<lparr>tasks := (tasks s)[i := f (tasks s ! i)]\<rparr>"

abbreviation next_of :: "'a tasking_scheme \<Rightarrow> nat \<Rightarrow> nat option" where
  "next_of s i \<equiv> next_task (tasks s ! i)"

abbreviation state_of :: "'a tasking_scheme \<Rightarrow> nat \<Rightarrow> int" where
  "state_of s i \<equiv> state (tasks s ! i)"

section \<open>Operations\<close>

text \<open>\<open>for (i = 0; i < 15 && name[i]; i++) dst[i] = name[i]; dst[15] = 0;\<close>\<close>

fun copy_name_loop :: "nat \<Rightarrow> cstring \<Rightarrow> u8 list \<Rightarrow> u8 list" where
  "copy_name_loop i [] dst = dst"
| "copy_name_loop i (c # cs) dst =
     (if i < 15 \<and> c \<noteq> 0 then copy_name_loop (i + 1) cs (dst[i := c]) else dst)"

definition copy_name :: "cstring \<Rightarrow> u8 list \<Rightarrow> u8 list" where
  "copy_name src dst = (copy_name_loop 0 src dst)[15 := 0]"

definition clear_task :: "task \<Rightarrow> task" where
  "clear_task t = t\<lparr>pid := INVALID_PID, state := TASK_ZOMBIE, next_task := None\<rparr>"

definition init_task_manager :: "'a tasking_scheme \<Rightarrow> 'a tasking_scheme" where
  "init_task_manager s =
     (let s = fold (\<lambda>i s. set_task i clear_task s) [0..<MAX_TASKS] s;
          s = set_task 0 (\<lambda>t. t\<lparr>pid := 0, state := TASK_RUNNING, priority := 0,
                parent_pid := INVALID_PID\<rparr>) s;
          s = set_task 0 (\<lambda>t. t\<lparr>name := copy_name (cstr ''kernel'') (name t)\<rparr>) s;
          s = s\<lparr>current_task := Some 0, task_list := Some 0, task_count := 1\<rparr>
      in print_string (cstr ''[TASK] Task manager initialized'' @ [0x0A]) s)"

text \<open>The walk to the last node, then linking the new one behind it.\<close>

definition append_task :: "nat \<Rightarrow> 'a tasking_scheme \<Rightarrow> 'a tasking_scheme option" where
  "append_task i s =
     (case task_list s of
        Some first \<Rightarrow>
          (case list_find (next_of s) (\<lambda>p. next_of s p = None) (Some first) of
             None \<Rightarrow> None
           | Some None \<Rightarrow> Some s
           | Some (Some last_task) \<Rightarrow> Some (set_task last_task (\<lambda>t. t\<lparr>next_task := Some i\<rparr>) s))
      | None \<Rightarrow> Some (s\<lparr>task_list := Some i\<rparr>))"

definition free_slot :: "'a tasking_scheme \<Rightarrow> nat option" where
  "free_slot s = find (\<lambda>i. pid (tasks s ! i) = INVALID_PID) [0..<MAX_TASKS]"

definition create_task ::
  "cstring \<Rightarrow> u32 \<Rightarrow> 'a tasking_scheme \<Rightarrow> (nat option \<times> 'a tasking_scheme) option" where
  "create_task nm entry_point s =
     (if task_count s \<ge> int MAX_TASKS
      then Some (None, print_string (cstr ''[ERROR] Maximum tasks reached'' @ [0x0A]) s)
      else case free_slot s of
        None \<Rightarrow> Some (None, print_string (cstr ''[ERROR] No free task slot'' @ [0x0A]) s)
      | Some i \<Rightarrow>
          let s = set_task i (\<lambda>t. t\<lparr>pid := next_pid s\<rparr>) s;
              s = s\<lparr>next_pid := next_pid s + 1\<rparr>;
              s = set_task i (\<lambda>t. t\<lparr>state := TASK_READY, priority := 10\<rparr>) s;
              s = set_task i (\<lambda>t. t\<lparr>parent_pid :=
                    (case current_task s of Some c \<Rightarrow> pid (tasks s ! c) | None \<Rightarrow> INVALID_PID)\<rparr>) s;
              s = set_task i (\<lambda>t. t\<lparr>eip := entry_point, name := copy_name nm (name t)\<rparr>) s
          in map_option (\<lambda>s.
               let s = s\<lparr>task_count := task_count s + 1\<rparr>;
                   s = print_string (cstr ''[TASK] Created task: '') s;
                   s = print_string nm s
               in (Some i, print_string [0x0A] s)) (append_task i s))"

text \<open>
  The loop of \<open>schedule\<close>: move on while the task is neither ready nor running, wrap to the head
  of the list at its end, stop on reaching the current task.
\<close>

definition following :: "task list \<Rightarrow> nat option \<Rightarrow> nat \<Rightarrow> nat option" where
  "following ts first i = (if next_task (ts ! i) = None then first else next_task (ts ! i))"

partial_function (option) schedule_loop ::
  "task list \<Rightarrow> nat option \<Rightarrow> nat \<Rightarrow> nat option \<Rightarrow> nat option option" where
  "schedule_loop ts first cur nt =
     (if nt = None then Some None
      else if state (ts ! the nt) \<noteq> TASK_READY \<and> state (ts ! the nt) \<noteq> TASK_RUNNING then
        if following ts first (the nt) = Some cur then Some (following ts first (the nt))
        else schedule_loop ts first cur (following ts first (the nt))
      else Some nt)"

definition schedule :: "'a tasking_scheme \<Rightarrow> 'a tasking_scheme option" where
  "schedule s =
     (case current_task s of
        None \<Rightarrow> Some s
      | Some prev_task \<Rightarrow>
          if next_of s prev_task = None then Some s
          else case schedule_loop (tasks s) (task_list s) prev_task (next_of s prev_task) of
            None \<Rightarrow> None
          | Some None \<Rightarrow> Some s
          | Some (Some nt) \<Rightarrow>
              if nt = prev_task then Some s
              else
                let s = s\<lparr>current_task := Some nt\<rparr>;
                    s = set_task nt (\<lambda>t. t\<lparr>state := TASK_RUNNING\<rparr>) s
                in Some (if state_of s prev_task = TASK_RUNNING
                         then set_task prev_task (\<lambda>t. t\<lparr>state := TASK_READY\<rparr>) s else s))"

definition task_exit :: "int \<Rightarrow> 'a tasking_scheme \<Rightarrow> 'a tasking_scheme option" where
  "task_exit exit_code s =
     (case current_task s of
        None \<Rightarrow> Some s
      | Some c \<Rightarrow>
          let s = set_task c (\<lambda>t. t\<lparr>state := TASK_ZOMBIE\<rparr>) s;
              s = print_string (cstr ''[TASK] Task '') s;
              s = print_string (name (tasks s ! c)) s;
              s = print_string (cstr '' exited'' @ [0x0A]) s
          in schedule s)"

definition task_sleep :: "int \<Rightarrow> 'a tasking_scheme \<Rightarrow> 'a tasking_scheme option" where
  "task_sleep ticks s =
     (case current_task s of
        None \<Rightarrow> Some s
      | Some c \<Rightarrow> schedule (set_task c (\<lambda>t. t\<lparr>state := TASK_SLEEPING\<rparr>) s))"

definition task_wake :: "nat option \<Rightarrow> 'a tasking_scheme \<Rightarrow> 'a tasking_scheme" where
  "task_wake t s =
     (case t of
        None \<Rightarrow> s
      | Some i \<Rightarrow> if state_of s i = TASK_SLEEPING then set_task i (\<lambda>t. t\<lparr>state := TASK_READY\<rparr>) s else s)"

definition find_task :: "int \<Rightarrow> 'a tasking_scheme \<Rightarrow> nat option option" where
  "find_task p s = list_find (next_of s) (\<lambda>i. pid (tasks s ! i) = p) (task_list s)"

section \<open>Reports\<close>

definition state_name :: "int \<Rightarrow> cstring" where
  "state_name st =
     (if st = TASK_RUNNING then cstr ''RUNNING''
      else if st = TASK_READY then cstr ''READY''
      else if st = TASK_SLEEPING then cstr ''SLEEPING''
      else if st = TASK_ZOMBIE then cstr ''ZOMBIE''
      else cstr ''UNKNOWN'')"

text \<open>The body of the loop of \<open>print_task_info\<close>; the two-digit form is used for \<open>pid \<ge> 10\<close>, where
  C's division and HOL's agree.\<close>

definition print_task_line :: "task \<Rightarrow> 'a tasking_scheme \<Rightarrow> 'a tasking_scheme" where
  "print_task_line t s =
     (let s = print_string (cstr ''  PID: '') s;
          s = (if pid t < 10 then print_char (word_of_int (48 + pid t)) s
               else print_char (word_of_int (48 + pid t mod 10)) (print_char (word_of_int (48 + pid t div 10)) s));
          s = print_string (cstr '' Name: '') s;
          s = print_string (name t) s;
          s = print_string (cstr '' State: '') s;
          s = print_string (state_name (state t)) s
      in print_string [0x0A] s)"

definition print_task_info :: "'a tasking_scheme \<Rightarrow> 'a tasking_scheme option" where
  "print_task_info s =
     (let s = print_string (0x0A # cstr ''=== Task Information ==='' @ [0x0A]) s;
          s = print_string (cstr ''Current task: '') s;
          s = (case current_task s of
                 Some c \<Rightarrow> print_string (name (tasks s ! c)) s
               | None \<Rightarrow> print_string (cstr ''None'') s);
          s = print_string [0x0A] s;
          s = print_string (cstr ''Task list:'' @ [0x0A]) s
      in map_option (print_string (cstr ''========================'' @ [0x0A]))
           (list_fold (next_of s) (\<lambda>i. print_task_line (tasks s ! i)) (task_list s) s))"

definition print_task_info_by_pid :: "int \<Rightarrow> 'a tasking_scheme \<Rightarrow> 'a tasking_scheme option" where
  "print_task_info_by_pid p s =
     (case find_task p s of
        None \<Rightarrow> None
      | Some None \<Rightarrow>
          let s = print_string (cstr ''[ERROR] Task with PID '') s;
              s = print_number (word_of_int p) s
          in Some (print_string (cstr '' not found'' @ [0x0A]) s)
      | Some (Some i) \<Rightarrow>
          let t = tasks s ! i;
              s = print_string (cstr ''Task PID: '') s;
              s = print_number (word_of_int (pid t)) s;
              s = print_string (cstr '' Name: '') s;
              s = print_string (name t) s;
              s = print_string (cstr '' State: '') s;
              s = print_string (state_name (state t)) s
          in Some (print_string [0x0A] s))"

text \<open>The context is not saved: both bodies are empty in the source.\<close>

definition save_task_context :: "nat \<Rightarrow> 'a tasking_scheme \<Rightarrow> 'a tasking_scheme" where
  "save_task_context t s = s"

definition restore_task_context :: "nat option \<Rightarrow> 'a tasking_scheme \<Rightarrow> 'a tasking_scheme" where
  "restore_task_context t s = s"

definition switch_to_task :: "nat option \<Rightarrow> 'a tasking_scheme \<Rightarrow> 'a tasking_scheme" where
  "switch_to_task t s =
     (let s = (case current_task s of Some c \<Rightarrow> save_task_context c s | None \<Rightarrow> s);
          s = s\<lparr>current_task := t\<rparr>
      in restore_task_context t s)"

section \<open>Frame\<close>

interpretation current_task_frame: console_frame current_task by unfold_locales simp_all
interpretation task_list_frame: console_frame task_list by unfold_locales simp_all
interpretation next_pid_frame: console_frame next_pid by unfold_locales simp_all
interpretation tasks_frame: console_frame tasks by unfold_locales simp_all
interpretation task_count_frame: console_frame task_count by unfold_locales simp_all

lemma set_task_fields [simp]:
  "current_task (set_task i f s) = current_task s" "task_list (set_task i f s) = task_list s"
  "next_pid (set_task i f s) = next_pid s" "task_count (set_task i f s) = task_count s"
  "length (tasks (set_task i f s)) = length (tasks s)"
  "tasks (set_task i f s) = (tasks s)[i := f (tasks s ! i)]"
  by (simp_all add: set_task_def)

section \<open>The task table invariant\<close>

text \<open>
  Slots are given out in order and never returned, so the task list runs through the first \<open>n\<close>
  slots: \<open>task_inv s n c\<close> says that there are \<open>n\<close> tasks and task \<open>c\<close> is the current one. Process
  identifiers are distinct and below the next one to be given out, only the current task can be
  in state \<open>TASK_RUNNING\<close>, names end with a NUL, and the unused slots are ready to be linked.
\<close>

definition valid_states :: "int set" where
  "valid_states = {TASK_RUNNING, TASK_READY, TASK_SLEEPING, TASK_ZOMBIE}"

definition task_inv :: "'a tasking_scheme \<Rightarrow> nat \<Rightarrow> nat \<Rightarrow> bool" where
  "task_inv s n c \<longleftrightarrow> length (tasks s) = 64 \<and> 1 \<le> n \<and> n \<le> 64
     \<and> task_count s = int n \<and> task_list s = Some 0 \<and> current_task s = Some c \<and> c < n
     \<and> (\<forall>i < 64. length (name (tasks s ! i)) = 16 \<and> name (tasks s ! i) ! 15 = 0)
     \<and> (\<forall>i < n. next_of s i = (if Suc i < n then Some (Suc i) else None))
     \<and> (\<forall>i < 64. n \<le> i \<longrightarrow> next_of s i = None \<and> pid (tasks s ! i) = INVALID_PID)
     \<and> (\<forall>i < n. 0 \<le> pid (tasks s ! i) \<and> pid (tasks s ! i) < next_pid s)
     \<and> inj_on (\<lambda>i. pid (tasks s ! i)) {..<n}
     \<and> (\<forall>i < n. state_of s i \<in> valid_states \<and> (state_of s i = TASK_RUNNING \<longrightarrow> i = c))"

definition tasks_ok :: "'a tasking_scheme \<Rightarrow> bool" where
  "tasks_ok s \<longleftrightarrow> (\<exists>n c. task_inv s n c)"

lemma task_invD:
  assumes "task_inv s n c"
  shows "length (tasks s) = 64" "1 \<le> n" "n \<le> 64" "task_count s = int n" "task_list s = Some 0"
    "current_task s = Some c" "c < n"
    "i < n \<Longrightarrow> next_of s i = (if Suc i < n then Some (Suc i) else None)"
    "i < n \<Longrightarrow> 0 \<le> pid (tasks s ! i) \<and> pid (tasks s ! i) < next_pid s"
    "inj_on (\<lambda>i. pid (tasks s ! i)) {..<n}"
    "i < n \<Longrightarrow> state_of s i \<in> valid_states"
    "i < n \<Longrightarrow> state_of s i = TASK_RUNNING \<Longrightarrow> i = c"
    "i < 64 \<Longrightarrow> length (name (tasks s ! i)) = 16 \<and> name (tasks s ! i) ! 15 = 0"
    "i < 64 \<Longrightarrow> n \<le> i \<Longrightarrow> next_of s i = None \<and> pid (tasks s ! i) = INVALID_PID"
  using assms by (auto simp: task_inv_def)

lemma task_inv_unique: "task_inv s n c \<Longrightarrow> task_inv s m d \<Longrightarrow> n = m \<and> c = d"
  by (simp add: task_inv_def)

lemma task_inv_cong:
  assumes "tasks t = tasks s" "current_task t = current_task s" "task_list t = task_list s"
    "next_pid t = next_pid s" "task_count t = task_count s"
  shows "task_inv t n c = task_inv s n c"
  using assms by (simp add: task_inv_def)

interpretation tasks_ok_frame: console_frame tasks_ok
  by unfold_locales (simp_all add: tasks_ok_def task_inv_def)

lemma state_constants [simp]:
  "TASK_READY \<noteq> TASK_RUNNING" "TASK_RUNNING \<noteq> TASK_READY" "TASK_SLEEPING \<noteq> TASK_RUNNING"
  "TASK_SLEEPING \<noteq> TASK_READY" "TASK_ZOMBIE \<noteq> TASK_RUNNING" "TASK_ZOMBIE \<noteq> TASK_READY"
  "TASK_ZOMBIE \<noteq> TASK_SLEEPING" "TASK_READY \<noteq> TASK_SLEEPING" "TASK_RUNNING \<noteq> TASK_ZOMBIE"
  "TASK_RUNNING \<in> valid_states" "TASK_READY \<in> valid_states" "TASK_SLEEPING \<in> valid_states"
  "TASK_ZOMBIE \<in> valid_states"
  by (simp_all add: TASK_RUNNING_def TASK_READY_def TASK_SLEEPING_def TASK_ZOMBIE_def valid_states_def)

text \<open>Changing the state of one task.\<close>

lemma set_state_inv:
  assumes "task_inv s n c" "st \<in> valid_states" "st = TASK_RUNNING \<Longrightarrow> i = c"
  shows "task_inv (set_task i (\<lambda>t. t\<lparr>state := st\<rparr>) s) n c"
proof -
  let ?t = "set_task i (\<lambda>t. t\<lparr>state := st\<rparr>) s"
  have same: "pid (tasks ?t ! j) = pid (tasks s ! j)" "next_of ?t j = next_of s j"
    "name (tasks ?t ! j) = name (tasks s ! j)" for j
    unfolding set_task_fields by (simp_all add: nth_update_field [where f = "\<lambda>t. t\<lparr>state := st\<rparr>"])
  have "state_of ?t j \<in> valid_states \<and> (state_of ?t j = TASK_RUNNING \<longrightarrow> j = c)" if "j < n" for j
    using task_invD(1,3,11,12) [OF assms(1)] assms(2,3) that by (cases "i = j") auto
  then show ?thesis using assms(1) unfolding task_inv_def same by simp
qed

lemma current_task_inv:
  assumes "task_inv s n c" "d < n" "state_of s c \<noteq> TASK_RUNNING \<or> d = c"
  shows "task_inv (s\<lparr>current_task := Some d\<rparr>) n d"
  using assms by (auto simp: task_inv_def)

lemma path_tasks:
  assumes "task_inv s n c"
  shows "path (next_of s) (task_list s) [0..<n]"
proof -
  have "path (next_of s) (if i < n then Some i else None) [i..<n]" if "i \<le> n" for i
    using that
  proof (induction "n - i" arbitrary: i)
    case (Suc k)
    then have "i < n" "path (next_of s) (if Suc i < n then Some (Suc i) else None) [Suc i..<n]" by simp_all
    then show ?case using task_invD(8) [OF assms, of i] by (simp add: upt_conv_Cons)
  qed simp
  from this [of 0] show ?thesis using task_invD(2,5) [OF assms] by simp
qed

section \<open>The scheduler's choice\<close>

definition runnable :: "'a tasking_scheme \<Rightarrow> nat \<Rightarrow> bool" where
  "runnable s i \<longleftrightarrow> state_of s i = TASK_READY \<or> state_of s i = TASK_RUNNING"

text \<open>Round robin: the first runnable task after the current one, wrapping at the end.\<close>

definition round_robin :: "'a tasking_scheme \<Rightarrow> nat \<Rightarrow> nat \<Rightarrow> nat option" where
  "round_robin s n c = find (runnable s) ([Suc c..<n] @ [0..<c])"

lemma schedule_loop_before:
  assumes "task_inv s n c" "i < c"
  shows "schedule_loop (tasks s) (task_list s) c (Some i)
    = Some (Some (case find (runnable s) [i..<c] of Some j \<Rightarrow> j | None \<Rightarrow> c))"
  using assms(2)
proof (induction "c - i" arbitrary: i)
  case (Suc k)
  have f: "following (tasks s) (task_list s) i = Some (Suc i)"
    using task_invD(7) [OF assms(1)] task_invD(8) [OF assms(1), of i] Suc.prems by (simp add: following_def)
  show ?case
  proof (cases "runnable s i")
    case True
    then show ?thesis using Suc.prems by (subst schedule_loop.simps) (auto simp: runnable_def upt_conv_Cons)
  next
    case False
    then have "schedule_loop (tasks s) (task_list s) c (Some i)
        = (if Suc i = c then Some (Some c) else schedule_loop (tasks s) (task_list s) c (Some (Suc i)))"
      by (subst schedule_loop.simps) (auto simp: runnable_def f)
    then show ?thesis using Suc False by (cases "Suc i = c") (auto simp: upt_conv_Cons)
  qed
qed simp

lemma schedule_loop_after:
  assumes "task_inv s n c" "c < i" "i < n"
  shows "schedule_loop (tasks s) (task_list s) c (Some i)
    = Some (Some (case find (runnable s) ([i..<n] @ [0..<c]) of Some j \<Rightarrow> j | None \<Rightarrow> c))"
  using assms(2,3)
proof (induction "n - i" arbitrary: i)
  case (Suc k)
  have f: "following (tasks s) (task_list s) i = Some (if Suc i < n then Suc i else 0)"
    using task_invD(5) [OF assms(1)] task_invD(8) [OF assms(1), of i] Suc.prems by (simp add: following_def)
  show ?case
  proof (cases "runnable s i")
    case True
    then show ?thesis using Suc.prems by (subst schedule_loop.simps) (auto simp: runnable_def upt_conv_Cons)
  next
    case False
    define j where "j = (if Suc i < n then Suc i else 0)"
    have "schedule_loop (tasks s) (task_list s) c (Some i)
        = (if j = c then Some (Some c) else schedule_loop (tasks s) (task_list s) c (Some j))"
      using False by (subst schedule_loop.simps) (auto simp: runnable_def f j_def)
    moreover have "[i..<n] = i # [Suc i..<n]" using Suc.prems by (simp add: upt_conv_Cons)
    ultimately show ?thesis
      using Suc False schedule_loop_before [OF assms(1), of 0]
      by (cases "Suc i < n"; cases "c = 0") (auto simp: j_def)
  qed
qed simp

text \<open>The switch itself.\<close>

definition dispatch_task :: "'a tasking_scheme \<Rightarrow> nat \<Rightarrow> nat \<Rightarrow> 'a tasking_scheme" where
  "dispatch_task s c j =
     (let s = set_task j (\<lambda>t. t\<lparr>state := TASK_RUNNING\<rparr>) (s\<lparr>current_task := Some j\<rparr>)
      in if state_of s c = TASK_RUNNING then set_task c (\<lambda>t. t\<lparr>state := TASK_READY\<rparr>) s else s)"

lemma round_robin_Some:
  assumes "round_robin s n c = Some j" "c < n"
  shows "j < n" "j \<noteq> c" "runnable s j"
  using assms unfolding round_robin_def by (auto dest!: find_SomeD)

lemma schedule_eq:
  assumes "task_inv s n c"
  shows "schedule s = Some (if Suc c < n
    then (case round_robin s n c of None \<Rightarrow> s | Some j \<Rightarrow> dispatch_task s c j) else s)"
proof (cases "Suc c < n")
  case True
  then have "next_of s c = Some (Suc c)" using task_invD(7) [OF assms] task_invD(8) [OF assms, of c] by simp
  then have *: "schedule s = (case schedule_loop (tasks s) (task_list s) c (Some (Suc c)) of
      None \<Rightarrow> None | Some None \<Rightarrow> Some s
    | Some (Some j) \<Rightarrow> if j = c then Some s else Some (dispatch_task s c j))"
    using task_invD(6) [OF assms] by (simp add: schedule_def dispatch_task_def Let_def split: option.split)
  show ?thesis
    using True round_robin_Some(2) [of s n c] task_invD(7) [OF assms]
    unfolding * schedule_loop_after [OF assms lessI True] round_robin_def [symmetric]
    by (cases "round_robin s n c") auto
next
  case False
  then show ?thesis using task_invD(6,7) [OF assms] task_invD(8) [OF assms, of c] by (simp add: schedule_def)
qed

lemma set_task_current: "set_task i f (s\<lparr>current_task := v\<rparr>) = (set_task i f s)\<lparr>current_task := v\<rparr>"
  by (simp add: set_task_def)

lemma set_task_swap:
  "i \<noteq> j \<Longrightarrow> set_task i f (set_task j g s) = set_task j g (set_task i f s)"
  by (simp add: set_task_def list_update_swap)

lemma dispatch_inv:
  assumes inv: "task_inv s n c" and j: "j < n" "j \<noteq> c"
  shows "task_inv (dispatch_task s c j) n j"
proof -
  define u where "u = (if state_of s c = TASK_RUNNING then set_task c (\<lambda>t. t\<lparr>state := TASK_READY\<rparr>) s else s)"
  have len: "length (tasks s) = 64" "c < 64" using task_invD(1,3,7) [OF inv] by auto
  have u: "task_inv u n c" "state_of u c \<noteq> TASK_RUNNING"
    using set_state_inv [OF inv, of TASK_READY c] inv len by (auto simp: u_def)
  from current_task_inv [OF u(1) j(1)] u(2) have "task_inv (u\<lparr>current_task := Some j\<rparr>) n j" by blast
  from set_state_inv [OF this, of TASK_RUNNING j]
  have "task_inv (set_task j (\<lambda>t. t\<lparr>state := TASK_RUNNING\<rparr>) (u\<lparr>current_task := Some j\<rparr>)) n j" by simp
  moreover have "dispatch_task s c j = set_task j (\<lambda>t. t\<lparr>state := TASK_RUNNING\<rparr>) (u\<lparr>current_task := Some j\<rparr>)"
    using j by (simp add: dispatch_task_def Let_def u_def set_task_current set_task_swap)
  ultimately show ?thesis by simp
qed

lemma schedule_inv:
  assumes "task_inv s n c"
  shows "\<exists>t d. schedule s = Some t \<and> task_inv t n d"
proof (cases "Suc c < n \<and> round_robin s n c \<noteq> None")
  case True
  then obtain j where j: "round_robin s n c = Some j" by blast
  from dispatch_inv [OF assms round_robin_Some(1,2) [OF j task_invD(7) [OF assms]]]
  show ?thesis using schedule_eq [OF assms] j True by auto
next
  case False
  then have "schedule s = Some s" using schedule_eq [OF assms] by auto
  then show ?thesis using assms by blast
qed

section \<open>What the operations leave alone\<close>

text \<open>An observer of the state that looks neither at the task data nor at the screen.\<close>

locale task_frame = console_frame f for f :: "'a tasking_scheme \<Rightarrow> 'b" +
  assumes f_tasks: "\<And>s v. f (s\<lparr>tasks := v\<rparr>) = f s"
    and f_current_task: "\<And>s v. f (s\<lparr>current_task := v\<rparr>) = f s"
    and f_task_list: "\<And>s v. f (s\<lparr>task_list := v\<rparr>) = f s"
    and f_next_pid: "\<And>s v. f (s\<lparr>next_pid := v\<rparr>) = f s"
    and f_task_count: "\<And>s v. f (s\<lparr>task_count := v\<rparr>) = f s"
begin

lemma f_set_task [simp]: "f (set_task i g s) = f s"
  by (simp add: set_task_def f_tasks)

lemma f_init_task_manager [simp]: "f (init_task_manager s) = f s"
proof -
  have "f (fold (\<lambda>i. set_task i clear_task) is s) = f s" for "is" and s
    by (induction "is" arbitrary: s) simp_all
  then show ?thesis by (simp add: init_task_manager_def Let_def f_current_task f_task_list f_task_count)
qed

lemma f_append_task: "append_task i s = Some t \<Longrightarrow> f t = f s"
  by (auto simp: append_task_def f_task_list split: option.splits)

lemma f_create_task: "create_task nm e s = Some (r, t) \<Longrightarrow> f t = f s"
  by (auto simp: create_task_def Let_def f_task_count f_next_pid dest!: f_append_task
      split: option.splits if_splits)

lemma f_schedule: "schedule s = Some t \<Longrightarrow> f t = f s"
  by (auto simp: schedule_def Let_def f_current_task split: option.splits if_splits)

lemma f_task_exit: "task_exit e s = Some t \<Longrightarrow> f t = f s"
  by (auto simp: task_exit_def Let_def dest!: f_schedule split: option.splits)

lemma f_task_sleep: "task_sleep k s = Some t \<Longrightarrow> f t = f s"
  by (auto simp: task_sleep_def dest!: f_schedule split: option.splits)

lemma f_task_wake [simp]: "f (task_wake i s) = f s"
  by (simp add: task_wake_def split: option.splits)

lemma f_switch_to_task [simp]: "f (switch_to_task i s) = f s"
  by (simp add: switch_to_task_def Let_def f_current_task save_task_context_def
      restore_task_context_def split: option.splits)

end

section \<open>Initialisation and creation\<close>

lemma length_copy_name_loop [simp]: "length (copy_name_loop i src dst) = length dst"
  by (induction i src dst rule: copy_name_loop.induct) simp_all

lemma copy_name_nul:
  "length dst = 16 \<Longrightarrow> length (copy_name src dst) = 16 \<and> copy_name src dst ! 15 = 0"
  by (simp add: copy_name_def)

lemma copy_name_loop_zeros:
  "length xs = i \<Longrightarrow> i + k = 15 \<Longrightarrow> copy_name_loop i src (xs @ replicate (Suc k) 0)
     = xs @ take k (until_nul src) @ replicate (Suc k - length (take k (until_nul src))) 0"
proof (induction src arbitrary: i k xs)
  case (Cons c src)
  show ?case
  proof (cases "i < 15 \<and> c \<noteq> 0")
    case True
    then obtain l where k: "k = Suc l" using Cons.prems by (cases k) auto
    have "copy_name_loop i (c # src) (xs @ replicate (Suc k) 0)
        = copy_name_loop (i + 1) src ((xs @ [c]) @ replicate (Suc l) 0)"
      using Cons.prems True k by auto
    also have "\<dots> = (xs @ [c]) @ take l (until_nul src) @ replicate (Suc l - length (take l (until_nul src))) 0"
      using Cons.prems True k by (intro Cons.IH) simp_all
    finally show ?thesis using True by (simp add: until_nul_def k)
  next
    case False
    then show ?thesis using Cons.prems by (cases k) (auto simp: until_nul_def)
  qed
qed (simp add: until_nul_def)

lemma copy_name_zeros: "until_nul (copy_name src (replicate 16 0)) = take 15 (until_nul src)"
proof -
  let ?p = "take 15 (until_nul src)"
  have "copy_name_loop 0 src (replicate 16 0) = ?p @ replicate (16 - length ?p) 0"
    using copy_name_loop_zeros [of "[]" 0 15 src] by simp
  moreover have "(?p @ replicate (16 - length ?p) 0)[15 := 0] = ?p @ 0 # replicate (15 - length ?p) 0"
    by (rule nth_equalityI) (auto simp: nth_append nth_list_update nth_Cons' Suc_diff_le)
  moreover have "0 \<notin> set ?p" using until_nul_nonzero [of src] by (meson in_set_takeD)
  ultimately show ?thesis by (simp add: copy_name_def until_nul_append)
qed

text \<open>The static task array before the first call, as C initialises it or as earlier calls left it.\<close>

definition static_tasks :: "'a tasking_scheme \<Rightarrow> bool" where
  "static_tasks s \<longleftrightarrow> length (tasks s) = 64 \<and> 1 \<le> next_pid s
     \<and> (\<forall>i < 64. length (name (tasks s ! i)) = 16 \<and> name (tasks s ! i) ! 15 = 0)"

lemma fold_set_task:
  "k \<le> length (tasks s) \<Longrightarrow>
   fold (\<lambda>i. set_task i f) [0..<k] s = s\<lparr>tasks := map f (take k (tasks s)) @ drop k (tasks s)\<rparr>"
proof (induction k)
  case (Suc k)
  have "drop k (tasks s) = tasks s ! k # drop (Suc k) (tasks s)" using Suc.prems by (simp add: Cons_nth_drop_Suc)
  then show ?case using Suc by (simp add: set_task_def take_Suc_conv_app_nth list_update_append nth_append)
qed simp

lemma init_task_inv:
  assumes "static_tasks s"
  shows "task_inv (init_task_manager s) 1 0"
proof -
  let ?c = "map clear_task (tasks s)"
  let ?k = "(?c ! 0)\<lparr>pid := 0, state := TASK_RUNNING, priority := 0, parent_pid := INVALID_PID\<rparr>"
  let ?k' = "?k\<lparr>name := copy_name (cstr ''kernel'') (name ?k)\<rparr>"
  have st: "length (tasks s) = 64" "1 \<le> next_pid s" using assms by (simp_all add: static_tasks_def)
  then have ts: "tasks (init_task_manager s) = ?c[0 := ?k']"
    by (simp add: init_task_manager_def Let_def fold_set_task MAX_TASKS_def)
  have rest: "next_pid (init_task_manager s) = next_pid s" "task_list (init_task_manager s) = Some 0"
    "current_task (init_task_manager s) = Some 0" "task_count (init_task_manager s) = 1"
    using st by (simp_all add: init_task_manager_def Let_def fold_set_task MAX_TASKS_def)
  have nm: "length (name (tasks s ! i)) = 16 \<and> name (tasks s ! i) ! 15 = 0" if "i < 64" for i
    using assms that by (simp add: static_tasks_def)
  have i: "?c[0 := ?k'] ! i = (if i = 0 then ?k' else clear_task (tasks s ! i))" if "i < 64" for i
    using that st by simp
  show ?thesis
    unfolding task_inv_def ts rest using st nm copy_name_nul [of "name (tasks s ! 0)"]
    by (auto simp: i clear_task_def nth_list_update inj_on_def)
qed

lemma free_slot_inv:
  assumes "task_inv s n c"
  shows "free_slot s = (if n < 64 then Some n else None)"
proof -
  have used: "pid (tasks s ! i) \<noteq> INVALID_PID" if "i < n" for i
    using task_invD(9) [OF assms that] by (auto simp: INVALID_PID_def)
  show ?thesis
  proof (cases "n < 64")
    case True
    then have "[0..<64] = [0..<n] @ n # [Suc n..<64]"
      using upt_add_eq_append [of 0 n "64 - n"] upt_conv_Cons [of n 64] by simp
    moreover have "find (\<lambda>i. pid (tasks s ! i) = INVALID_PID) ([0..<n] @ n # xs) = Some n" for xs
      using used task_invD(14) [OF assms True] by (auto simp: find_append find_None_iff split: option.split dest: find_SomeD)
    ultimately show ?thesis using True unfolding free_slot_def MAX_TASKS_def by metis
  next
    case False
    then show ?thesis using used task_invD(3) [OF assms]
      by (auto simp: free_slot_def MAX_TASKS_def find_None_iff)
  qed
qed

definition new_task :: "cstring \<Rightarrow> u32 \<Rightarrow> 'a tasking_scheme \<Rightarrow> nat \<Rightarrow> nat \<Rightarrow> task" where
  "new_task nm entry s n c = (tasks s ! n)\<lparr>pid := next_pid s, state := TASK_READY, priority := 10,
     parent_pid := pid (tasks s ! c), eip := entry, name := copy_name nm (name (tasks s ! n))\<rparr>"

lemma append_task_eq:
  assumes inv: "task_inv s n c" and "task_list u = Some 0" "\<And>i. i < n \<Longrightarrow> next_of u i = next_of s i"
  shows "append_task j u = Some (set_task (n - 1) (\<lambda>t. t\<lparr>next_task := Some j\<rparr>) u)"
proof -
  have p: "path (next_of u) (Some 0) [0..<n]"
    using path_cong [OF path_tasks [OF inv], of "next_of u"] assms(3) task_invD(5) [OF inv] by simp
  have nx: "next_of u i = (if Suc i < n then Some (Suc i) else None)" if "i < n" for i
    using assms(3) that task_invD(8) [OF inv that] by simp
  have n: "[0..<n] = [0..<n - 1] @ [n - 1]" using task_invD(2) [OF inv] by (cases n) auto
  have "find (\<lambda>p. next_of u p = None) [0..<n - 1] = None" using nx by (auto simp: find_None_iff)
  then have "find (\<lambda>p. next_of u p = None) [0..<n] = Some (n - 1)"
    unfolding n find_append using nx [of "n - 1"] task_invD(2) [OF inv] by simp
  then show ?thesis using list_find_path [OF p] assms(2) by (simp add: append_task_def)
qed

lemma create_task_eq:
  assumes inv: "task_inv s n c" and n: "n < 64"
  shows "\<exists>t. create_task nm e s = Some (Some n, t)
    \<and> tasks t = (tasks s)[n := new_task nm e s n c, n - 1 := (tasks s ! (n - 1))\<lparr>next_task := Some n\<rparr>]
    \<and> next_pid t = next_pid s + 1 \<and> task_count t = task_count s + 1
    \<and> current_task t = current_task s \<and> task_list t = task_list s"
proof -
  define u where "u = s\<lparr>tasks := (tasks s)[n := new_task nm e s n c], next_pid := next_pid s + 1\<rparr>"
  have c: "c \<noteq> n" and len: "length (tasks s) = 64" and "1 \<le> n" using task_invD(1,2,7) [OF inv] by auto
  have "next_of u i = next_of s i" if "i < n" for i using that by (simp add: u_def)
  with append_task_eq [OF inv, of u n] have ap:
    "append_task n u = Some (set_task (n - 1) (\<lambda>t. t\<lparr>next_task := Some n\<rparr>) u)"
    using task_invD(5) [OF inv] by (simp add: u_def)
  have "\<not> int MAX_TASKS \<le> task_count s" "free_slot s = Some n"
    using task_invD(4) [OF inv] free_slot_inv [OF inv] n by (simp_all add: MAX_TASKS_def)
  moreover have "set_task n (\<lambda>t. t\<lparr>eip := e, name := copy_name nm (name t)\<rparr>)
      (set_task n (\<lambda>t. t\<lparr>parent_pid := pid (tasks s ! c)\<rparr>)
      (set_task n (\<lambda>t. t\<lparr>state := TASK_READY, priority := 10\<rparr>)
      ((set_task n (\<lambda>t. t\<lparr>pid := next_pid s\<rparr>) s)\<lparr>next_pid := next_pid s + 1\<rparr>))) = u"
    using len n by (simp add: set_task_def u_def new_task_def)
  ultimately show ?thesis
    using ap c len n task_invD(6) [OF inv] \<open>1 \<le> n\<close>
    by (simp add: create_task_def Let_def u_def)
qed

lemma create_task_inv:
  assumes inv: "task_inv s n c" and n: "n < 64"
  shows "\<exists>t. create_task nm e s = Some (Some n, t) \<and> task_inv t (Suc n) c"
proof -
  obtain t where t: "create_task nm e s = Some (Some n, t)"
    "tasks t = (tasks s)[n := new_task nm e s n c, n - 1 := (tasks s ! (n - 1))\<lparr>next_task := Some n\<rparr>]"
    "next_pid t = next_pid s + 1" "task_count t = task_count s + 1"
    "current_task t = current_task s" "task_list t = task_list s"
    using create_task_eq [OF assms] by blast
  note d = task_invD [OF inv]
  have ti: "tasks t ! i = (if i = n then new_task nm e s n c
      else if i = n - 1 then (tasks s ! i)\<lparr>next_task := Some n\<rparr> else tasks s ! i)" if "i < 64" for i
    using that d(1,2) n by (auto simp: t(2) nth_list_update)
  have nn: "next_of s n = None" "length (name (tasks s ! n)) = 16" using d(13,14) n by auto
  have pids: "pid (tasks t ! i) = (if i = n then next_pid s else pid (tasks s ! i))" if "i < 64" for i
    using ti [OF that] by (simp add: new_task_def)
  have np: "0 \<le> next_pid s" using d(9) [of c] d(7) by force
  have "inj_on (\<lambda>i. pid (tasks t ! i)) {..<Suc n}"
  proof (rule inj_onI)
    fix i j assume ij: "i \<in> {..<Suc n}" "j \<in> {..<Suc n}" "pid (tasks t ! i) = pid (tasks t ! j)"
    have *: "(if i = n then next_pid s else pid (tasks s ! i)) = (if j = n then next_pid s else pid (tasks s ! j))"
      using pids [of i] pids [of j] ij n by simp
    show "i = j"
      using * ij d(9) [of i] d(9) [of j] inj_onD [OF d(10), of i j] by (auto simp: less_Suc_eq split: if_splits)
  qed
  moreover have "next_of t i = (if Suc i < Suc n then Some (Suc i) else None)" if "i < Suc n" for i
    using ti [of i] that n nn d(8) [of i] d(2) by (auto simp: new_task_def)
  moreover have "next_of t i = None \<and> pid (tasks t ! i) = INVALID_PID" if "i < 64" "Suc n \<le> i" for i
    using ti [of i] that d(14) [of i] by auto
  moreover have "0 \<le> pid (tasks t ! i) \<and> pid (tasks t ! i) < next_pid t" if "i < Suc n" for i
    using pids [of i] that n d(9) [of i] np t(3) by (auto simp: less_Suc_eq)
  moreover have "state_of t i \<in> valid_states \<and> (state_of t i = TASK_RUNNING \<longrightarrow> i = c)" if "i < Suc n" for i
    using ti [of i] that n d(11) [of i] d(12) [of i] by (auto simp: new_task_def)
  moreover have "length (name (tasks t ! i)) = 16 \<and> name (tasks t ! i) ! 15 = 0" if "i < 64" for i
    using ti [of i] that d(13) [of i] copy_name_nul [OF nn(2)] by (auto simp: new_task_def)
  ultimately have "task_inv t (Suc n) c"
    using d(1,4,5,6,7) n t unfolding task_inv_def by simp
  then show ?thesis using t(1) by blast
qed

lemma create_task_full:
  assumes "task_inv s 64 c"
  shows "create_task nm e s = Some (None, print_string (cstr ''[ERROR] Maximum tasks reached'' @ [0x0A]) s)"
  using task_invD(4) [OF assms] by (simp add: create_task_def MAX_TASKS_def)

section \<open>Ending, sleeping, waking, searching\<close>

lemma print_task_inv [simp]: "task_inv (print_string str s) n c = task_inv s n c"
  by (rule task_inv_cong) simp_all

lemma task_exit_inv:
  assumes "task_inv s n c"
  shows "\<exists>t d. task_exit e s = Some t \<and> task_inv t n d"
proof -
  have "task_inv (set_task c (\<lambda>t. t\<lparr>state := TASK_ZOMBIE\<rparr>) s) n c"
    using set_state_inv [OF assms, of TASK_ZOMBIE c] by simp
  then show ?thesis using task_invD(6) [OF assms] unfolding task_exit_def Let_def
    by (simp del: ex_simps) (intro schedule_inv, simp)
qed

lemma task_sleep_inv:
  assumes "task_inv s n c"
  shows "\<exists>t d. task_sleep k s = Some t \<and> task_inv t n d"
proof -
  have "task_inv (set_task c (\<lambda>t. t\<lparr>state := TASK_SLEEPING\<rparr>) s) n c"
    using set_state_inv [OF assms, of TASK_SLEEPING c] by simp
  from schedule_inv [OF this] show ?thesis using task_invD(6) [OF assms] by (simp add: task_sleep_def)
qed

lemma task_wake_inv: "task_inv s n c \<Longrightarrow> task_inv (task_wake i s) n c"
  by (cases i) (auto simp: task_wake_def intro!: set_state_inv)

lemma find_task_eq:
  assumes "task_inv s n c"
  shows "find_task p s = Some (find (\<lambda>i. pid (tasks s ! i) = p) [0..<n])"
  unfolding find_task_def by (rule list_find_path [OF path_tasks [OF assms]])

lemma find_task_Some:
  assumes "task_inv s n c" "i < n"
  shows "find_task (pid (tasks s ! i)) s = Some (Some i)"
proof -
  let ?P = "\<lambda>j. pid (tasks s ! j) = pid (tasks s ! i)"
  have "find ?P [0..<n] \<noteq> None" using assms(2) by (auto simp: find_None_iff)
  then obtain j where j: "find ?P [0..<n] = Some j" by blast
  then have "j < n" "?P j" by (auto dest!: find_SomeD)
  then have "j = i" using inj_onD [OF task_invD(10) [OF assms(1)], of j i] assms(2) by simp
  then show ?thesis using j find_task_eq [OF assms(1)] by simp
qed

section \<open>Repeated scheduling\<close>

fun schedule_times :: "nat \<Rightarrow> 'a tasking_scheme \<Rightarrow> 'a tasking_scheme option" where
  "schedule_times 0 s = Some s"
| "schedule_times (Suc k) s = (case schedule s of None \<Rightarrow> None | Some t \<Rightarrow> schedule_times k t)"

lemma schedule_all_runnable:
  assumes inv: "task_inv s n c" and run: "\<forall>i < n. runnable s i"
  shows "\<exists>t. schedule s = Some t \<and> task_inv t n (min (Suc c) (n - 1)) \<and> (\<forall>i < n. runnable t i)"
proof (cases "Suc c < n")
  case True
  then have "round_robin s n c = Some (Suc c)" using run by (simp add: round_robin_def upt_conv_Cons)
  then have eq: "schedule s = Some (dispatch_task s c (Suc c))" using schedule_eq [OF inv] True by simp
  have len: "length (tasks s) = 64" "n \<le> 64" using task_invD [OF inv] by auto
  have "runnable (dispatch_task s c (Suc c)) i" if "i < n" for i
    using run that True len by (auto simp: runnable_def dispatch_task_def Let_def nth_list_update)
  then show ?thesis using eq dispatch_inv [OF inv True] True by simp
next
  case False
  then have "min (Suc c) (n - 1) = c" using task_invD(7) [OF inv] by simp
  then show ?thesis using schedule_eq [OF inv] False assms by simp
qed

lemma schedule_times_inv:
  "task_inv s n c \<Longrightarrow> \<forall>i < n. runnable s i \<Longrightarrow>
   \<exists>t. schedule_times k s = Some t \<and> task_inv t n (min (c + k) (n - 1)) \<and> (\<forall>i < n. runnable t i)"
proof (induction k arbitrary: s c)
  case 0
  then have "min (c + 0) (n - 1) = c" using task_invD(7) by fastforce
  then show ?case using 0 by simp
next
  case (Suc k)
  obtain t where t: "schedule s = Some t" "task_inv t n (min (Suc c) (n - 1))" "\<forall>i < n. runnable t i"
    using schedule_all_runnable [OF Suc.prems] by blast
  moreover have "min (min (Suc c) (n - 1) + k) (n - 1) = min (c + Suc k) (n - 1)" by linarith
  ultimately show ?case using Suc.IH [OF t(2,3)] by simp
qed

section \<open>Properties of task management\<close>

text \<open>The machine at power-on, with the static task data as C initialises it.\<close>

definition zero_task :: task where
  "zero_task = \<lparr>pid = 0, state = 0, priority = 0, esp = 0, ebp = 0, eip = 0, cr3 = 0,
     name = replicate 16 0, parent_pid = 0, start_time = 0, next_task = None\<rparr>"

definition power_on_tasking :: tasking where
  "power_on_tasking = memory.extend power_on_memory
     (tasking.fields None None 1 (replicate 64 zero_task) 0)"

lemma power_on_tasking_fields [simp]:
  "tasks power_on_tasking = replicate 64 zero_task" "next_pid power_on_tasking = 1"
  "task_list power_on_tasking = None" "current_task power_on_tasking = None"
  "task_count power_on_tasking = 0"
  by (simp_all add: power_on_tasking_def memory.defs tasking.defs)

definition ready_tasks :: tasking where
  "ready_tasks = init_task_manager power_on_tasking"

lemma ready_tasks_inv: "task_inv ready_tasks 1 0"
  unfolding ready_tasks_def by (rule init_task_inv) (simp add: static_tasks_def zero_task_def)

lemma two_tasks: "\<exists>t. create_task (cstr ''demo'') 0 ready_tasks = Some (Some 1, t) \<and> task_inv t 2 0"
  using create_task_inv [OF ready_tasks_inv, of "cstr ''demo''" 0] by (simp add: numeral_2_eq_2)

lemma two_tasks_choice:
  "\<exists>s. task_inv (s :: tasking) 2 0 \<and> round_robin s 2 0 = Some 1 \<and> (\<forall>i < 2. runnable s i)"
proof -
  let ?n = "new_task (cstr ''demo'') 0 ready_tasks 1 0"
  obtain s where s: "create_task (cstr ''demo'') 0 ready_tasks = Some (Some 1, s)"
    "tasks s = (tasks ready_tasks)[1 := ?n, 1 - 1 := (tasks ready_tasks ! (1 - 1))\<lparr>next_task := Some 1\<rparr>]"
    using create_task_eq [OF ready_tasks_inv, of "cstr ''demo''" 0] by auto
  moreover have "task_inv s 2 0" using two_tasks s(1) by auto
  moreover have "state_of ready_tasks 0 = TASK_RUNNING"
    by (simp add: ready_tasks_def init_task_manager_def Let_def fold_set_task MAX_TASKS_def)
  ultimately show ?thesis
    using task_invD(1) [OF ready_tasks_inv]
    by (intro exI [of _ s]) (auto simp: round_robin_def runnable_def new_task_def upt_conv_Cons less_2_cases_iff)
qed

text \<open>
  C9: what \<open>schedule\<close> does, in every case. With \<open>n\<close> tasks and current task \<open>c\<close> the search loop always
  ends. When \<open>c\<close> is the last task of the list, or no other task is runnable, nothing changes: the
  early return does not let the search wrap around from there. In all other cases the
  first runnable task after \<open>c\<close> in cyclic order becomes current and running, the old current task goes
  from running to ready, and no other part of the state changes. The invariant is kept.
\<close>

theorem schedule_round_robin:
  assumes "task_inv s n c"
  shows "if Suc c = n then schedule s = Some s
    else case round_robin s n c of
      None \<Rightarrow> schedule s = Some s
    | Some j \<Rightarrow> let t = s\<lparr>current_task := Some j,
          tasks := (tasks s)[j := (tasks s ! j)\<lparr>state := TASK_RUNNING\<rparr>,
            c := (tasks s ! c)\<lparr>state := if state_of s c = TASK_RUNNING then TASK_READY else state_of s c\<rparr>]\<rparr>
        in schedule s = Some t \<and> task_inv t n j"
proof -
  consider "Suc c = n" | "Suc c < n" "round_robin s n c = None" | j where "Suc c < n" "round_robin s n c = Some j"
    using task_invD(7) [OF assms] by (cases "round_robin s n c") force+
  then show ?thesis
  proof cases
    case (3 j)
    note j = round_robin_Some [OF 3(2) task_invD(7) [OF assms]]
    have "length (tasks s) = 64" "n \<le> 64" using task_invD [OF assms] by auto
    then have len: "j < length (tasks s)" "c < length (tasks s)" using j 3(1) by auto
    have "dispatch_task s c j = s\<lparr>current_task := Some j,
          tasks := (tasks s)[j := (tasks s ! j)\<lparr>state := TASK_RUNNING\<rparr>,
            c := (tasks s ! c)\<lparr>state := if state_of s c = TASK_RUNNING then TASK_READY else state_of s c\<rparr>]\<rparr>"
    proof -
      have "(tasks s)[j := x, c := tasks s ! c] = (tasks s)[j := x]" for x
        using j(2) list_update_id [of "(tasks s)[j := x]" c] by simp
      then show ?thesis using j(2) len by (auto simp: dispatch_task_def Let_def set_task_def)
    qed
    then show ?thesis using 3 schedule_eq [OF assms] dispatch_inv [OF assms j(1,2)] by (simp add: Let_def)
  qed (use schedule_eq [OF assms] in auto)
qed

theorem schedule_round_robin_witness:
  "\<exists>s t. task_inv (s :: tasking) 2 0 \<and> schedule s = Some t \<and> current_task t = Some 1 \<and> schedule t = Some t"
proof -
  obtain s where s: "task_inv (s :: tasking) 2 0" "round_robin s 2 0 = Some 1" using two_tasks_choice by blast
  then obtain t where t: "schedule s = Some t" "task_inv t 2 1" using schedule_round_robin [OF s(1)] by (auto simp: Let_def)
  moreover have "schedule t = Some t" using schedule_round_robin [OF t(2)] by simp
  ultimately show ?thesis using s(1) task_invD(6) [OF t(2)] by blast
qed

text \<open>
  C30: \<open>create_task\<close>. With fewer than 64 tasks it takes the next slot, gives it the next process
  identifier (different from all others), makes it a ready child of the current task with default
  priority and the given entry point, appends it to the task list, and \<open>find_task\<close> finds it; its
  name is the given one cut to 15 bytes when the slot's name is still blank. The other tasks keep
  their identifier, state, name and priority. With 64 tasks it returns NULL and only prints.
\<close>

theorem create_task_correct:
  assumes "task_inv s n c"
  shows "if n < 64 then \<exists>t. create_task nm e s = Some (Some n, t) \<and> task_inv t (Suc n) c
      \<and> pid (tasks t ! n) = next_pid s \<and> (\<forall>i < n. pid (tasks s ! i) \<noteq> next_pid s)
      \<and> state_of t n = TASK_READY \<and> priority (tasks t ! n) = 10 \<and> eip (tasks t ! n) = e
      \<and> parent_pid (tasks t ! n) = pid (tasks s ! c)
      \<and> find_task (next_pid s) t = Some (Some n)
      \<and> (name (tasks s ! n) = replicate 16 0 \<longrightarrow> until_nul (name (tasks t ! n)) = take 15 (until_nul nm))
      \<and> (\<forall>i < n. (tasks t ! i)\<lparr>next_task := None\<rparr> = (tasks s ! i)\<lparr>next_task := None\<rparr>)
    else create_task nm e s = Some (None, print_string (cstr ''[ERROR] Maximum tasks reached'' @ [0x0A]) s)"
proof (cases "n < 64")
  case True
  obtain t where t: "create_task nm e s = Some (Some n, t)"
    "tasks t = (tasks s)[n := new_task nm e s n c, n - 1 := (tasks s ! (n - 1))\<lparr>next_task := Some n\<rparr>]"
    using create_task_eq [OF assms True] by blast
  have inv: "task_inv t (Suc n) c" using create_task_inv [OF assms True, of nm e] t(1) by auto
  note d = task_invD [OF assms]
  have n: "tasks t ! n = new_task nm e s n c" using d(1,2) True by (simp add: t(2))
  have "(tasks t ! i)\<lparr>next_task := None\<rparr> = (tasks s ! i)\<lparr>next_task := None\<rparr>" if "i < n" for i
    using that d(1,2) True by (auto simp: t(2) nth_list_update)
  moreover have "find_task (next_pid s) t = Some (Some n)"
    using find_task_Some [OF inv, of n] by (simp add: n new_task_def)
  moreover have "\<forall>i < n. pid (tasks s ! i) \<noteq> next_pid s" using d(9) by fastforce
  ultimately show ?thesis using True t(1) inv by (simp add: n new_task_def copy_name_zeros)
next
  case False
  then have "n = 64" using task_invD(3) [OF assms] by simp
  then show ?thesis using create_task_full assms by auto
qed

theorem create_task_correct_witness:
  "\<exists>t. create_task (cstr ''demo'') 0x1234 ready_tasks = Some (Some 1, t) \<and> eip (tasks t ! 1) = 0x1234"
  using create_task_correct [OF ready_tasks_inv, of "cstr ''demo''" "0x1234"] by auto

text \<open>
  \<open>find_task\<close> always returns, finds exactly the task with the given identifier, and returns
  NULL exactly when no task in the list has it.
\<close>

theorem find_task_correct:
  assumes "task_inv s n c"
  shows "(\<forall>i. find_task p s = Some (Some i) \<longleftrightarrow> i < n \<and> pid (tasks s ! i) = p)
    \<and> (find_task p s = Some None \<longleftrightarrow> (\<forall>i < n. pid (tasks s ! i) \<noteq> p))"
proof -
  have "i < n \<and> pid (tasks s ! i) = p" if "find_task p s = Some (Some i)" for i
    using that find_task_eq [OF assms] by (auto dest!: find_SomeD)
  moreover have "(find_task p s = Some None) = (\<forall>i < n. pid (tasks s ! i) \<noteq> p)"
    using find_task_eq [OF assms] by (auto simp: find_None_iff)
  ultimately show ?thesis using find_task_Some [OF assms] by blast
qed

theorem find_task_correct_witness:
  "find_task 7 ready_tasks = Some None"
proof -
  have "pid (tasks ready_tasks ! 0) < next_pid ready_tasks" using task_invD(9) [OF ready_tasks_inv, of 0] by simp
  moreover have "next_pid ready_tasks = 1"
    by (simp add: ready_tasks_def init_task_manager_def Let_def fold_set_task MAX_TASKS_def)
  ultimately have "\<forall>i < 1. pid (tasks ready_tasks ! i) \<noteq> 7" by simp
  then show ?thesis using find_task_correct [OF ready_tasks_inv, of 7] by blast
qed

text \<open>Leaving the processor: the current task's state is set and another task is chosen.\<close>

lemma find_cong_set: "(\<And>x. x \<in> set xs \<Longrightarrow> P x = Q x) \<Longrightarrow> find P xs = find Q xs"
  by (induction xs) auto

lemma round_robin_set_current:
  assumes "tasks t = (tasks s)[c := v]"
  shows "round_robin t n c = round_robin s n c"
  unfolding round_robin_def using assms by (intro find_cong_set) (auto simp: runnable_def)

lemma leave_schedule:
  assumes inv: "task_inv s n c" and ui: "task_inv u n c" and st: "st \<noteq> TASK_RUNNING"
    and u: "tasks u = (tasks s)[c := (tasks s ! c)\<lparr>state := st\<rparr>]"
    and j: "Suc c < n" "round_robin s n c = Some j"
  shows "\<exists>t. schedule u = Some t \<and> task_inv t n j \<and> state_of t j = TASK_RUNNING \<and> state_of t c = st"
proof -
  have "round_robin u n c = Some j"
    using round_robin_set_current [OF u] j(2) by simp
  then have eq: "schedule u = Some (dispatch_task u c j)" using schedule_eq [OF ui] j(1) by simp
  note jn = round_robin_Some [OF j(2) task_invD(7) [OF inv]]
  have "length (tasks s) = 64" "n \<le> 64" using task_invD [OF inv] by auto
  then show ?thesis using eq dispatch_inv [OF ui jn(1,2)] jn j(1) st u
    by (auto simp: dispatch_task_def Let_def)
qed

text \<open>
  A task that exits or sleeps gives up the processor, when it is not the last of the list
  and another task is runnable: the round-robin choice becomes current and running, and the old
  task is a zombie, respectively sleeping. \<open>task_wake\<close> makes a sleeping task ready, and no other:
  a zombie stays a zombie.
\<close>

theorem exit_and_sleep_switch:
  assumes "task_inv s n c" "Suc c < n" "round_robin s n c = Some j"
  shows "(\<exists>t. task_exit e s = Some t \<and> task_inv t n j \<and> state_of t j = TASK_RUNNING
        \<and> state_of t c = TASK_ZOMBIE \<and> task_wake (Some c) t = t)
    \<and> (\<exists>t. task_sleep k s = Some t \<and> task_inv t n j \<and> state_of t j = TASK_RUNNING
        \<and> state_of t c = TASK_SLEEPING \<and> state_of (task_wake (Some c) t) c = TASK_READY)"
proof
  let ?u = "\<lambda>st. set_task c (\<lambda>t. t\<lparr>state := st\<rparr>) s"
  define v where "v = print_string (cstr '' exited'' @ [0x0A])
    (print_string (name (tasks (?u TASK_ZOMBIE) ! c)) (print_string (cstr ''[TASK] Task '') (?u TASK_ZOMBIE)))"
  have cur: "current_task s = Some c" "c < 64" using task_invD(3,6,7) [OF assms(1)] by auto
  have inv: "task_inv (?u TASK_SLEEPING) n c" "task_inv v n c"
    using set_state_inv [OF assms(1), of TASK_SLEEPING c] set_state_inv [OF assms(1), of TASK_ZOMBIE c]
    by (simp_all add: v_def)
  obtain t where t: "schedule (?u TASK_SLEEPING) = Some t" "task_inv t n j" "state_of t j = TASK_RUNNING"
      "state_of t c = TASK_SLEEPING"
    using leave_schedule [OF assms(1) inv(1) _ _ assms(2,3), of TASK_SLEEPING] by auto
  obtain w where w: "schedule v = Some w" "task_inv w n j" "state_of w j = TASK_RUNNING" "state_of w c = TASK_ZOMBIE"
    using leave_schedule [OF assms(1) inv(2) _ _ assms(2,3), of TASK_ZOMBIE] by (auto simp: v_def)
  have "task_exit e s = schedule v" using cur by (simp add: task_exit_def v_def Let_def)
  then show "\<exists>t. task_exit e s = Some t \<and> task_inv t n j \<and> state_of t j = TASK_RUNNING
      \<and> state_of t c = TASK_ZOMBIE \<and> task_wake (Some c) t = t"
    using w by (intro exI [of _ w]) (simp add: task_wake_def)
  have "task_sleep k s = Some t" using cur t(1) by (simp add: task_sleep_def)
  moreover have "state_of (task_wake (Some c) t) c = TASK_READY"
    using t(4) cur(2) task_invD(1) [OF t(2)] by (simp add: task_wake_def)
  ultimately show "\<exists>t. task_sleep k s = Some t \<and> task_inv t n j \<and> state_of t j = TASK_RUNNING
      \<and> state_of t c = TASK_SLEEPING \<and> state_of (task_wake (Some c) t) c = TASK_READY"
    using t(2-4) by blast
qed

theorem exit_and_sleep_switch_witness:
  "\<exists>s t. task_inv (s :: tasking) 2 0 \<and> task_exit 0 s = Some t \<and> current_task t = Some 1"
proof -
  obtain s where "task_inv (s :: tasking) 2 0" "round_robin s 2 0 = Some 1" using two_tasks_choice by blast
  then show ?thesis using exit_and_sleep_switch [of s 2 0 1 0 0] task_invD(6) by fastforce
qed

text \<open>
  The last task never gives up the processor. When the current task is the last of the list,
  \<open>schedule\<close> returns at once, so after \<open>task_exit\<close> the zombie is still the current task and after
  \<open>task_sleep\<close> the sleeping one is, whatever the other tasks' states.
\<close>

theorem last_task_keeps_cpu:
  assumes "task_inv s n c" "Suc c = n"
  shows "schedule s = Some s
    \<and> (\<exists>t. task_exit e s = Some t \<and> current_task t = Some c \<and> state_of t c = TASK_ZOMBIE)
    \<and> (\<exists>t. task_sleep k s = Some t \<and> current_task t = Some c \<and> state_of t c = TASK_SLEEPING)"
proof -
  have cur: "current_task s = Some c" "next_of s c = None" "c < length (tasks s)"
    using task_invD(1,3,6,7) [OF assms(1)] task_invD(8) [OF assms(1), of c] assms(2) by auto
  then show ?thesis by (simp add: schedule_def task_exit_def task_sleep_def Let_def)
qed

theorem last_task_keeps_cpu_witness:
  "\<exists>t. task_exit 0 ready_tasks = Some t \<and> current_task t = Some 0 \<and> state_of t 0 = TASK_ZOMBIE"
  using last_task_keeps_cpu [OF ready_tasks_inv, of 0] by simp

text \<open>
  C31: starvation. When all tasks are runnable, repeated calls of \<open>schedule\<close> run through the list
  once and then stay at the last task: after \<open>k\<close> calls the current task is number \<open>min (c + k) (n - 1)\<close>,
  so from some point on no other task ever runs.
\<close>

theorem schedule_starves:
  assumes "task_inv s n c" "\<forall>i < n. runnable s i"
  shows "\<exists>t. schedule_times k s = Some t \<and> current_task t = Some (min (c + k) (n - 1))"
  using schedule_times_inv [OF assms, of k] task_invD(6) by blast

theorem schedule_starves_witness:
  "\<exists>s t. task_inv (s :: tasking) 2 0 \<and> schedule_times 5 s = Some t \<and> current_task t = Some 1"
proof -
  obtain s where "task_inv (s :: tasking) 2 0" "\<forall>i < 2. runnable s i" using two_tasks_choice by blast
  then show ?thesis using schedule_starves [of s 2 0 5] by auto
qed

section \<open>Histories of task operations\<close>

datatype task_op = Create cstring u32 | Schedule | Exit int | Sleep int | Wake "nat option"

fun run_task_op :: "task_op \<Rightarrow> 'a tasking_scheme \<Rightarrow> 'a tasking_scheme option" where
  "run_task_op (Create nm entry) s = map_option snd (create_task nm entry s)"
| "run_task_op Schedule s = schedule s"
| "run_task_op (Exit code) s = task_exit code s"
| "run_task_op (Sleep ticks) s = task_sleep ticks s"
| "run_task_op (Wake t) s = Some (task_wake t s)"

fun run_task_ops :: "task_op list \<Rightarrow> 'a tasking_scheme \<Rightarrow> 'a tasking_scheme option" where
  "run_task_ops [] s = Some s"
| "run_task_ops (x # xs) s = Option.bind (run_task_op x s) (run_task_ops xs)"

lemma run_task_op_ok:
  assumes "tasks_ok s"
  shows "\<exists>t. run_task_op x s = Some t \<and> tasks_ok t"
proof -
  obtain n c where inv: "task_inv s n c" using assms by (auto simp: tasks_ok_def)
  have "\<exists>t. map_option snd (create_task nm entry s) = Some t \<and> tasks_ok t" for nm entry
  proof (cases "n < 64")
    case True
    then show ?thesis using create_task_inv [OF inv True, of nm entry] by (auto simp: tasks_ok_def)
  next
    case False
    then have "n = 64" using task_invD(3) [OF inv] by simp
    then show ?thesis using create_task_full [of s c nm entry] inv assms by simp
  qed
  then show ?thesis
    using schedule_inv [OF inv] task_exit_inv [OF inv] task_sleep_inv [OF inv] task_wake_inv [OF inv]
    by (cases x) (auto simp: tasks_ok_def, blast+)
qed

lemma run_task_ops_ok: "tasks_ok s \<Longrightarrow> \<exists>t. run_task_ops xs s = Some t \<and> tasks_ok t"
proof (induction xs arbitrary: s)
  case (Cons x xs)
  obtain u where "run_task_op x s = Some u" "tasks_ok u" using run_task_op_ok [OF Cons.prems] by blast
  then show ?case using Cons.IH by simp
qed simp

text \<open>
  C12: the task table stays well-formed. After \<open>init_task_manager\<close> every sequence of creations,
  scheduling decisions, exits, sleeps and wake-ups, with any arguments, returns, and leaves a table
  whose list runs through its first slots without a cycle, with distinct process identifiers below
  the next one, names that end in a NUL, valid states, a current task in the list and no other
  task in state \<open>TASK_RUNNING\<close>.
\<close>

theorem task_history_wf:
  assumes "static_tasks s"
  shows "\<exists>t n c. run_task_ops xs (init_task_manager s) = Some t \<and> task_inv t n c
    \<and> path (next_of t) (task_list t) [0..<n] \<and> distinct (map (\<lambda>i. pid (tasks t ! i)) [0..<n])"
proof -
  obtain t n c where t: "run_task_ops xs (init_task_manager s) = Some t" "task_inv t n c"
    using run_task_ops_ok [of "init_task_manager s"] init_task_inv [OF assms] unfolding tasks_ok_def by blast
  then have "distinct (map (\<lambda>i. pid (tasks t ! i)) [0..<n])"
    using task_invD(10) [OF t(2)] by (simp add: distinct_map lessThan_atLeast0)
  then show ?thesis using t path_tasks [OF t(2)] by blast
qed

theorem task_history_wf_witness:
  "\<exists>t n c. run_task_ops [Create (cstr ''a'') 1, Schedule, Exit 0, Wake (Some 0)] (init_task_manager power_on_tasking) = Some t
    \<and> task_inv t n c"
proof -
  have "static_tasks power_on_tasking" by (simp add: static_tasks_def zero_task_def)
  from task_history_wf [OF this] show ?thesis by blast
qed

end
