(* ===== verification/Scheduler.thy ===== *)
theory Scheduler
  imports Task
begin

text \<open>
  The scheduler of \<open>kernel/scheduler.c\<close> and \<open>kernel/scheduler.h\<close>: its state and statistics, the task
  queue, the choice of the next task under the three policies, priorities and time slices. The
  queue is linked through the same \<open>next\<close> field of the tasks as the task list of \<open>kernel/task.c\<close>.
  Functions that are declared in the header without a body anywhere are not part of the model.
\<close>

section \<open>Data\<close>

definition DEFAULT_PRIORITY :: int where "DEFAULT_PRIORITY = 15"
definition MAX_PRIORITY :: int where "MAX_PRIORITY = 40"
definition MIN_PRIORITY :: int where "MIN_PRIORITY = 0"
definition DEFAULT_TIME_SLICE :: int where "DEFAULT_TIME_SLICE = 10"
definition MIN_TIME_SLICE :: int where "MIN_TIME_SLICE = 1"
definition MAX_TIME_SLICE :: int where "MAX_TIME_SLICE = 50"

datatype scheduler_state = SCHED_RUNNING | SCHED_STOPPED | SCHED_PAUSED
datatype sched_policy = SCHED_ROUND_ROBIN | SCHED_PRIORITY | SCHED_FIFO

record scheduler_stats =
  total_switches :: u32
  idle_time :: u32
  active_time :: u32
  timer_ticks :: u32
  preemptions :: u32
  last_scheduled :: "nat option"

record scheduler =
  sched_current :: "nat option"
  idle_task :: "nat option"
  sched_state :: scheduler_state
  policy :: sched_policy
  time_slice :: u32
  ticks_remaining :: u32
  stats :: scheduler_stats

record scheduling = tasking +
  sched :: scheduler
  task_queue_head :: "nat option"
  task_queue_tail :: "nat option"

section \<open>Operations\<close>

text \<open>
  The address of \<open>idle_task_function\<close> is fixed by the linker; it is an argument. The function
  itself is a loop around \<open>hlt\<close>.
\<close>

definition create_idle_task :: "u32 \<Rightarrow> 'a scheduling_scheme \<Rightarrow> 'a scheduling_scheme option" where
  "create_idle_task idle_task_function s =
     (case create_task (cstr ''idle'') idle_task_function s of
        None \<Rightarrow> None
      | Some (t, s) \<Rightarrow>
          let s = s\<lparr>sched := (sched s)\<lparr>idle_task := t\<rparr>\<rparr>
          in Some (case t of
               Some i \<Rightarrow> set_task i (\<lambda>t. t\<lparr>state := TASK_READY\<rparr>) s
             | None \<Rightarrow> s))"

definition setup_scheduler_timer :: "'a scheduling_scheme \<Rightarrow> 'a scheduling_scheme" where
  "setup_scheduler_timer s = s"

definition init_scheduler :: "u32 \<Rightarrow> 'a scheduling_scheme \<Rightarrow> 'a scheduling_scheme option" where
  "init_scheduler idle_task_function s =
     (let s = s\<lparr>sched := \<lparr>sched_current = None, idle_task = None, sched_state = SCHED_STOPPED,
                policy = SCHED_ROUND_ROBIN, time_slice = of_int DEFAULT_TIME_SLICE,
                ticks_remaining = of_int DEFAULT_TIME_SLICE,
                stats = \<lparr>total_switches = 0, idle_time = 0, active_time = 0, timer_ticks = 0,
                  preemptions = 0, last_scheduled = None\<rparr>\<rparr>\<rparr>;
          s = s\<lparr>task_queue_head := None, task_queue_tail := None\<rparr>
      in map_option setup_scheduler_timer (create_idle_task idle_task_function s))"

definition update_task_runtime :: "nat option \<Rightarrow> u32 \<Rightarrow> 'a scheduling_scheme \<Rightarrow> 'a scheduling_scheme" where
  "update_task_runtime t ticks s =
     (if t = None then s
      else let sc = sched s; st = stats sc
           in if t = idle_task sc
              then s\<lparr>sched := sc\<lparr>stats := st\<lparr>idle_time := idle_time st + ticks\<rparr>\<rparr>\<rparr>
              else s\<lparr>sched := sc\<lparr>stats := st\<lparr>active_time := active_time st + ticks\<rparr>\<rparr>\<rparr>)"

definition yield :: "'a scheduling_scheme \<Rightarrow> 'a scheduling_scheme option" where
  "yield s =
     (let s = (case sched_current (sched s) of
                 Some c \<Rightarrow> set_task c (\<lambda>t. t\<lparr>state := TASK_READY\<rparr>) s
               | None \<Rightarrow> s)
      in schedule s)"

definition scheduler_tick :: "'a scheduling_scheme \<Rightarrow> 'a scheduling_scheme option" where
  "scheduler_tick s =
     (let sc = sched s; st = stats sc;
          s = s\<lparr>sched := sc\<lparr>stats := st\<lparr>timer_ticks := timer_ticks st + 1\<rparr>\<rparr>\<rparr>
      in if sched_state (sched s) \<noteq> SCHED_RUNNING then Some s
         else if sched_current (sched s) = None then Some s
         else
           let s = update_task_runtime (sched_current (sched s)) 1 s;
               sc = sched s;
               s = (if ticks_remaining sc > 0
                    then s\<lparr>sched := sc\<lparr>ticks_remaining := ticks_remaining sc - 1\<rparr>\<rparr> else s);
               sc = sched s; st = stats sc
           in if ticks_remaining sc = 0
              then yield (s\<lparr>sched := sc\<lparr>stats := st\<lparr>preemptions := preemptions st + 1\<rparr>\<rparr>\<rparr>)
              else Some s)"

definition add_task_to_scheduler :: "nat option \<Rightarrow> 'a scheduling_scheme \<Rightarrow> 'a scheduling_scheme outcome" where
  "add_task_to_scheduler t s =
     (case t of
        None \<Rightarrow> Return s
      | Some i \<Rightarrow>
          let s = set_task i (\<lambda>t. t\<lparr>next_task := None, state := TASK_READY\<rparr>) s
          in if task_queue_head s = None
             then Return (s\<lparr>task_queue_head := Some i, task_queue_tail := Some i\<rparr>)
             else case task_queue_tail s of
               Some tail \<Rightarrow> Return ((set_task tail (\<lambda>t. t\<lparr>next_task := Some i\<rparr>) s)\<lparr>task_queue_tail := Some i\<rparr>)
             | None \<Rightarrow> Undefined)"

definition remove_task_from_scheduler :: "nat option \<Rightarrow> 'a scheduling_scheme \<Rightarrow> 'a scheduling_scheme option" where
  "remove_task_from_scheduler t s =
     (if t = None \<or> task_queue_head s = None then Some s
      else if task_queue_head s = t then
        let i = the t;
            s = s\<lparr>task_queue_head := next_of s i\<rparr>
        in Some (if task_queue_tail s = t then s\<lparr>task_queue_tail := None\<rparr> else s)
      else case list_find (next_of s) (\<lambda>p. \<not> (next_of s p \<noteq> None \<and> next_of s p \<noteq> t)) (task_queue_head s) of
        Some (Some cur) \<Rightarrow>
          if next_of s cur = t then
            let s = set_task cur (\<lambda>c. c\<lparr>next_task := next_of s (the t)\<rparr>) s
            in Some (if task_queue_tail s = t then s\<lparr>task_queue_tail := Some cur\<rparr> else s)
          else Some s
      | _ \<Rightarrow> None)"

text \<open>The \<open>do { \<dots> } while (current != start)\<close> loop of the round-robin policy.\<close>

partial_function (option) ready_cycle ::
  "task list \<Rightarrow> nat option \<Rightarrow> nat option \<Rightarrow> nat \<Rightarrow> nat option option" where
  "ready_cycle ts head start cur =
     (if state (ts ! cur) = TASK_READY then Some (Some cur)
      else if following ts head cur = start then Some None
      else ready_cycle ts head start (the (following ts head cur)))"

definition get_next_round_robin_task :: "'a scheduling_scheme \<Rightarrow> nat option option" where
  "get_next_round_robin_task s =
     (case task_queue_head s of
        None \<Rightarrow> Some (idle_task (sched s))
      | Some h \<Rightarrow>
          (case ready_cycle (tasks s) (task_queue_head s) (Some h) h of
             None \<Rightarrow> None
           | Some None \<Rightarrow> Some (idle_task (sched s))
           | Some (Some i) \<Rightarrow> Some (Some i)))"

definition get_next_fifo_task :: "'a scheduling_scheme \<Rightarrow> nat option option" where
  "get_next_fifo_task s =
     (case list_find (next_of s) (\<lambda>i. state_of s i = TASK_READY) (task_queue_head s) of
        None \<Rightarrow> None
      | Some None \<Rightarrow> Some (idle_task (sched s))
      | Some (Some i) \<Rightarrow> Some (Some i))"

definition better_task :: "task list \<Rightarrow> nat \<Rightarrow> nat option \<times> int \<Rightarrow> nat option \<times> int" where
  "better_task ts i = (\<lambda>(best_task, highest_priority).
     if state (ts ! i) = TASK_READY \<and> priority (ts ! i) < highest_priority
     then (Some i, priority (ts ! i)) else (best_task, highest_priority))"

definition find_highest_priority_task :: "'a scheduling_scheme \<Rightarrow> nat option option" where
  "find_highest_priority_task s =
     (case list_fold (next_of s) (better_task (tasks s)) (task_queue_head s) (None, MAX_PRIORITY + 1) of
        None \<Rightarrow> None
      | Some (best_task, _) \<Rightarrow> Some (if best_task \<noteq> None then best_task else idle_task (sched s)))"

definition get_next_task :: "'a scheduling_scheme \<Rightarrow> nat option option" where
  "get_next_task s =
     (case policy (sched s) of
        SCHED_ROUND_ROBIN \<Rightarrow> get_next_round_robin_task s
      | SCHED_PRIORITY \<Rightarrow> find_highest_priority_task s
      | SCHED_FIFO \<Rightarrow> get_next_fifo_task s)"

definition calculate_time_slice :: "nat option \<Rightarrow> 'a scheduling_scheme \<Rightarrow> 'a scheduling_scheme" where
  "calculate_time_slice t s =
     (case t of
        None \<Rightarrow> s
      | Some i \<Rightarrow>
          let slice = DEFAULT_TIME_SLICE + (MAX_PRIORITY - priority (tasks s ! i));
              slice = (if slice < MIN_TIME_SLICE then MIN_TIME_SLICE else slice);
              slice = (if slice > MAX_TIME_SLICE then MAX_TIME_SLICE else slice)
          in s\<lparr>sched := (sched s)\<lparr>time_slice := of_int slice\<rparr>\<rparr>)"

definition set_task_priority :: "nat option \<Rightarrow> int \<Rightarrow> 'a scheduling_scheme \<Rightarrow> 'a scheduling_scheme" where
  "set_task_priority t prio s =
     (case t of
        None \<Rightarrow> s
      | Some i \<Rightarrow>
          let prio = (if prio < MIN_PRIORITY then MIN_PRIORITY else prio);
              prio = (if prio > MAX_PRIORITY then MAX_PRIORITY else prio);
              s = set_task i (\<lambda>t. t\<lparr>priority := prio\<rparr>) s
          in calculate_time_slice t s)"

definition start_scheduler :: "'a scheduling_scheme \<Rightarrow> 'a scheduling_scheme" where
  "start_scheduler s =
     (let s = s\<lparr>sched := (sched s)\<lparr>sched_state := SCHED_RUNNING\<rparr>\<rparr>
      in if sched_current (sched s) = None
         then s\<lparr>sched := (sched s)\<lparr>sched_current := idle_task (sched s)\<rparr>\<rparr> else s)"

definition stop_scheduler :: "'a scheduling_scheme \<Rightarrow> 'a scheduling_scheme" where
  "stop_scheduler s = s\<lparr>sched := (sched s)\<lparr>sched_state := SCHED_STOPPED\<rparr>\<rparr>"

definition print_scheduler_stats :: "'a scheduling_scheme \<Rightarrow> 'a scheduling_scheme" where
  "print_scheduler_stats s = s"

definition is_scheduler_running :: "'a scheduling_scheme \<Rightarrow> bool" where
  "is_scheduler_running s \<longleftrightarrow> sched_state (sched s) = SCHED_RUNNING"

definition switch_context :: "nat option \<Rightarrow> nat option \<Rightarrow> 'a scheduling_scheme \<Rightarrow> 'a scheduling_scheme" where
  "switch_context from to s =
     (case from of Some i \<Rightarrow> set_task i (\<lambda>t. t\<lparr>esp := 0\<rparr>) s | None \<Rightarrow> s)"

definition force_schedule :: "'a scheduling_scheme \<Rightarrow> 'a scheduling_scheme option" where
  "force_schedule s = schedule (s\<lparr>sched := (sched s)\<lparr>ticks_remaining := 0\<rparr>\<rparr>)"

section \<open>Frame\<close>

interpretation sched_frame: console_frame sched by unfold_locales simp_all
interpretation task_queue_head_frame: console_frame task_queue_head by unfold_locales simp_all
interpretation task_queue_tail_frame: console_frame task_queue_tail by unfold_locales simp_all

interpretation sched_tasks: task_frame sched by unfold_locales simp_all
interpretation task_queue_head_tasks: task_frame task_queue_head by unfold_locales simp_all
interpretation task_queue_tail_tasks: task_frame task_queue_tail by unfold_locales simp_all

section \<open>The task queue\<close>

text \<open>\<open>queue_rep s xs\<close>: the queue in memory holds the tasks \<open>xs\<close>, in order.\<close>

definition queue_rep :: "'a scheduling_scheme \<Rightarrow> nat list \<Rightarrow> bool" where
  "queue_rep s xs \<longleftrightarrow> length (tasks s) = 64 \<and> set xs \<subseteq> {..<64}
     \<and> path (next_of s) (task_queue_head s) xs \<and> (xs \<noteq> [] \<longrightarrow> task_queue_tail s = Some (last xs))"

lemma queue_repD:
  assumes "queue_rep s xs"
  shows "length (tasks s) = 64" "set xs \<subseteq> {..<64}" "path (next_of s) (task_queue_head s) xs"
    "xs \<noteq> [] \<Longrightarrow> task_queue_tail s = Some (last xs)" "distinct xs"
    "task_queue_head s = (case xs of [] \<Rightarrow> None | x # _ \<Rightarrow> Some x)"
  using assms path_distinct by (auto simp: queue_rep_def split: list.splits)

lemma add_task_rep:
  assumes q: "queue_rep s xs" and i: "i < 64" "i \<notin> set xs"
  shows "\<exists>t. add_task_to_scheduler (Some i) s = Return t \<and> queue_rep t (xs @ [i])
    \<and> state_of t i = TASK_READY \<and> (\<forall>j. j \<noteq> i \<longrightarrow> state_of t j = state_of s j)"
proof (cases xs rule: rev_cases)
  case Nil
  then show ?thesis using queue_repD [OF q] i
    by (auto simp: add_task_to_scheduler_def queue_rep_def Let_def)
next
  case (snoc ys y)
  note r = queue_repD [OF q]
  have y: "y < 64" "y \<noteq> i" "task_queue_tail s = Some y" "task_queue_head s \<noteq> None"
    using r snoc i by (auto split: list.splits)
  define u where "u = set_task i (\<lambda>t. t\<lparr>next_task := None, state := TASK_READY\<rparr>) s"
  define t where "t = (set_task y (\<lambda>t. t\<lparr>next_task := Some i\<rparr>) u)\<lparr>task_queue_tail := Some i\<rparr>"
  have eq: "add_task_to_scheduler (Some i) s = Return t"
    using y by (auto simp: add_task_to_scheduler_def Let_def t_def u_def)
  have "path (next_of u) (task_queue_head s) (ys @ [y])"
  proof (rule path_cong [of "next_of s"])
    show "path (next_of s) (task_queue_head s) (ys @ [y])" using r(3) snoc by simp
    show "next_of u x = next_of s x" if "x \<in> set (ys @ [y])" for x
      using that i snoc by (cases "x = i") (auto simp: u_def)
  qed
  from path_append_node [OF this, of i] have "path ((next_of u)(y := Some i)) (task_queue_head s) (ys @ [y, i])"
    using i snoc r(1) by (simp add: u_def)
  from path_cong [OF this, of "next_of t"] have "path (next_of t) (task_queue_head s) (xs @ [i])"
    using r(1) y by (simp add: t_def u_def snoc nth_list_update)
  then have "queue_rep t (xs @ [i])" using r i by (simp add: queue_rep_def t_def u_def)
  moreover have "state_of t i = TASK_READY \<and> (\<forall>j. j \<noteq> i \<longrightarrow> state_of t j = state_of s j)"
    using r(1) i y by (auto simp: t_def u_def nth_list_update)
  ultimately show ?thesis using eq by blast
qed

text \<open>Removal behind the head: the node before the task is unlinked from it.\<close>

lemma remove_inner_task:
  assumes q: "queue_rep s xs" and xs: "xs = ws @ y # i # zs" and head: "task_queue_head s = Some x" "x \<noteq> i"
  shows "\<exists>t. remove_task_from_scheduler (Some i) s = Some t \<and> queue_rep t (remove1 i xs)"
proof -
  let ?P = "\<lambda>p. \<not> (next_of s p \<noteq> None \<and> next_of s p \<noteq> Some i)"
  note r = queue_repD [OF q]
  have y: "y < 64" "i \<notin> set ws" "i \<notin> set zs" "y \<noteq> i" using r(2,5) xs by auto
  have nx: "next_of s y = Some i" using path_next [of _ _ ws y "i # zs"] r(3) xs by simp
  have fb: "find ?P xs = Some y"
    using find_before [of "next_of s" "task_queue_head s" ws y i zs] r(3) xs by simp
  define t where "t = set_task y (\<lambda>c. c\<lparr>next_task := next_of s i\<rparr>) s"
  have "path ((next_of s)(y := next_of s i)) (task_queue_head s) (ws @ y # zs)"
    using path_remove_node [of "next_of s" "task_queue_head s" ws y i zs] r(3) xs by simp
  from path_cong [OF this, of "next_of t"] have pt: "path (next_of t) (task_queue_head s) (ws @ y # zs)"
    using y r(1) by (simp add: t_def nth_list_update)
  have lst: "last xs = (if zs = [] then i else last zs)" using xs by simp
  have tl: "task_queue_tail s = Some (last xs)" using r(4) xs by simp
  have eq: "remove_task_from_scheduler (Some i) s
      = Some (if last xs = i then t\<lparr>task_queue_tail := Some y\<rparr> else t)"
    using list_find_path [OF r(3), of ?P] fb head nx tl by (simp add: remove_task_from_scheduler_def Let_def t_def)
  have "(last xs = i) = (zs = [])" using lst y(3) last_in_set by metis
  then have "queue_rep (if last xs = i then t\<lparr>task_queue_tail := Some y\<rparr> else t) (ws @ y # zs)"
    using pt r(1,2) xs tl lst by (auto simp: queue_rep_def t_def)
  then show ?thesis using eq xs y by (simp add: remove1_append)
qed

lemma remove_absent_task:
  assumes q: "queue_rep s xs" and "i \<notin> set xs"
  shows "remove_task_from_scheduler (Some i) s = Some s"
proof (cases xs)
  case Nil
  then show ?thesis using queue_repD(6) [OF q] by (simp add: remove_task_from_scheduler_def)
next
  case (Cons x ys)
  let ?P = "\<lambda>p. \<not> (next_of s p \<noteq> None \<and> next_of s p \<noteq> Some i)"
  note r = queue_repD [OF q]
  obtain ws y where xs: "xs = ws @ [y]" using Cons by (metis append_butlast_last_id list.discI)
  have "find ?P xs = Some y" "next_of s y = None"
    using find_last_node [of "next_of s" _ ws y i] r(3) assms(2) xs path_next [of _ _ ws y "[]"] by auto
  then show ?thesis
    using list_find_path [OF r(3), of ?P] r(6) Cons assms(2) by (simp add: remove_task_from_scheduler_def)
qed

lemma remove_task_rep:
  assumes q: "queue_rep s xs"
  shows "\<exists>t. remove_task_from_scheduler (Some i) s = Some t \<and> queue_rep t (remove1 i xs)"
proof (cases "i \<in> set xs")
  case True
  then obtain us zs where us: "xs = us @ i # zs" by (auto simp: in_set_conv_decomp)
  note r = queue_repD [OF q]
  show ?thesis
  proof (cases us rule: rev_cases)
    case Nil
    have p: "path (next_of s) (next_of s i) zs" "task_queue_tail s = Some (last (i # zs))" "task_queue_head s = Some i"
      using r(3,4,6) us Nil by simp_all
    have "zs = [] \<or> last zs \<noteq> i" using r(5) us Nil by (metis append_Nil distinct.simps(2) last_in_set)
    then show ?thesis using p r(1,2) us Nil by (auto simp: remove_task_from_scheduler_def Let_def queue_rep_def)
  next
    case (snoc ws y)
    then have xs: "xs = ws @ y # i # zs" using us by simp
    have "task_queue_head s = Some (hd xs)" "hd xs \<noteq> i" using r(5,6) xs by (cases ws; auto)+
    then show ?thesis by (rule remove_inner_task [OF q xs])
  qed
next
  case False
  then show ?thesis using remove_absent_task [OF q False] q by (simp add: remove1_idem)
qed

fun enqueue_all :: "(nat \<Rightarrow> 's \<Rightarrow> 's outcome) \<Rightarrow> nat list \<Rightarrow> 's \<Rightarrow> 's outcome" where
  "enqueue_all enq [] s = Return s"
| "enqueue_all enq (i # is) s = bind_outcome (enq i s) (enqueue_all enq is)"

text \<open>The queue as its users see it: a first-in first-out sequence of tasks with removal.\<close>

locale ready_queue =
  fixes rep :: "'s \<Rightarrow> nat list \<Rightarrow> bool" and valid :: "nat \<Rightarrow> bool"
    and enqueue :: "nat \<Rightarrow> 's \<Rightarrow> 's outcome" and dequeue :: "nat \<Rightarrow> 's \<Rightarrow> 's option"
  assumes enqueue_rep: "\<And>s xs i. rep s xs \<Longrightarrow> valid i \<Longrightarrow> i \<notin> set xs \<Longrightarrow>
      \<exists>t. enqueue i s = Return t \<and> rep t (xs @ [i])"
    and dequeue_rep: "\<And>s xs i. rep s xs \<Longrightarrow> \<exists>t. dequeue i s = Some t \<and> rep t (remove1 i xs)"
begin

lemma enqueue_all_rep:
  "rep s xs \<Longrightarrow> \<forall>i \<in> set is. valid i \<Longrightarrow> distinct (xs @ is) \<Longrightarrow>
   \<exists>t. enqueue_all enqueue is s = Return t \<and> rep t (xs @ is)"
proof (induction "is" arbitrary: s xs)
  case (Cons i "is")
  then obtain t where t: "enqueue i s = Return t" "rep t (xs @ [i])" using enqueue_rep [of s xs i] by auto
  then show ?case using Cons.IH [OF t(2)] Cons.prems by auto
qed simp

lemma enqueue_dequeue:
  assumes "rep s xs" "valid i" "i \<notin> set xs"
  shows "\<exists>t u. enqueue i s = Return t \<and> dequeue i t = Some u \<and> rep u xs"
proof -
  obtain t where t: "enqueue i s = Return t" "rep t (xs @ [i])" using enqueue_rep [OF assms] by blast
  moreover have "remove1 i (xs @ [i]) = xs" using assms(3) by (simp add: remove1_append)
  ultimately show ?thesis using dequeue_rep [OF t(2), of i] by auto
qed

end

interpretation task_queue: ready_queue queue_rep "\<lambda>i. i < 64"
  "\<lambda>i. add_task_to_scheduler (Some i)" "\<lambda>i. remove_task_from_scheduler (Some i)"
  by unfold_locales (use add_task_rep remove_task_rep in blast)+

section \<open>The choice of the next task\<close>

definition ready_in :: "'a scheduling_scheme \<Rightarrow> nat list \<Rightarrow> nat option" where
  "ready_in s xs = find (\<lambda>i. state_of s i = TASK_READY) xs"

lemma ready_cycle_eq:
  assumes "path (next_of s) (Some h) (us @ cur # vs)"
  shows "ready_cycle (tasks s) (Some h) (Some h) cur = Some (ready_in s (cur # vs))"
  using assms
proof (induction vs arbitrary: us cur)
  case Nil
  have "following (tasks s) (Some h) cur = Some h"
    using path_next [OF Nil] by (simp add: following_def)
  then show ?case by (subst ready_cycle.simps) (simp add: ready_in_def)
next
  case (Cons v vs)
  have "next_of s cur = Some v" using path_next [OF Cons.prems] by simp
  then have f: "following (tasks s) (Some h) cur = Some v" by (simp add: following_def)
  have "h = hd (us @ cur # v # vs)" using Cons.prems by (cases us) auto
  then have "v \<noteq> h" using path_distinct [OF Cons.prems] by (cases us) auto
  moreover have "ready_cycle (tasks s) (Some h) (Some h) v = Some (ready_in s (v # vs))"
    using Cons.prems by (intro Cons.IH [of "us @ [cur]"]) simp
  ultimately show ?case using f by (subst ready_cycle.simps) (simp add: ready_in_def)
qed

lemma get_next_round_robin_eq:
  assumes "queue_rep s xs"
  shows "get_next_round_robin_task s
    = Some (case ready_in s xs of Some i \<Rightarrow> Some i | None \<Rightarrow> idle_task (sched s))"
proof (cases xs)
  case Nil
  then show ?thesis using queue_repD(6) [OF assms] by (simp add: get_next_round_robin_task_def ready_in_def)
next
  case (Cons h ys)
  then have "task_queue_head s = Some h" using queue_repD(6) [OF assms] by simp
  moreover from this have "path (next_of s) (Some h) ([] @ h # ys)" using queue_repD(3) [OF assms] Cons by simp
  from ready_cycle_eq [OF this] have "ready_cycle (tasks s) (Some h) (Some h) h = Some (ready_in s xs)"
    using Cons by simp
  ultimately show ?thesis by (simp add: get_next_round_robin_task_def split: option.split)
qed

lemma get_next_fifo_eq:
  assumes "queue_rep s xs"
  shows "get_next_fifo_task s
    = Some (case ready_in s xs of Some i \<Rightarrow> Some i | None \<Rightarrow> idle_task (sched s))"
  using list_find_path [OF queue_repD(3) [OF assms]]
  by (simp add: get_next_fifo_task_def ready_in_def split: option.split)

text \<open>The fold of \<open>find_highest_priority_task\<close> keeps a least element.\<close>

lemma better_task_fold:
  "fold (better_task ts) xs (b, h) = (b, h) \<and> (\<forall>j \<in> set xs. state (ts ! j) = TASK_READY \<longrightarrow> h \<le> priority (ts ! j))
   \<or> (\<exists>i \<in> set xs. fold (better_task ts) xs (b, h) = (Some i, priority (ts ! i))
        \<and> state (ts ! i) = TASK_READY \<and> priority (ts ! i) < h
        \<and> (\<forall>j \<in> set xs. state (ts ! j) = TASK_READY \<longrightarrow> priority (ts ! i) \<le> priority (ts ! j)))"
proof (induction xs arbitrary: b h)
  case (Cons x xs)
  show ?case
  proof (cases "state (ts ! x) = TASK_READY \<and> priority (ts ! x) < h")
    case True
    then show ?thesis using Cons.IH [of "Some x" "priority (ts ! x)"] by (auto simp: better_task_def)
  next
    case False
    then show ?thesis using Cons.IH [of b h] by (fastforce simp: better_task_def)
  qed
qed simp

lemma find_highest_eq:
  assumes "queue_rep s xs"
  shows "find_highest_priority_task s
    = Some (let b = fst (fold (better_task (tasks s)) xs (None, MAX_PRIORITY + 1))
            in if b \<noteq> None then b else idle_task (sched s))"
  by (simp add: find_highest_priority_task_def Let_def list_fold_path [OF queue_repD(3) [OF assms]]
      split: prod.split)

section \<open>The invariant of task management under the scheduler's operations\<close>

lemma sched_task_inv [simp]:
  "task_inv (s\<lparr>sched := v\<rparr>) n c = task_inv s n c"
  "task_inv (s\<lparr>task_queue_head := q\<rparr>) n c = task_inv s n c"
  "task_inv (s\<lparr>task_queue_tail := q\<rparr>) n c = task_inv s n c"
  by (simp_all add: task_inv_def)

lemma set_field_inv:
  assumes "task_inv s n c" "\<And>t. pid (f t) = pid t \<and> state (f t) = state t \<and> name (f t) = name t \<and> next_task (f t) = next_task t"
  shows "task_inv (set_task i f s) n c"
proof -
  have "pid (tasks (set_task i f s) ! j) = pid (tasks s ! j)" "state_of (set_task i f s) j = state_of s j"
    "name (tasks (set_task i f s) ! j) = name (tasks s ! j)" "next_of (set_task i f s) j = next_of s j" for j
    unfolding set_task_fields using assms(2) by (simp_all add: nth_update_field)
  then show ?thesis using assms(1) unfolding task_inv_def by simp
qed

lemma yield_inv:
  assumes "task_inv s n c"
  shows "\<exists>t d. yield s = Some t \<and> task_inv t n d"
proof -
  have "task_inv (case sched_current (sched s) of
      Some c \<Rightarrow> set_task c (\<lambda>t. t\<lparr>state := TASK_READY\<rparr>) s | None \<Rightarrow> s) n c"
    using assms by (auto split: option.split intro!: set_state_inv)
  from schedule_inv [OF this] show ?thesis by (simp add: yield_def Let_def)
qed

lemma update_runtime_inv [simp]: "task_inv (update_task_runtime t k s) n c = task_inv s n c"
  by (simp add: update_task_runtime_def Let_def)

lemma scheduler_tick_inv:
  assumes "task_inv s n c"
  shows "\<exists>t d. scheduler_tick s = Some t \<and> task_inv t n d"
  using assms by (auto simp: scheduler_tick_def Let_def simp del: ex_simps intro!: yield_inv)

lemma force_schedule_inv:
  assumes "task_inv s n c"
  shows "\<exists>t d. force_schedule s = Some t \<and> task_inv t n d"
  unfolding force_schedule_def using assms by (intro schedule_inv) simp

lemma set_task_priority_inv: "task_inv s n c \<Longrightarrow> task_inv (set_task_priority t p s) n c"
  by (cases t) (auto simp: set_task_priority_def calculate_time_slice_def Let_def intro!: set_field_inv)

lemma start_scheduler_inv [simp]: "task_inv (start_scheduler s) n c = task_inv s n c"
  by (simp add: start_scheduler_def Let_def)

lemma stop_scheduler_inv [simp]: "task_inv (stop_scheduler s) n c = task_inv s n c"
  by (simp add: stop_scheduler_def)

lemma switch_context_inv: "task_inv s n c \<Longrightarrow> task_inv (switch_context a b s) n c"
  by (cases a) (auto simp: switch_context_def intro!: set_field_inv)

section \<open>Properties of the scheduler\<close>

definition power_on_scheduling :: scheduling where
  "power_on_scheduling = tasking.extend power_on_tasking (scheduling.fields
     \<lparr>sched_current = None, idle_task = None, sched_state = SCHED_RUNNING, policy = SCHED_ROUND_ROBIN,
       time_slice = 0, ticks_remaining = 0,
       stats = \<lparr>total_switches = 0, idle_time = 0, active_time = 0, timer_ticks = 0, preemptions = 0,
         last_scheduled = None\<rparr>\<rparr> None None)"

lemma power_on_scheduling_fields [simp]:
  "tasks power_on_scheduling = replicate 64 zero_task" "next_pid power_on_scheduling = 1"
  "task_count power_on_scheduling = 0" "current_task power_on_scheduling = None"
  "task_queue_head power_on_scheduling = None" "task_queue_tail power_on_scheduling = None"
  by (simp_all add: power_on_scheduling_def power_on_tasking_def tasking.defs scheduling.defs memory.defs)

lemma empty_queue_rep: "length (tasks s) = 64 \<Longrightarrow> task_queue_head s = None \<Longrightarrow> queue_rep s []"
  by (simp add: queue_rep_def)

lemma power_on_queue: "queue_rep power_on_scheduling []"
  by (rule empty_queue_rep) simp_all

definition ready_sched :: scheduling where
  "ready_sched = init_task_manager power_on_scheduling"

lemma ready_sched_inv: "task_inv ready_sched 1 0" and ready_sched_queue: "queue_rep ready_sched []"
proof -
  show inv: "task_inv ready_sched 1 0"
    unfolding ready_sched_def by (rule init_task_inv) (simp add: static_tasks_def zero_task_def)
  then show "queue_rep ready_sched []"
    using task_invD(1) by (intro empty_queue_rep) (auto simp: ready_sched_def)
qed

text \<open>
  C32: the task queue is first-in first-out. On a well-formed queue holding \<open>xs\<close>, adding a task that
  is not queued returns and leaves a well-formed queue holding \<open>xs\<close> and then that task, which is
  ready, and removing any task returns and takes exactly it out, at the head, in the middle or at
  the end; adding and then removing restores the queue.
\<close>

theorem task_queue_correct:
  assumes "queue_rep s xs" "i < 64" "i \<notin> set xs"
  shows "\<exists>t u. add_task_to_scheduler (Some i) s = Return t \<and> queue_rep t (xs @ [i])
      \<and> state_of t i = TASK_READY \<and> remove_task_from_scheduler (Some i) t = Some u \<and> queue_rep u xs
      \<and> (\<forall>j. \<exists>v. remove_task_from_scheduler (Some j) t = Some v \<and> queue_rep v (remove1 j (xs @ [i])))"
proof -
  obtain t where t: "add_task_to_scheduler (Some i) s = Return t" "queue_rep t (xs @ [i])"
    "state_of t i = TASK_READY" using add_task_rep [OF assms] by blast
  moreover obtain u where "remove_task_from_scheduler (Some i) t = Some u" "queue_rep u xs"
    using task_queue.enqueue_dequeue [OF assms] t(1) by auto
  ultimately show ?thesis using remove_task_rep [OF t(2)] by blast
qed

theorem task_queue_correct_witness:
  "\<exists>t. add_task_to_scheduler (Some 3) power_on_scheduling = Return t \<and> queue_rep t [3]"
  using task_queue_correct [OF power_on_queue, of 3] by auto

text \<open>
  The choice of the next task. On a well-formed queue \<open>get_next_task\<close> returns under every
  policy. Under the FIFO policy and under the round-robin policy alike it is the first ready task
  of the queue, or the idle task when there is none: the round-robin search always starts at the
  head of the queue, so the two policies are the same.
\<close>

theorem round_robin_is_fifo:
  assumes "queue_rep s xs"
  shows "get_next_round_robin_task s = get_next_fifo_task s
    \<and> get_next_fifo_task s = Some (case find (\<lambda>i. state_of s i = TASK_READY) xs of
         Some i \<Rightarrow> Some i | None \<Rightarrow> idle_task (sched s))
    \<and> (\<exists>r. get_next_task s = Some r)"
  using get_next_round_robin_eq [OF assms] get_next_fifo_eq [OF assms] find_highest_eq [OF assms]
  by (simp add: ready_in_def get_next_task_def Let_def split: sched_policy.split)

theorem round_robin_is_fifo_witness:
  "get_next_round_robin_task power_on_scheduling = get_next_fifo_task power_on_scheduling"
  using round_robin_is_fifo [OF power_on_queue] by blast

text \<open>
  C33: the priority policy. \<open>find_highest_priority_task\<close> returns a ready task of the queue whose
  priority number is the least among the ready tasks, and the idle task when no ready task has a
  priority of at most \<open>MAX_PRIORITY\<close>.
\<close>

theorem highest_priority_correct:
  assumes "queue_rep s xs"
  shows "(\<exists>i \<in> set xs. find_highest_priority_task s = Some (Some i) \<and> state_of s i = TASK_READY
        \<and> priority (tasks s ! i) \<le> MAX_PRIORITY
        \<and> (\<forall>j \<in> set xs. state_of s j = TASK_READY \<longrightarrow> priority (tasks s ! i) \<le> priority (tasks s ! j)))
    \<or> (find_highest_priority_task s = Some (idle_task (sched s))
        \<and> (\<forall>j \<in> set xs. state_of s j = TASK_READY \<longrightarrow> MAX_PRIORITY < priority (tasks s ! j)))"
  using better_task_fold [of "tasks s" xs None "MAX_PRIORITY + 1"] find_highest_eq [OF assms]
  by (auto simp: Let_def)

theorem highest_priority_correct_witness:
  "find_highest_priority_task power_on_scheduling = Some (idle_task (sched power_on_scheduling))"
  using highest_priority_correct [OF power_on_queue] by simp

text \<open>
  Priorities and time slices. \<open>set_task_priority\<close> clamps the priority to 0..40 and sets the time
  slice to \<open>50 - priority\<close>, which lies between 10 and 50; \<open>calculate_time_slice\<close> on its own stays
  within 1..50 for every priority value.
\<close>

theorem time_slice_bounds:
  assumes "i < length (tasks s)"
  shows "priority (tasks (set_task_priority (Some i) p s) ! i) = max 0 (min 40 p)
    \<and> unat (time_slice (sched (set_task_priority (Some i) p s))) = nat (50 - max 0 (min 40 p))
    \<and> 1 \<le> unat (time_slice (sched (calculate_time_slice (Some i) s)))
    \<and> unat (time_slice (sched (calculate_time_slice (Some i) s))) \<le> 50"
proof -
  define q where "q = max 0 (min 40 p)"
  have q: "(let prio = (if p < MIN_PRIORITY then MIN_PRIORITY else p) in if prio > MAX_PRIORITY then MAX_PRIORITY else prio) = q"
    by (auto simp: q_def MIN_PRIORITY_def MAX_PRIORITY_def)
  have wi: "unat (word_of_int k :: u32) = nat k" if k: "0 \<le> k" "k \<le> 50" for k
  proof -
    have "k = int (nat k)" using k(1) by simp
    then have "(word_of_int k :: u32) = adr (nat k)" unfolding adr_def by (metis of_int_of_nat_eq)
    then show ?thesis using k unat_adr [of "nat k"] by simp
  qed
  have c: "unat (time_slice (sched (calculate_time_slice (Some i) u)))
      = nat (max 1 (min 50 (50 - priority (tasks u ! i))))" for u :: "'a scheduling_scheme"
    by (auto simp: calculate_time_slice_def Let_def MIN_TIME_SLICE_def MAX_TIME_SLICE_def
        DEFAULT_TIME_SLICE_def MAX_PRIORITY_def wi)
  have st: "set_task_priority (Some i) p s = calculate_time_slice (Some i) (set_task i (\<lambda>t. t\<lparr>priority := q\<rparr>) s)"
    using q by (simp add: set_task_priority_def Let_def)
  have "tasks (calculate_time_slice t u) = tasks u" for t and u :: "'a scheduling_scheme"
    by (simp add: calculate_time_slice_def Let_def split: option.split)
  moreover have "max 1 (min 50 (50 - q)) = 50 - q" by (simp add: q_def)
  moreover have "1 \<le> nat (max 1 (min 50 k)) \<and> nat (max 1 (min 50 k)) \<le> 50" for k :: int by linarith
  ultimately show ?thesis using assms unfolding st c q_def [symmetric] by simp
qed

theorem time_slice_bounds_witness:
  "unat (time_slice (sched (set_task_priority (Some 5) 100 power_on_scheduling))) = 10"
  using time_slice_bounds [of 5 power_on_scheduling 100] by simp

text \<open>
  One timer tick. The tick counter always advances. While the scheduler runs a task, exactly
  one of idle and active time advances by one, and the remaining time counts down to 0; nothing
  ever reloads it, so from then on every tick counts a preemption and yields.
\<close>

theorem scheduler_tick_accounting:
  assumes "task_inv s n c" "sched_state (sched s) = SCHED_RUNNING" "sched_current (sched s) = Some r"
  defines "sc \<equiv> sched s"
  shows "\<exists>t. scheduler_tick s = Some t
    \<and> timer_ticks (stats (sched t)) = timer_ticks (stats sc) + 1
    \<and> idle_time (stats (sched t)) + active_time (stats (sched t))
        = idle_time (stats sc) + active_time (stats sc) + 1
    \<and> ticks_remaining (sched t) = (if ticks_remaining sc = 0 then 0 else ticks_remaining sc - 1)
    \<and> preemptions (stats (sched t))
        = (if ticks_remaining (sched t) = 0 then preemptions (stats sc) + 1 else preemptions (stats sc))
    \<and> sched_state (sched t) = SCHED_RUNNING \<and> sched_current (sched t) = Some r"
proof -
  define d where "d = (if ticks_remaining sc = 0 then sc else sc\<lparr>ticks_remaining := ticks_remaining sc - 1\<rparr>)"
  define u where "u = s\<lparr>sched := d\<lparr>stats := (stats sc)\<lparr>timer_ticks := timer_ticks (stats sc) + 1,
      idle_time := (if Some r = idle_task sc then idle_time (stats sc) + 1 else idle_time (stats sc)),
      active_time := (if Some r = idle_task sc then active_time (stats sc) else active_time (stats sc) + 1)\<rparr>\<rparr>\<rparr>"
  let ?v = "u\<lparr>sched := (sched u)\<lparr>stats := (stats (sched u))\<lparr>preemptions := preemptions (stats sc) + 1\<rparr>\<rparr>\<rparr>"
  have eq: "scheduler_tick s = (if ticks_remaining (sched u) = 0 then yield ?v else Some u)"
    using assms(2,3) by (auto simp: scheduler_tick_def update_task_runtime_def Let_def u_def d_def sc_def word_neq_0_conv)
  have "task_inv ?v n c" using assms(1) by (simp add: u_def)
  then obtain t where t: "yield ?v = Some t" using yield_inv by blast
  then have "sched t = sched ?v"
    by (auto simp: yield_def Let_def dest!: sched_tasks.f_schedule split: option.splits)
  then show ?thesis using eq t assms(2,3) by (cases "ticks_remaining (sched u) = 0") (auto simp: u_def d_def sc_def)
qed

theorem scheduler_tick_accounting_witness:
  "\<exists>s t. task_inv (s :: scheduling) 1 0 \<and> scheduler_tick s = Some t \<and> preemptions (stats (sched t)) = 1"
proof -
  let ?s = "ready_sched\<lparr>sched := (sched power_on_scheduling)\<lparr>sched_current := Some 0\<rparr>\<rparr>"
  have inv: "task_inv ?s 1 0" using ready_sched_inv by simp
  have "sched power_on_scheduling = \<lparr>sched_current = None, idle_task = None, sched_state = SCHED_RUNNING,
      policy = SCHED_ROUND_ROBIN, time_slice = 0, ticks_remaining = 0,
      stats = \<lparr>total_switches = 0, idle_time = 0, active_time = 0, timer_ticks = 0, preemptions = 0,
        last_scheduled = None\<rparr>\<rparr>"
    by (simp add: power_on_scheduling_def power_on_tasking_def tasking.defs scheduling.defs memory.defs)
  then have "\<exists>t. scheduler_tick ?s = Some t \<and> preemptions (stats (sched t)) = 1"
    using scheduler_tick_accounting [OF inv, of 0] by auto
  then show ?thesis using inv by blast
qed

text \<open>
  The queue and the task list share the \<open>next\<close> field. Adding a task of the list to an empty
  queue cuts the task list behind it: every later task, still in the table, is no longer found.
\<close>

theorem queueing_cuts_task_list:
  assumes "task_inv s n c" "task_queue_head s = None" "i < j" "j < n"
  shows "\<exists>t. add_task_to_scheduler (Some i) s = Return t
    \<and> find_task (pid (tasks s ! j)) s = Some (Some j) \<and> find_task (pid (tasks s ! j)) t = Some None"
proof -
  define t where "t = (set_task i (\<lambda>t. t\<lparr>next_task := None, state := TASK_READY\<rparr>) s)
    \<lparr>task_queue_head := Some i, task_queue_tail := Some i\<rparr>"
  note d = task_invD [OF assms(1)]
  have i: "i < length (tasks s)" using d(1,3) assms(3,4) by simp
  have nx: "next_of t k = (if k < i then Some (Suc k) else None)" if "k \<le> i" for k
    using that d(8) [of k] assms(3,4) i by (cases "k = i") (auto simp: t_def)
  have "path (next_of t) (Some k) [k..<Suc i]" if "k \<le> i" for k
    using that
  proof (induction "i - k" arbitrary: k)
    case 0
    then show ?case using nx by simp
  next
    case (Suc m)
    then have "path (next_of t) (Some (Suc k)) [Suc k..<Suc i]" by simp
    then show ?case using nx [of k] Suc by (simp add: upt_conv_Cons)
  qed
  from this [of 0] have p: "path (next_of t) (task_list t) [0..<Suc i]" using d(5) by (simp add: t_def)
  have pids: "pid (tasks t ! k) = pid (tasks s ! k)" for k
    unfolding t_def by (simp add: nth_update_field [where f = "\<lambda>t. t\<lparr>next_task := None, state := TASK_READY\<rparr>"])
  have "pid (tasks s ! k) \<noteq> pid (tasks s ! j)" if "k < Suc i" for k
    using inj_onD [OF d(10), of k j] that assms(3,4) by auto
  then have "find_task (pid (tasks s ! j)) t = Some None"
    using list_find_path [OF p] by (auto simp: find_task_def pids find_None_iff)
  moreover have "add_task_to_scheduler (Some i) s = Return t"
    using assms(2) by (simp add: add_task_to_scheduler_def Let_def t_def)
  ultimately show ?thesis using find_task_Some [OF assms(1,4)] by blast
qed

theorem queueing_cuts_task_list_witness:
  "\<exists>s t. task_inv (s :: scheduling) 2 0 \<and> add_task_to_scheduler (Some 0) s = Return t
     \<and> find_task (pid (tasks s ! 1)) t = Some None"
proof -
  obtain s where s: "create_task (cstr ''demo'') 0 ready_sched = Some (Some 1, s)" "task_inv s 2 0"
    using create_task_inv [OF ready_sched_inv, of "cstr ''demo''" 0] by (auto simp: numeral_2_eq_2)
  have "task_queue_head s = None"
    using task_queue_head_tasks.f_create_task [OF s(1)] by (simp add: ready_sched_def)
  then show ?thesis using queueing_cuts_task_list [OF s(2), of 0 1] s(2) by auto
qed

text \<open>
  The queue can lose its tail. Queue the last task of the task list, create another task
  (which is linked behind it), and remove the queued task: the queue's head is now the new task
  while its tail is NULL, and the next call of \<open>add_task_to_scheduler\<close> writes through NULL.
\<close>

theorem queue_null_tail:
  assumes "task_inv s n c" "n < 64" "task_queue_head s = None"
  shows "\<exists>t u v. add_task_to_scheduler (Some (n - 1)) s = Return t
    \<and> create_task nm e t = Some (Some n, u) \<and> remove_task_from_scheduler (Some (n - 1)) u = Some v
    \<and> add_task_to_scheduler (Some k) v = Undefined"
proof -
  let ?i = "n - 1"
  note d = task_invD [OF assms(1)]
  have i: "?i < n" "?i < length (tasks s)" using d(1,2,3) by simp_all
  define t where "t = (set_task ?i (\<lambda>t. t\<lparr>next_task := None, state := TASK_READY\<rparr>) s)
    \<lparr>task_queue_head := Some ?i, task_queue_tail := Some ?i\<rparr>"
  have add: "add_task_to_scheduler (Some ?i) s = Return t"
    using assms(3) by (simp add: add_task_to_scheduler_def Let_def t_def)
  have "next_of s ?i = None" using d(8) [OF i(1)] d(2) by simp
  then have "(tasks s ! ?i)\<lparr>next_task := None, state := TASK_READY\<rparr> = (tasks s ! ?i)\<lparr>state := TASK_READY\<rparr>"
    by (cases "tasks s ! ?i") simp
  then have "t = (set_task ?i (\<lambda>t. t\<lparr>state := TASK_READY\<rparr>) s)\<lparr>task_queue_head := Some ?i, task_queue_tail := Some ?i\<rparr>"
    by (simp add: t_def set_task_def)
  then have inv: "task_inv t n c" using set_state_inv [OF assms(1), of TASK_READY ?i] by simp
  obtain u where u: "create_task nm e t = Some (Some n, u)"
    "tasks u = (tasks t)[n := new_task nm e t n c, ?i := (tasks t ! ?i)\<lparr>next_task := Some n\<rparr>]"
    using create_task_eq [OF inv assms(2)] by blast
  have "next_of u ?i = Some n" using u(2) task_invD(1) [OF inv] assms(2) by simp
  moreover have "task_queue_head u = Some ?i" "task_queue_tail u = Some ?i"
    using task_queue_head_tasks.f_create_task [OF u(1)] task_queue_tail_tasks.f_create_task [OF u(1)]
    by (simp_all add: t_def)
  ultimately show ?thesis using add u(1)
    by (auto simp: remove_task_from_scheduler_def add_task_to_scheduler_def Let_def)
qed

theorem queue_null_tail_witness:
  "\<exists>t u v. add_task_to_scheduler (Some (1 - 1)) ready_sched = Return t
    \<and> create_task (cstr ''demo'') 0 t = Some (Some 1, u)
    \<and> remove_task_from_scheduler (Some (1 - 1)) u = Some v \<and> add_task_to_scheduler (Some 1) v = Undefined"
proof -
  have "task_queue_head ready_sched = None" by (simp add: ready_sched_def)
  from queue_null_tail [OF ready_sched_inv _ this] show ?thesis by simp
qed

lemma init_scheduler_zeroed:
  assumes "\<forall>i < 64. pid (tasks s ! i) = 0" "task_count s = 0"
  shows "\<exists>v. init_scheduler addr s = Some ((print_string (cstr ''[ERROR] No free task slot'' @ [0x0A])
      (s\<lparr>sched := v, task_queue_head := None, task_queue_tail := None\<rparr>))\<lparr>sched := v\<rparr>)
    \<and> sched_current v = None \<and> idle_task v = None \<and> timer_ticks (stats v) = 0 \<and> preemptions (stats v) = 0"
proof -
  define v where "v = \<lparr>sched_current = None, idle_task = None, sched_state = SCHED_STOPPED,
      policy = SCHED_ROUND_ROBIN, time_slice = of_int DEFAULT_TIME_SLICE, ticks_remaining = of_int DEFAULT_TIME_SLICE,
      stats = \<lparr>total_switches = 0, idle_time = 0, active_time = 0, timer_ticks = 0, preemptions = 0, last_scheduled = None\<rparr>\<rparr>"
  define r where "r = s\<lparr>sched := v, task_queue_head := None, task_queue_tail := None\<rparr>"
  have "free_slot r = None" using assms(1) by (auto simp: free_slot_def find_None_iff MAX_TASKS_def INVALID_PID_def r_def)
  then have "create_task (cstr ''idle'') addr r = Some (None, print_string (cstr ''[ERROR] No free task slot'' @ [0x0A]) r)"
    using assms(2) by (simp add: create_task_def MAX_TASKS_def r_def)
  then have "init_scheduler addr s
      = Some ((print_string (cstr ''[ERROR] No free task slot'' @ [0x0A]) r)\<lparr>sched := v\<lparr>idle_task := None\<rparr>\<rparr>)"
    by (simp add: init_scheduler_def create_idle_task_def Let_def setup_scheduler_timer_def r_def v_def)
  then show ?thesis by (intro exI [of _ v]) (simp add: r_def v_def)
qed

text \<open>
  The order of initialisation at boot. \<open>init_scheduler\<close> runs before \<open>init_task_manager\<close>, when the
  static task table is still zeroed and no slot is marked free. Creating the idle task fails, the
  idle task stays NULL, and the started scheduler has no current task, so its ticks only count.
\<close>

theorem boot_order_no_idle_task:
  assumes "\<forall>i < 64. pid (tasks s ! i) = 0" "task_count s = 0"
  shows "\<exists>t. init_scheduler addr s = Some t \<and> idle_task (sched t) = None
    \<and> sched_current (sched (start_scheduler t)) = None
    \<and> (\<exists>u. scheduler_tick (start_scheduler t) = Some u \<and> tasks u = tasks s
        \<and> timer_ticks (stats (sched u)) = 1 \<and> preemptions (stats (sched u)) = 0)"
proof -
  from init_scheduler_zeroed [OF assms, of addr] obtain v t where
    t: "init_scheduler addr s = Some t" "sched t = v" "tasks t = tasks s"
    and v: "sched_current v = None" "idle_task v = None" "timer_ticks (stats v) = 0" "preemptions (stats v) = 0"
    by (fastforce simp del: ex_simps)
  then show ?thesis by (simp add: start_scheduler_def scheduler_tick_def Let_def)
qed

theorem boot_order_no_idle_task_witness:
  "\<exists>t. init_scheduler 0x1000 power_on_scheduling = Some t \<and> idle_task (sched t) = None"
proof -
  have "\<forall>i < 64. pid (tasks power_on_scheduling ! i) = 0" "task_count power_on_scheduling = 0"
    by (simp_all add: zero_task_def)
  from boot_order_no_idle_task [OF this] show ?thesis by blast
qed

end
