(* ===== verification/Interrupt.thy ===== *)
theory Interrupt
  imports Scheduler
begin

text \<open>
  The interrupt system of \<open>kernel/interrupt.c\<close> and \<open>kernel/interrupt.h\<close>: the interrupt descriptor
  table, the programmable interrupt controllers, registration of handlers, the two dispatchers
  \<open>isr_handler\<close> and \<open>irq_handler\<close> and the handlers of this file. Function pointers are a datatype
  with one constructor per function the program registers. Two of them (the keyboard's
  interrupt handler and \<open>syscall_entry\<close>) belong to later theories, so the dispatchers take the
  function that runs a handler as an argument.
\<close>

section \<open>Data\<close>

definition IDT_SIZE :: nat where "IDT_SIZE = 256"
definition INTERRUPT_GATE :: u8 where "INTERRUPT_GATE = 0x8E"
definition TRAP_GATE :: u8 where "TRAP_GATE = 0x8F"
definition IRQ_TIMER :: u8 where "IRQ_TIMER = 0x20"
definition IRQ_KEYBOARD :: u8 where "IRQ_KEYBOARD = 0x21"
definition EXCEPTION_DIVIDE_ERROR :: u8 where "EXCEPTION_DIVIDE_ERROR = 0x00"
definition EXCEPTION_GENERAL_PROTECTION :: u8 where "EXCEPTION_GENERAL_PROTECTION = 0x0D"
definition EXCEPTION_PAGE_FAULT :: u8 where "EXCEPTION_PAGE_FAULT = 0x0E"

record idt_entry =
  offset_low :: u16
  selector :: u16
  zero :: u8
  type_attr :: u8
  offset_high :: u16

record idt_ptr =
  limit :: u16
  base :: u32

record interrupt_context =
  ctx_edi :: u32
  ctx_esi :: u32
  ctx_ebp :: u32
  ctx_esp :: u32
  ctx_ebx :: u32
  ctx_edx :: u32
  ctx_ecx :: u32
  ctx_eax :: u32
  int_no :: u32
  err_code :: u32
  ctx_eip :: u32
  ctx_cs :: u32
  ctx_eflags :: u32
  ctx_useresp :: u32
  ctx_ss :: u32

datatype interrupt_handler =
    Divide_error_handler
  | Page_fault_handler
  | General_protection_fault_handler
  | Timer_handler
  | Keyboard_handler
  | Keyboard_interrupt_handler
  | Syscall_entry

text \<open>\<open>idtr\<close> is the operand of the last \<open>lidt\<close>.\<close>

record interrupts = scheduling +
  idt :: "idt_entry list"
  idtp :: idt_ptr
  interrupt_handlers :: "interrupt_handler option list"
  interrupt_count :: u32
  tick_count :: u32
  idtr :: u32

type_synonym 'a run_handler =
  "interrupt_handler \<Rightarrow> interrupt_context \<Rightarrow> 'a interrupts_scheme \<Rightarrow> 'a interrupts_scheme outcome"

section \<open>Tables\<close>

definition set_idt_entry :: "u8 \<Rightarrow> u32 \<Rightarrow> u16 \<Rightarrow> u8 \<Rightarrow> 'a interrupts_scheme \<Rightarrow> 'a interrupts_scheme" where
  "set_idt_entry num bas sel flags s =
     s\<lparr>idt := (idt s)[unat num := (idt s ! unat num)\<lparr>offset_low := ucast (bas AND 0xFFFF),
         offset_high := ucast (drop_bit 16 bas AND 0xFFFF), selector := sel, zero := 0, type_attr := flags\<rparr>]\<rparr>"

definition clear_idt_entry :: "nat \<Rightarrow> idt_entry" where
  "clear_idt_entry i = \<lparr>offset_low = 0, selector = 0, zero = 0, type_attr = 0, offset_high = 0\<rparr>"

text \<open>
  The vectors with an assembly stub (\<open>isr0\<close> to \<open>isr14\<close> without 9, \<open>irq0\<close> to \<open>irq7\<close>), in the order of
  the calls. The linker fixes the stubs' addresses (\<open>stub\<close>) and the table's (\<open>idt_address\<close>).
\<close>

definition gate_vectors :: "u8 list" where
  "gate_vectors = [0, 1, 2, 3, 4, 5, 6, 7, 8, 10, 11, 12, 13, 14, 32, 33, 34, 35, 36, 37, 38, 39]"

definition init_idt :: "(u8 \<Rightarrow> u32) \<Rightarrow> u32 \<Rightarrow> 'a interrupts_scheme \<Rightarrow> 'a interrupts_scheme" where
  "init_idt stub idt_address s =
     (let s = s\<lparr>idtp := \<lparr>limit = of_nat (8 * IDT_SIZE) - 1, base = idt_address\<rparr>\<rparr>;
          s = s\<lparr>idt := fill_loop clear_idt_entry IDT_SIZE (idt s)\<rparr>
      in fold (\<lambda>v. set_idt_entry v (stub v) 0x08 INTERRUPT_GATE) gate_vectors s)"

definition init_pic :: "'a machine_scheme \<Rightarrow> 'a machine_scheme" where
  "init_pic s =
     (let s = outb 0x20 0x11 s; s = outb 0xA0 0x11 s;
          s = outb 0x21 0x20 s; s = outb 0xA1 0x28 s;
          s = outb 0x21 0x04 s; s = outb 0xA1 0x02 s;
          s = outb 0x21 0x01 s; s = outb 0xA1 0x01 s;
          s = outb 0x21 0x00 s
      in outb 0xA1 0x00 s)"

definition register_interrupt_handler :: "u8 \<Rightarrow> interrupt_handler \<Rightarrow> 'a interrupts_scheme \<Rightarrow> 'a interrupts_scheme" where
  "register_interrupt_handler num h s =
     s\<lparr>interrupt_handlers := (interrupt_handlers s)[unat num := Some h]\<rparr>"

text \<open>
  \<open>load_idt\<close> takes the address of \<open>idt_ptr\<close> from the stack; \<open>init_interrupts\<close> calls it without an
  argument, so what it loads is the stack word that happens to be there (\<open>stack_word\<close>).
\<close>

definition load_idt :: "u32 \<Rightarrow> 'a interrupts_scheme \<Rightarrow> 'a interrupts_scheme" where
  "load_idt stack_word s = s\<lparr>idtr := stack_word\<rparr>"

definition init_interrupts :: "(u8 \<Rightarrow> u32) \<Rightarrow> u32 \<Rightarrow> u32 \<Rightarrow> 'a interrupts_scheme \<Rightarrow> 'a interrupts_scheme" where
  "init_interrupts stub idt_address stack_word s =
     (let s = print_string msg_interrupt_19 s;
          s = s\<lparr>interrupt_handlers := fill_loop (\<lambda>i. None) IDT_SIZE (interrupt_handlers s)\<rparr>;
          s = init_idt stub idt_address s;
          s = init_pic s;
          s = register_interrupt_handler EXCEPTION_DIVIDE_ERROR Divide_error_handler s;
          s = register_interrupt_handler EXCEPTION_PAGE_FAULT Page_fault_handler s;
          s = register_interrupt_handler EXCEPTION_GENERAL_PROTECTION General_protection_fault_handler s;
          s = register_interrupt_handler IRQ_TIMER Timer_handler s;
          s = register_interrupt_handler IRQ_KEYBOARD Keyboard_handler s;
          s = load_idt stack_word s
      in print_string msg_interrupt_44 s)"

section \<open>Handlers\<close>

definition print_interrupt_info :: "interrupt_context \<Rightarrow> 'a machine_scheme \<Rightarrow> 'a machine_scheme" where
  "print_interrupt_info ctx s =
     (let s = print_string msg_interrupt_225 s;
          s = print_hex (int_no ctx) s;
          s = print_string msg_interrupt_227 s;
          s = print_hex (err_code ctx) s;
          s = print_string [0x0A] s;
          s = print_string (cstr ''EIP: '') s;
          s = print_hex (ctx_eip ctx) s;
          s = print_string (cstr '', CS: '') s;
          s = print_hex (ctx_cs ctx) s
      in print_string [0x0A] s)"

definition timer_handler :: "interrupt_context \<Rightarrow> 'a interrupts_scheme \<Rightarrow> 'a interrupts_scheme outcome" where
  "timer_handler ctx s =
     (let s = s\<lparr>tick_count := tick_count s + 1\<rparr>;
          s = (if tick_count s mod 100 = 0 then print_char 0x2E s else s)
      in if tick_count s mod 10 = 0 then outcome_of_option (schedule s) else Return s)"

definition keyboard_handler :: "interrupt_context \<Rightarrow> 'a machine_scheme \<Rightarrow> 'a machine_scheme outcome" where
  "keyboard_handler ctx s =
     (let (scancode, s) = inb 0x60 s;
          s = print_string msg_interrupt_184 s;
          s = print_hex (ucast scancode) s
      in Return (print_string [0x0A] s))"

definition divide_error_handler :: "interrupt_context \<Rightarrow> 'a machine_scheme \<Rightarrow> 'a machine_scheme outcome" where
  "divide_error_handler ctx s =
     (let s = print_string msg_interrupt_191 s
      in Halted (print_interrupt_info ctx s))"

definition page_fault_handler :: "interrupt_context \<Rightarrow> 'a machine_scheme \<Rightarrow> 'a machine_scheme outcome" where
  "page_fault_handler ctx s =
     (let faulting_address = cr2 s;
          s = print_string msg_interrupt_201 s;
          s = print_hex faulting_address s;
          s = print_string [0x0A] s
      in Halted (print_interrupt_info ctx s))"

definition general_protection_fault_handler :: "interrupt_context \<Rightarrow> 'a machine_scheme \<Rightarrow> 'a machine_scheme outcome" where
  "general_protection_fault_handler ctx s =
     (let s = print_string msg_interrupt_210 s
      in Halted (print_interrupt_info ctx s))"

definition send_eoi :: "u8 \<Rightarrow> 'a machine_scheme \<Rightarrow> 'a machine_scheme" where
  "send_eoi irq s =
     (let s = (if irq \<ge> 8 then outb 0xA0 0x20 s else s)
      in outb 0x20 0x20 s)"

definition isr_handler :: "'a run_handler \<Rightarrow> interrupt_context \<Rightarrow> 'a interrupts_scheme \<Rightarrow> 'a interrupts_scheme outcome" where
  "isr_handler run ctx s =
     (let s = s\<lparr>interrupt_count := interrupt_count s + 1\<rparr>
      in if unat (int_no ctx) \<ge> IDT_SIZE then Undefined
         else case interrupt_handlers s ! unat (int_no ctx) of
           Some h \<Rightarrow> run h ctx s
         | None \<Rightarrow>
             let s = print_string msg_interrupt_145 s;
                 s = print_hex (int_no ctx) s;
                 s = print_string [0x0A] s
             in Return (print_interrupt_info ctx s))"

definition irq_handler :: "'a run_handler \<Rightarrow> interrupt_context \<Rightarrow> 'a interrupts_scheme \<Rightarrow> 'a interrupts_scheme outcome" where
  "irq_handler run ctx s =
     (let s = s\<lparr>interrupt_count := interrupt_count s + 1\<rparr>;
          s = send_eoi (ucast (int_no ctx - 32)) s
      in if unat (int_no ctx) \<ge> IDT_SIZE then Undefined
         else case interrupt_handlers s ! unat (int_no ctx) of
           Some h \<Rightarrow> run h ctx s
         | None \<Rightarrow> Return s)"

definition get_interrupt_count :: "'a interrupts_scheme \<Rightarrow> u32" where
  "get_interrupt_count s = interrupt_count s"

definition get_timer_ticks :: "'a interrupts_scheme \<Rightarrow> u32" where
  "get_timer_ticks s = tick_count s"

text \<open>A context for evaluation.\<close>

definition zero_context :: "u32 \<Rightarrow> interrupt_context" where
  "zero_context n = \<lparr>ctx_edi = 0, ctx_esi = 0, ctx_ebp = 0, ctx_esp = 0, ctx_ebx = 0, ctx_edx = 0, ctx_ecx = 0,
     ctx_eax = 0, int_no = n, err_code = 0, ctx_eip = 0, ctx_cs = 0, ctx_eflags = 0, ctx_useresp = 0, ctx_ss = 0\<rparr>"

section \<open>Frame\<close>

interpretation idt_frame: console_frame idt by unfold_locales simp_all
interpretation idtp_frame: console_frame idtp by unfold_locales simp_all
interpretation interrupt_handlers_frame: console_frame interrupt_handlers by unfold_locales simp_all
interpretation interrupt_count_frame: console_frame interrupt_count by unfold_locales simp_all
interpretation tick_count_frame: console_frame tick_count by unfold_locales simp_all
interpretation idtr_frame: console_frame idtr by unfold_locales simp_all

interpretation idt_ports: port_frame idt by unfold_locales simp_all
interpretation idtp_ports: port_frame idtp by unfold_locales simp_all
interpretation interrupt_handlers_ports: port_frame interrupt_handlers by unfold_locales simp_all
interpretation interrupt_count_ports: port_frame interrupt_count by unfold_locales simp_all
interpretation tick_count_ports: port_frame tick_count by unfold_locales simp_all
interpretation idtr_ports: port_frame idtr by unfold_locales simp_all

interpretation idt_tasks: task_frame idt by unfold_locales simp_all
interpretation interrupt_handlers_tasks: task_frame interrupt_handlers by unfold_locales simp_all
interpretation interrupt_count_tasks: task_frame interrupt_count by unfold_locales simp_all
interpretation tick_count_tasks: task_frame tick_count by unfold_locales simp_all

section \<open>The descriptor table\<close>

text \<open>The address the processor jumps to through a gate, and whether the gate is present.\<close>

definition gate_offset :: "idt_entry \<Rightarrow> u32" where
  "gate_offset e = push_bit 16 (ucast (offset_high e)) OR ucast (offset_low e)"

definition gate_present :: "idt_entry \<Rightarrow> bool" where
  "gate_present e \<longleftrightarrow> bit (type_attr e) 7"

definition gate_to :: "u32 \<Rightarrow> idt_entry" where
  "gate_to a = \<lparr>offset_low = ucast (a AND 0xFFFF), selector = 0x08, zero = 0, type_attr = INTERRUPT_GATE,
     offset_high = ucast (drop_bit 16 a AND 0xFFFF)\<rparr>"

lemma gate_halves: "push_bit 16 (ucast (ucast (drop_bit 16 a AND 0xFFFF) :: u16)) OR ucast (ucast (a AND 0xFFFF) :: u16) = (a :: u32)"
proof (rule bit_eqI)
  fix n assume "possible_bit TYPE(32 word) n"
  then have n: "n < 32" by simp
  have m: "(0xFFFF :: u32) = mask 16" by (simp add: mask_eq_exp_minus_1)
  show "bit (push_bit 16 (ucast (ucast (drop_bit 16 a AND 0xFFFF) :: u16)) OR ucast (ucast (a AND 0xFFFF) :: u16) :: u32) n = bit a n"
    using n unfolding m by (cases "n < 16") (auto simp: bit_simps)
qed

lemma gate_to_offset [simp]: "gate_offset (gate_to a) = a" "gate_present (gate_to a)"
  using gate_halves [of a] by (simp_all add: gate_offset_def gate_to_def gate_present_def INTERRUPT_GATE_def)

lemma set_idt_entry_idt:
  "idt (set_idt_entry v a 0x08 INTERRUPT_GATE s) = (idt s)[unat v := gate_to a]"
  by (cases "idt s ! unat v") (simp add: set_idt_entry_def gate_to_def)

lemma fold_gates:
  "length (idt s) = 256 \<Longrightarrow> i < 256 \<Longrightarrow>
   idt (fold (\<lambda>v. set_idt_entry v (stub v) 0x08 INTERRUPT_GATE) vs s) ! i
   = (if i \<in> unat ` set vs then gate_to (stub (of_nat i)) else idt s ! i)"
proof (induction vs arbitrary: s)
  case (Cons v vs)
  have "unat v < 256" using unsigned_less [of v, where ?'a = nat] by simp
  then show ?case using Cons by (auto simp: set_idt_entry_idt nth_list_update)
qed simp

lemma fold_gates_length: "length (idt (fold (\<lambda>v. set_idt_entry v (stub v) 0x08 INTERRUPT_GATE) vs s)) = length (idt s)"
  by (induction vs arbitrary: s) (simp_all add: set_idt_entry_idt)

definition power_on_interrupts :: interrupts where
  "power_on_interrupts = scheduling.extend power_on_scheduling (interrupts.fields
     (replicate 256 (clear_idt_entry 0)) \<lparr>limit = 0, base = 0\<rparr> (replicate 256 None) 0 0 0)"

lemma power_on_interrupts_fields [simp]:
  "tasks power_on_interrupts = replicate 64 zero_task" "next_pid power_on_interrupts = 1"
  "idt power_on_interrupts = replicate 256 (clear_idt_entry 0)" "tick_count power_on_interrupts = 0"
  by (simp_all add: power_on_interrupts_def power_on_scheduling_def power_on_tasking_def tasking.defs
      scheduling.defs memory.defs interrupts.defs)

definition ready_interrupts :: interrupts where
  "ready_interrupts = init_task_manager power_on_interrupts"

lemma ready_interrupts_inv: "task_inv ready_interrupts 1 0"
  unfolding ready_interrupts_def by (rule init_task_inv) (simp add: static_tasks_def zero_task_def)

lemma ready_interrupts_ticks [simp]: "tick_count ready_interrupts = 0"
  by (simp add: ready_interrupts_def)

text \<open>
  C38: the interrupt descriptor table. After \<open>init_idt\<close> each of the 22 vectors with an assembly stub
  has a present gate whose two offset halves give back the stub's 32-bit address, in the kernel code segment,
  and every other entry of the table is cleared, hence not present; the limit covers the table.
\<close>

theorem init_idt_gates:
  assumes "length (idt s) = 256"
  shows "(\<forall>v. let e = idt (init_idt stub addr s) ! unat v in
       if v \<in> set gate_vectors then gate_present e \<and> gate_offset e = stub v \<and> selector e = 0x08
       else e = clear_idt_entry 0 \<and> \<not> gate_present e)
    \<and> unat (limit (idtp (init_idt stub addr s))) + 1 = 8 * length (idt (init_idt stub addr s))
    \<and> base (idtp (init_idt stub addr s)) = addr"
proof -
  define u where "u = s\<lparr>idtp := \<lparr>limit = of_nat (8 * IDT_SIZE) - 1, base = addr\<rparr>, idt := map clear_idt_entry [0..<256]\<rparr>"
  have eq: "init_idt stub addr s = fold (\<lambda>v. set_idt_entry v (stub v) 0x08 INTERRUPT_GATE) gate_vectors u"
    using assms by (simp add: init_idt_def Let_def IDT_SIZE_def u_def fill_loop_all)
  have "idt (init_idt stub addr s) ! unat v
      = (if v \<in> set gate_vectors then gate_to (stub v) else clear_idt_entry 0)" for v
  proof -
    have v: "unat v < 256" using unsigned_less [of v, where ?'a = nat] by simp
    then have "idt u ! unat v = clear_idt_entry 0" by (simp add: u_def clear_idt_entry_def)
    moreover have "(unat v \<in> unat ` set gate_vectors) = (v \<in> set gate_vectors)" by (auto simp: image_iff simp flip: word_unat_eq_iff)
    ultimately show ?thesis using fold_gates [of u "unat v" stub gate_vectors] v unfolding eq
      by (simp add: u_def)
  qed
  moreover have "selector (gate_to a) = 8" for a by (simp add: gate_to_def)
  moreover have "\<not> gate_present (clear_idt_entry 0)" by (simp add: gate_present_def clear_idt_entry_def)
  moreover have "idtp (fold (\<lambda>v. set_idt_entry v (stub v) 0x08 INTERRUPT_GATE) vs t) = idtp t" for vs and t :: "'a interrupts_scheme"
    by (induction vs arbitrary: t) (simp_all add: set_idt_entry_def)
  ultimately show ?thesis using fold_gates_length [of stub gate_vectors u]
    by (simp add: Let_def eq u_def IDT_SIZE_def)
qed

theorem init_idt_gates_witness:
  "gate_offset (idt (init_idt (\<lambda>v. 0x00100000 + ucast v) 0x5000 power_on_interrupts) ! 14) = 0x0010000E
   \<and> \<not> gate_present (idt (init_idt (\<lambda>v. 0x00100000 + ucast v) 0x5000 power_on_interrupts) ! 128)"
proof -
  have len: "length (idt power_on_interrupts) = 256" by simp
  have v: "(14 :: u8) \<in> set gate_vectors" "(128 :: u8) \<notin> set gate_vectors" by (simp_all add: gate_vectors_def)
  note g = init_idt_gates [OF len, of "\<lambda>v. 0x00100000 + ucast v" "0x5000", THEN conjunct1, rule_format, unfolded Let_def]
  from g [of 14] g [of 128] show ?thesis using v by (simp add: gate_present_def clear_idt_entry_def)
qed

section \<open>Handlers\<close>

lemma timer_handler_inv:
  assumes "task_inv s n c"
  shows "\<exists>t d. timer_handler ctx s = Return t \<and> task_inv t n d \<and> tick_count t = tick_count s + 1"
proof -
  define u where "u = (let s = s\<lparr>tick_count := tick_count s + 1\<rparr>
    in if tick_count s mod 100 = 0 then print_char 0x2E s else s)"
  have u: "task_inv u n c" "tick_count u = tick_count s + 1"
    using assms by (auto simp: u_def Let_def task_inv_def)
  obtain t d where t: "schedule u = Some t" "task_inv t n d" using schedule_inv [OF u(1)] by blast
  have "timer_handler ctx s = (if tick_count u mod 10 = 0 then outcome_of_option (schedule u) else Return u)"
    by (simp add: timer_handler_def Let_def u_def)
  then show ?thesis using t u tick_count_tasks.f_schedule [OF t(1)] by (cases "tick_count u mod 10 = 0") auto
qed

text \<open>
  The timer interrupt. Each one advances the tick counter and returns; on every tenth tick the
  round-robin scheduler runs, on the others the tasks and the current task stay as they are.
\<close>

theorem timer_handler_preempts:
  assumes "task_inv s n c" "tick_count s + 1 = k"
  shows "\<exists>t. timer_handler ctx s = Return t \<and> tick_count t = k \<and> tasks_ok t
    \<and> (if k mod 10 = 0
       then tasks t = tasks (the (schedule s)) \<and> current_task t = current_task (the (schedule s))
       else tasks t = tasks s \<and> current_task t = current_task s)"
proof -
  define u where "u = (let s = s\<lparr>tick_count := tick_count s + 1\<rparr>
    in if tick_count s mod 100 = 0 then print_char 0x2E s else s)"
  have tu: "tasks u = tasks s" "current_task u = current_task s" "task_inv u n c"
    using assms(1) by (auto simp: u_def Let_def task_inv_def)
  have k: "tick_count u = k" using assms(2) by (simp add: u_def Let_def)
  have th: "timer_handler ctx s = (if k mod 10 = 0 then outcome_of_option (schedule u) else Return u)"
    using k by (simp add: timer_handler_def Let_def u_def)
  have "runnable u = runnable s" by (simp add: fun_eq_iff runnable_def tu)
  then have "round_robin u n c = round_robin s n c" by (simp add: round_robin_def)
  then have "tasks (the (schedule u)) = tasks (the (schedule s))"
    "current_task (the (schedule u)) = current_task (the (schedule s))"
    using tu by (simp_all add: schedule_eq [OF assms(1)] schedule_eq [OF tu(3)] dispatch_task_def Let_def split: option.split)
  moreover obtain t d where "schedule u = Some t" "task_inv t n d" using schedule_inv [OF tu(3)] by blast
  moreover from this have "tick_count t = k" using tick_count_tasks.f_schedule k by fastforce
  ultimately show ?thesis using th tu k by (cases "k mod 10 = 0") (auto simp: tasks_ok_def)
qed

theorem timer_handler_preempts_witness:
  "\<exists>t. timer_handler (zero_context 32) ready_interrupts = Return t \<and> tick_count t = 1"
  using timer_handler_preempts [OF ready_interrupts_inv, of 1 "zero_context 32"] by auto

end
