(* ===== verification/Keyboard.thy ===== *)
theory Keyboard
  imports Interrupt
begin

text \<open>
  The keyboard driver of \<open>kernel/keyboard.c\<close> and \<open>kernel/keyboard.h\<close>: modifier state, scancode
  translation, the ring buffer of typed characters, the interrupt handler and its statistics.
  The buffer is shown to be a first-in first-out queue with room for 256 characters.
\<close>

section \<open>Data\<close>

definition KEYBOARD_DATA_PORT :: u16 where "KEYBOARD_DATA_PORT = 0x60"
definition KEYBOARD_STATUS_PORT :: u16 where "KEYBOARD_STATUS_PORT = 0x64"
definition KEYBOARD_COMMAND_PORT :: u16 where "KEYBOARD_COMMAND_PORT = 0x64"
definition KEYBOARD_STATUS_INPUT_FULL :: u8 where "KEYBOARD_STATUS_INPUT_FULL = 0x02"
definition KEY_CTRL :: u8 where "KEY_CTRL = 0x1D"
definition KEY_LSHIFT :: u8 where "KEY_LSHIFT = 0x2A"
definition KEY_RSHIFT :: u8 where "KEY_RSHIFT = 0x36"
definition KEY_ALT :: u8 where "KEY_ALT = 0x38"
definition KEY_CAPS :: u8 where "KEY_CAPS = 0x3A"
definition KEY_RELEASED :: u8 where "KEY_RELEASED = 0x80"
definition KEYBOARD_BUFFER_SIZE :: u32 where "KEYBOARD_BUFFER_SIZE = 256"

record keyboard_state =
  shift_pressed :: bool
  ctrl_pressed :: bool
  alt_pressed :: bool
  caps_lock :: bool
  num_lock :: bool
  scroll_lock :: bool

record keyboard_buffer =
  buffer :: "u8 list"
  head :: u32
  tail :: u32
  count :: u32

record keyboard_stats =
  total_keypresses :: u32
  total_releases :: u32
  special_keys :: u32
  buffer_overflows :: u32
  invalid_scancodes :: u32

record keyboard = interrupts +
  kb_state :: keyboard_state
  kb_buffer :: keyboard_buffer
  kb_stats :: keyboard_stats

text \<open>The two translation tables, rows of eight as in the source.\<close>

definition scancode_to_ascii_table :: "u8 list" where
  "scancode_to_ascii_table =
    [0, 0x1B, 0x31, 0x32, 0x33, 0x34, 0x35, 0x36,
     0x37, 0x38, 0x39, 0x30, 0x2D, 0x3D, 0x08, 0x09,
     0x71, 0x77, 0x65, 0x72, 0x74, 0x79, 0x75, 0x69,
     0x6F, 0x70, 0x5B, 0x5D, 0x0A, 0, 0x61, 0x73,
     0x64, 0x66, 0x67, 0x68, 0x6A, 0x6B, 0x6C, 0x3B,
     0x27, 0x60, 0, 0x5C, 0x7A, 0x78, 0x63, 0x76,
     0x62, 0x6E, 0x6D, 0x2C, 0x2E, 0x2F, 0, 0x2A,
     0, 0x20, 0, 0, 0, 0, 0, 0,
     0, 0, 0, 0, 0, 0, 0, 0x37,
     0x38, 0x39, 0x2D, 0x34, 0x35, 0x36, 0x2B, 0x31,
     0x32, 0x33, 0x30, 0x2E, 0, 0, 0, 0,
     0, 0, 0, 0, 0, 0, 0, 0,
     0, 0, 0, 0, 0, 0, 0, 0,
     0, 0, 0, 0, 0, 0, 0, 0,
     0, 0, 0, 0, 0, 0, 0, 0,
     0, 0, 0, 0, 0, 0, 0, 0]"

definition shifted_chars :: "u8 list" where
  "shifted_chars =
    [0, 0x1B, 0x21, 0x40, 0x23, 0x24, 0x25, 0x5E,
     0x26, 0x2A, 0x28, 0x29, 0x5F, 0x2B, 0x08, 0x09,
     0x51, 0x57, 0x45, 0x52, 0x54, 0x59, 0x55, 0x49,
     0x4F, 0x50, 0x7B, 0x7D, 0x0A, 0, 0x41, 0x53,
     0x44, 0x46, 0x47, 0x48, 0x4A, 0x4B, 0x4C, 0x3A,
     0x22, 0x7E, 0, 0x7C, 0x5A, 0x58, 0x43, 0x56,
     0x42, 0x4E, 0x4D, 0x3C, 0x3E, 0x3F, 0, 0x2A,
     0, 0x20, 0, 0, 0, 0, 0, 0,
     0, 0, 0, 0, 0, 0, 0, 0x37,
     0x38, 0x39, 0x2D, 0x34, 0x35, 0x36, 0x2B, 0x31,
     0x32, 0x33, 0x30, 0x2E, 0, 0, 0, 0,
     0, 0, 0, 0, 0, 0, 0, 0,
     0, 0, 0, 0, 0, 0, 0, 0,
     0, 0, 0, 0, 0, 0, 0, 0,
     0, 0, 0, 0, 0, 0, 0, 0,
     0, 0, 0, 0, 0, 0, 0, 0]"

section \<open>The ring buffer\<close>

definition keyboard_buffer_is_empty :: "'a keyboard_scheme \<Rightarrow> bool" where
  "keyboard_buffer_is_empty s \<longleftrightarrow> count (kb_buffer s) = 0"

definition keyboard_buffer_is_full :: "'a keyboard_scheme \<Rightarrow> bool" where
  "keyboard_buffer_is_full s \<longleftrightarrow> count (kb_buffer s) \<ge> KEYBOARD_BUFFER_SIZE"

definition keyboard_buffer_put :: "u8 \<Rightarrow> 'a keyboard_scheme \<Rightarrow> bool \<times> 'a keyboard_scheme" where
  "keyboard_buffer_put c s =
     (if keyboard_buffer_is_full s then (False, s)
      else let b = kb_buffer s;
               b = b\<lparr>buffer := (buffer b)[unat (head b) := c]\<rparr>;
               b = b\<lparr>head := (head b + 1) mod KEYBOARD_BUFFER_SIZE\<rparr>;
               b = b\<lparr>count := count b + 1\<rparr>
           in (True, s\<lparr>kb_buffer := b\<rparr>))"

definition keyboard_buffer_get :: "'a keyboard_scheme \<Rightarrow> u8 \<times> 'a keyboard_scheme" where
  "keyboard_buffer_get s =
     (if keyboard_buffer_is_empty s then (0, s)
      else let b = kb_buffer s;
               c = buffer b ! unat (tail b);
               b = b\<lparr>tail := (tail b + 1) mod KEYBOARD_BUFFER_SIZE\<rparr>;
               b = b\<lparr>count := count b - 1\<rparr>
           in (c, s\<lparr>kb_buffer := b\<rparr>))"

definition keyboard_flush_buffer :: "'a keyboard_scheme \<Rightarrow> 'a keyboard_scheme" where
  "keyboard_flush_buffer s = s\<lparr>kb_buffer := (kb_buffer s)\<lparr>head := 0, tail := 0, count := 0\<rparr>\<rparr>"

definition keyboard_has_input :: "'a keyboard_scheme \<Rightarrow> bool" where
  "keyboard_has_input s \<longleftrightarrow> \<not> keyboard_buffer_is_empty s"

text \<open>While the buffer is empty the loop of \<open>keyboard_getchar\<close> halts the processor until the next
  interrupt: \<open>None\<close> means that the call is waiting in this state.\<close>

definition keyboard_getchar :: "'a keyboard_scheme \<Rightarrow> (u8 \<times> 'a keyboard_scheme) option" where
  "keyboard_getchar s = (if keyboard_buffer_is_empty s then None else Some (keyboard_buffer_get s))"

section \<open>Keys\<close>

definition is_special_key :: "u8 \<Rightarrow> bool" where
  "is_special_key scancode \<longleftrightarrow> scancode = KEY_LSHIFT \<or> scancode = KEY_RSHIFT \<or> scancode = KEY_CTRL
     \<or> scancode = KEY_ALT \<or> scancode = KEY_CAPS"

definition handle_special_key :: "u8 \<Rightarrow> 'a keyboard_scheme \<Rightarrow> 'a keyboard_scheme" where
  "handle_special_key scancode s =
     (let k = kb_state s
      in if scancode = KEY_LSHIFT \<or> scancode = KEY_RSHIFT then s\<lparr>kb_state := k\<lparr>shift_pressed := True\<rparr>\<rparr>
         else if scancode = KEY_CTRL then s\<lparr>kb_state := k\<lparr>ctrl_pressed := True\<rparr>\<rparr>
         else if scancode = KEY_ALT then s\<lparr>kb_state := k\<lparr>alt_pressed := True\<rparr>\<rparr>
         else if scancode = KEY_CAPS then s\<lparr>kb_state := k\<lparr>caps_lock := \<not> caps_lock k\<rparr>\<rparr>
         else s)"

definition handle_key_release :: "u8 \<Rightarrow> 'a keyboard_scheme \<Rightarrow> 'a keyboard_scheme" where
  "handle_key_release scancode s =
     (let k = kb_state s
      in if scancode = KEY_LSHIFT \<or> scancode = KEY_RSHIFT then s\<lparr>kb_state := k\<lparr>shift_pressed := False\<rparr>\<rparr>
         else if scancode = KEY_CTRL then s\<lparr>kb_state := k\<lparr>ctrl_pressed := False\<rparr>\<rparr>
         else if scancode = KEY_ALT then s\<lparr>kb_state := k\<lparr>alt_pressed := False\<rparr>\<rparr>
         else s)"

text \<open>Characters are compared as signed \<open>char\<close> in C; all entries of the tables are below 128, where
  the signed and the unsigned order agree.\<close>

definition scancode_to_ascii :: "u8 \<Rightarrow> 'a keyboard_scheme \<Rightarrow> u8" where
  "scancode_to_ascii scancode s =
     (if scancode \<ge> 128 then 0
      else
        let ascii = scancode_to_ascii_table ! unat scancode
        in if shift_pressed (kb_state s) \<or> (caps_lock (kb_state s) \<and> 0x61 \<le> ascii \<and> ascii \<le> 0x7A)
           then let shifted = shifted_chars ! unat scancode
                in if shifted \<noteq> 0 then shifted else ascii
           else ascii)"

definition handle_key_press :: "u8 \<Rightarrow> 'a keyboard_scheme \<Rightarrow> 'a keyboard_scheme" where
  "handle_key_press scancode s =
     (if is_special_key scancode then
        let s = handle_special_key scancode s
        in s\<lparr>kb_stats := (kb_stats s)\<lparr>special_keys := special_keys (kb_stats s) + 1\<rparr>\<rparr>
      else
        let ascii = scancode_to_ascii scancode s
        in if ascii \<noteq> 0 then
             let (stored, s) = keyboard_buffer_put ascii s
             in if \<not> stored
                then s\<lparr>kb_stats := (kb_stats s)\<lparr>buffer_overflows := buffer_overflows (kb_stats s) + 1\<rparr>\<rparr>
                else s
           else s\<lparr>kb_stats := (kb_stats s)\<lparr>invalid_scancodes := invalid_scancodes (kb_stats s) + 1\<rparr>\<rparr>)"

section \<open>The controller and the interrupt handler\<close>

definition read_keyboard_status :: "'a machine_scheme \<Rightarrow> u8 \<times> 'a machine_scheme" where
  "read_keyboard_status s = inb KEYBOARD_STATUS_PORT s"

definition read_keyboard_data :: "'a machine_scheme \<Rightarrow> u8 \<times> 'a machine_scheme" where
  "read_keyboard_data s = inb KEYBOARD_DATA_PORT s"

partial_function (option) wait_for_keyboard :: "'a machine_scheme \<Rightarrow> 'a machine_scheme option" where
  "wait_for_keyboard s =
     (if fst (read_keyboard_status s) AND KEYBOARD_STATUS_INPUT_FULL \<noteq> 0
      then wait_for_keyboard (snd (read_keyboard_status s))
      else Some (snd (read_keyboard_status s)))"

definition send_keyboard_command :: "u8 \<Rightarrow> 'a machine_scheme \<Rightarrow> 'a machine_scheme option" where
  "send_keyboard_command cmd s = map_option (outb KEYBOARD_COMMAND_PORT cmd) (wait_for_keyboard s)"

definition keyboard_interrupt_handler ::
  "interrupt_context \<Rightarrow> 'a keyboard_scheme \<Rightarrow> 'a keyboard_scheme outcome" where
  "keyboard_interrupt_handler ctx s =
     (let (scancode, s) = read_keyboard_data s;
          key_released = (scancode AND KEY_RELEASED \<noteq> 0);
          scancode = scancode AND 0x7F;
          s = (if key_released then
                 handle_key_release scancode
                   (s\<lparr>kb_stats := (kb_stats s)\<lparr>total_releases := total_releases (kb_stats s) + 1\<rparr>\<rparr>)
               else
                 handle_key_press scancode
                   (s\<lparr>kb_stats := (kb_stats s)\<lparr>total_keypresses := total_keypresses (kb_stats s) + 1\<rparr>\<rparr>))
      in Return (outb 0x20 0x20 s))"

definition init_keyboard :: "'a keyboard_scheme \<Rightarrow> 'a keyboard_scheme" where
  "init_keyboard s =
     (let s = s\<lparr>kb_state := \<lparr>shift_pressed = False, ctrl_pressed = False, alt_pressed = False,
                caps_lock = False, num_lock = False, scroll_lock = False\<rparr>\<rparr>;
          s = s\<lparr>kb_buffer := (kb_buffer s)\<lparr>head := 0, tail := 0, count := 0\<rparr>\<rparr>;
          s = s\<lparr>kb_stats := \<lparr>total_keypresses = 0, total_releases = 0, special_keys = 0,
                buffer_overflows = 0, invalid_scancodes = 0\<rparr>\<rparr>;
          s = register_interrupt_handler 33 Keyboard_interrupt_handler s
      in print_string (cstr ''[KEYBOARD] Keyboard initialized'' @ [0x0A]) s)"

definition on_off :: "bool \<Rightarrow> cstring" where
  "on_off b = (if b then cstr ''ON'' else cstr ''OFF'')"

definition print_keyboard_stats :: "'a keyboard_scheme \<Rightarrow> 'a keyboard_scheme" where
  "print_keyboard_stats s =
     (let s = print_string (0x0A # cstr ''=== Keyboard Statistics ==='' @ [0x0A]) s;
          s = print_string (cstr ''Total keypresses: '') s;
          s = print_number (total_keypresses (kb_stats s)) s;
          s = print_string (0x0A # cstr ''Total releases: '') s;
          s = print_number (total_releases (kb_stats s)) s;
          s = print_string (0x0A # cstr ''Special keys: '') s;
          s = print_number (special_keys (kb_stats s)) s;
          s = print_string (0x0A # cstr ''Buffer overflows: '') s;
          s = print_number (buffer_overflows (kb_stats s)) s;
          s = print_string (0x0A # cstr ''Invalid scancodes: '') s;
          s = print_number (invalid_scancodes (kb_stats s)) s;
          s = print_string (0x0A # cstr ''Buffer count: '') s;
          s = print_number (count (kb_buffer s)) s;
          s = print_string ([0x0A, 0x0A] @ cstr ''Keyboard state:'' @ [0x0A]) s;
          s = print_string (cstr ''Shift: '') s;
          s = print_string (on_off (shift_pressed (kb_state s))) s;
          s = print_string (cstr '' | Ctrl: '') s;
          s = print_string (on_off (ctrl_pressed (kb_state s))) s;
          s = print_string (cstr '' | Alt: '') s;
          s = print_string (on_off (alt_pressed (kb_state s))) s;
          s = print_string (0x0A # cstr ''Caps: '') s;
          s = print_string (on_off (caps_lock (kb_state s))) s
      in print_string [0x0A] s)"

section \<open>Frame\<close>

interpretation kb_state_frame: console_frame kb_state by unfold_locales simp_all
interpretation kb_buffer_frame: console_frame kb_buffer by unfold_locales simp_all
interpretation kb_stats_frame: console_frame kb_stats by unfold_locales simp_all
interpretation kb_state_ports: port_frame kb_state by unfold_locales simp_all
interpretation kb_buffer_ports: port_frame kb_buffer by unfold_locales simp_all
interpretation kb_stats_ports: port_frame kb_stats by unfold_locales simp_all

section \<open>The ring buffer is a bounded queue\<close>

text \<open>A queue with room for \<open>cap\<close> elements, as its users see it.\<close>

fun put_all :: "('e \<Rightarrow> 's \<Rightarrow> bool \<times> 's) \<Rightarrow> 'e list \<Rightarrow> 's \<Rightarrow> 's" where
  "put_all put [] s = s"
| "put_all put (c # cs) s = put_all put cs (snd (put c s))"

text \<open>
  What a client of a queue does, what it is told, and a whole history of calls. The reference is a
  list: a call puts its element at the end if there is room, or takes the first one.
\<close>

datatype 'e queue_call = Put 'e | Get | Clear
datatype 'e queue_answer = Stored bool | Taken 'e | Cleared

fun run_queue :: "('e \<Rightarrow> 's \<Rightarrow> bool \<times> 's) \<Rightarrow> ('s \<Rightarrow> 'e \<times> 's) \<Rightarrow> ('s \<Rightarrow> 's) \<Rightarrow> 'e queue_call list \<Rightarrow> 's
    \<Rightarrow> 'e queue_answer list \<times> 's" where
  "run_queue put get clear [] s = ([], s)"
| "run_queue put get clear (Put c # calls) s =
     (let (r, s) = put c s; (rs, s) = run_queue put get clear calls s in (Stored r # rs, s))"
| "run_queue put get clear (Get # calls) s =
     (let (c, s) = get s; (rs, s) = run_queue put get clear calls s in (Taken c # rs, s))"
| "run_queue put get clear (Clear # calls) s =
     (let (rs, s) = run_queue put get clear calls (clear s) in (Cleared # rs, s))"

definition list_put :: "nat \<Rightarrow> 'e \<Rightarrow> 'e list \<Rightarrow> bool \<times> 'e list" where
  "list_put cap c xs = (if length xs < cap then (True, xs @ [c]) else (False, xs))"

definition list_get :: "'e \<Rightarrow> 'e list \<Rightarrow> 'e \<times> 'e list" where
  "list_get none xs = (case xs of [] \<Rightarrow> (none, []) | x # ys \<Rightarrow> (x, ys))"

locale bounded_queue =
  fixes rep :: "'s \<Rightarrow> 'e list \<Rightarrow> bool" and put :: "'e \<Rightarrow> 's \<Rightarrow> bool \<times> 's"
    and get :: "'s \<Rightarrow> 'e \<times> 's" and clear :: "'s \<Rightarrow> 's" and none :: 'e and cap :: nat
  assumes rep_cap: "\<And>s xs. rep s xs \<Longrightarrow> length xs \<le> cap"
    and put_room: "\<And>s xs c. rep s xs \<Longrightarrow> length xs < cap \<Longrightarrow> \<exists>t. put c s = (True, t) \<and> rep t (xs @ [c])"
    and put_full: "\<And>s xs c. rep s xs \<Longrightarrow> length xs = cap \<Longrightarrow> put c s = (False, s)"
    and get_front: "\<And>s x xs. rep s (x # xs) \<Longrightarrow> \<exists>t. get s = (x, t) \<and> rep t xs"
    and get_empty: "\<And>s. rep s [] \<Longrightarrow> get s = (none, s)"
    and clear_rep: "\<And>s xs. rep s xs \<Longrightarrow> rep (clear s) []"
begin

text \<open>Each call, and so every history of calls, answers as the list does.\<close>

lemma put_list: "rep s xs \<Longrightarrow> \<exists>t. put c s = (fst (list_put cap c xs), t) \<and> rep t (snd (list_put cap c xs))"
  using rep_cap [of s xs] put_room [of s xs c] put_full [of s xs c] by (cases "length xs < cap") (auto simp: list_put_def)

lemma get_list: "rep s xs \<Longrightarrow> \<exists>t. get s = (fst (list_get none xs), t) \<and> rep t (snd (list_get none xs))"
  using get_front get_empty by (cases xs) (auto simp: list_get_def)

lemma run_list:
  "rep s xs \<Longrightarrow> \<exists>t. run_queue put get clear calls s = (fst (run_queue (list_put cap) (list_get none) (\<lambda>_. []) calls xs), t)
    \<and> rep t (snd (run_queue (list_put cap) (list_get none) (\<lambda>_. []) calls xs))"
proof (induction calls arbitrary: s xs)
  case (Cons call calls)
  show ?case
  proof (cases call)
    case (Put c)
    obtain t where "put c s = (fst (list_put cap c xs), t)" "rep t (snd (list_put cap c xs))" using put_list [OF Cons.prems] by blast
    then show ?thesis using Cons.IH [of t "snd (list_put cap c xs)"] Put by (auto simp: split_beta)
  next
    case Get
    obtain t where "get s = (fst (list_get none xs), t)" "rep t (snd (list_get none xs))" using get_list [OF Cons.prems] by blast
    then show ?thesis using Cons.IH [of t "snd (list_get none xs)"] Get by (auto simp: split_beta)
  next
    case Clear
    then show ?thesis using Cons.IH [OF clear_rep [OF Cons.prems]] by (auto simp: split_beta)
  qed
qed simp

lemma put_all_rep: "rep s xs \<Longrightarrow> rep (put_all put cs s) (take cap (xs @ cs))"
proof (induction cs arbitrary: s xs)
  case Nil
  then show ?case using rep_cap [OF Nil] by simp
next
  case (Cons c cs)
  show ?case
  proof (cases "length xs < cap")
    case True
    then obtain t where "put c s = (True, t)" "rep t (xs @ [c])" using put_room [OF Cons.prems] by blast
    then show ?thesis using Cons.IH by fastforce
  next
    case False
    then have "length xs = cap" using rep_cap [OF Cons.prems] by simp
    then show ?thesis using put_full [OF Cons.prems] Cons.IH [OF Cons.prems] by simp
  qed
qed

end

text \<open>The characters in the buffer, oldest first.\<close>

definition kb_rep :: "'a keyboard_scheme \<Rightarrow> u8 list \<Rightarrow> bool" where
  "kb_rep s xs \<longleftrightarrow> (let b = kb_buffer s in
     length (buffer b) = 256 \<and> unat (count b) = length xs \<and> length xs \<le> 256
     \<and> unat (tail b) < 256 \<and> unat (head b) = (unat (tail b) + length xs) mod 256
     \<and> (\<forall>i < length xs. buffer b ! ((unat (tail b) + i) mod 256) = xs ! i))"

lemma mod_256: "a < 512 \<Longrightarrow> a mod 256 = (if a < 256 then a else a - (256 :: nat))"
  by (simp add: mod_if)

lemma ring_distinct:
  fixes t i n :: nat
  assumes "t < 256" "i < n" "n < 256"
  shows "(t + i) mod 256 \<noteq> (t + n) mod 256"
proof -
  have "(t + i) mod 256 = (if t + i < 256 then t + i else t + i - 256)"
    "(t + n) mod 256 = (if t + n < 256 then t + n else t + n - 256)"
    using assms by (simp_all add: mod_256)
  then show ?thesis using assms by (auto split: if_splits)
qed

lemma unat_advance:
  assumes "unat (h :: u32) < 256"
  shows "unat ((h + 1) mod KEYBOARD_BUFFER_SIZE) = (unat h + 1) mod 256"
proof -
  have "unat (h + 1) = unat h + 1" using assms by (simp add: unat_word_ariths)
  then show ?thesis by (simp add: unat_mod KEYBOARD_BUFFER_SIZE_def)
qed

lemma kb_full: "kb_rep s xs \<Longrightarrow> keyboard_buffer_is_full s \<longleftrightarrow> length xs = 256"
  by (auto simp: kb_rep_def keyboard_buffer_is_full_def Let_def KEYBOARD_BUFFER_SIZE_def word_le_nat_alt)

lemma kb_empty: "kb_rep s xs \<Longrightarrow> keyboard_buffer_is_empty s \<longleftrightarrow> xs = []"
  by (auto simp: kb_rep_def keyboard_buffer_is_empty_def Let_def unat_eq_0 [symmetric])

lemma kb_put_room:
  assumes rep: "kb_rep s xs" and room: "length xs < 256"
  shows "\<exists>t. keyboard_buffer_put c s = (True, t) \<and> kb_rep t (xs @ [c])"
proof -
  let ?b = "kb_buffer s"
  let ?t = "unat (tail ?b)" and ?n = "length xs"
  have r: "length (buffer ?b) = 256" "unat (count ?b) = ?n" "?t < 256" "unat (head ?b) = (?t + ?n) mod 256"
    "\<forall>i < ?n. buffer ?b ! ((?t + i) mod 256) = xs ! i" using rep by (auto simp: kb_rep_def Let_def)
  have h: "unat (head ?b) < 256" using r(4) by simp
  define t where "t = s\<lparr>kb_buffer := ?b\<lparr>buffer := (buffer ?b)[unat (head ?b) := c],
    head := (head ?b + 1) mod KEYBOARD_BUFFER_SIZE, count := count ?b + 1\<rparr>\<rparr>"
  have "keyboard_buffer_put c s = (True, t)"
    using kb_full [OF rep] room by (simp add: keyboard_buffer_put_def Let_def t_def)
  moreover have "unat (count ?b + 1) = ?n + 1" using r(2) room by (simp add: unat_word_ariths)
  moreover have "unat ((head ?b + 1) mod KEYBOARD_BUFFER_SIZE) = (?t + (?n + 1)) mod 256"
    unfolding unat_advance [OF h] r(4) by (simp add: mod_simps add.assoc)
  moreover have "(buffer ?b)[unat (head ?b) := c] ! ((?t + i) mod 256) = (xs @ [c]) ! i" if "i < ?n + 1" for i
  proof (cases "i = ?n")
    case True
    then show ?thesis using r(1,4) by simp
  next
    case False
    then have "i < ?n" using that by simp
    then have "(?t + i) mod 256 \<noteq> unat (head ?b)" using ring_distinct [OF r(3) _ room] r(4) by simp
    then show ?thesis using \<open>i < ?n\<close> r(5) by (simp add: nth_append)
  qed
  ultimately show ?thesis using r room by (intro exI [of _ t]) (simp add: kb_rep_def t_def Let_def)
qed

lemma kb_get_front:
  assumes rep: "kb_rep s (x # xs)"
  shows "\<exists>t. keyboard_buffer_get s = (x, t) \<and> kb_rep t xs"
proof -
  let ?b = "kb_buffer s"
  let ?t = "unat (tail ?b)"
  have r: "length (buffer ?b) = 256" "unat (count ?b) = Suc (length xs)" "length xs < 256" "?t < 256"
    "unat (head ?b) = (?t + Suc (length xs)) mod 256"
    "\<forall>i < Suc (length xs). buffer ?b ! ((?t + i) mod 256) = (x # xs) ! i"
    using rep by (auto simp: kb_rep_def Let_def)
  define t where "t = s\<lparr>kb_buffer := ?b\<lparr>tail := (tail ?b + 1) mod KEYBOARD_BUFFER_SIZE, count := count ?b - 1\<rparr>\<rparr>"
  have "buffer ?b ! ?t = x" using r(4,6) by (metis add_0_right mod_less nth_Cons_0 zero_less_Suc)
  then have "keyboard_buffer_get s = (x, t)"
    using kb_empty [OF rep] by (simp add: keyboard_buffer_get_def Let_def t_def)
  moreover have "count ?b \<noteq> 0" using r(2) by auto
  then have "unat (count ?b - 1) = length xs" using r(2) by (simp add: unat_minus_one)
  moreover have nt: "unat ((tail ?b + 1) mod KEYBOARD_BUFFER_SIZE) = (?t + 1) mod 256" by (rule unat_advance [OF r(4)])
  moreover have "buffer ?b ! (((?t + 1) mod 256 + i) mod 256) = xs ! i" if "i < length xs" for i
    using r(6) [rule_format, of "Suc i"] that by (simp add: mod_simps)
  ultimately show ?thesis using r by (intro exI [of _ t]) (simp add: kb_rep_def t_def Let_def mod_simps)
qed

interpretation keyboard_queue: bounded_queue kb_rep keyboard_buffer_put keyboard_buffer_get keyboard_flush_buffer 0 256
proof
  fix s :: "'a keyboard_scheme" and xs :: "u8 list" and c
  assume rep: "kb_rep s xs"
  then show "length xs \<le> 256" by (simp add: kb_rep_def Let_def)
  show "length xs < 256 \<Longrightarrow> \<exists>t. keyboard_buffer_put c s = (True, t) \<and> kb_rep t (xs @ [c])"
    using kb_put_room [OF rep] .
  show "length xs = 256 \<Longrightarrow> keyboard_buffer_put c s = (False, s)"
    using kb_full [OF rep] by (simp add: keyboard_buffer_put_def)
  show "kb_rep (keyboard_flush_buffer s) []" using rep by (simp add: kb_rep_def keyboard_flush_buffer_def Let_def)
next
  fix s :: "'a keyboard_scheme"
  assume "kb_rep s []"
  then show "keyboard_buffer_get s = (0, s)" using kb_empty [of s "[]"] by (simp add: keyboard_buffer_get_def)
next
  fix s :: "'a keyboard_scheme" and x xs
  assume "kb_rep s (x # xs)"
  then show "\<exists>t. keyboard_buffer_get s = (x, t) \<and> kb_rep t xs" by (rule kb_get_front)
qed

section \<open>Translation of scancodes\<close>

definition is_lower :: "u8 \<Rightarrow> bool" where
  "is_lower c \<longleftrightarrow> 0x61 \<le> c \<and> c \<le> 0x7A"

text \<open>Facts on the two tables, by evaluation of all 128 entries.\<close>

lemma tables_length: "length scancode_to_ascii_table = 128" "length shifted_chars = 128"
  by (simp_all add: scancode_to_ascii_table_def shifted_chars_def)

lemma tables_check:
  "list_all2 (\<lambda>c d. (is_lower c \<longrightarrow> d = c - 0x20) \<and> (c = 0 \<longleftrightarrow> d = 0) \<and> c < 128 \<and> d < 128 \<and> \<not> is_lower d)
     scancode_to_ascii_table shifted_chars"
  by (simp add: scancode_to_ascii_table_def shifted_chars_def is_lower_def)

lemma tables_nth:
  assumes "i < 128"
  defines "c \<equiv> scancode_to_ascii_table ! i" and "d \<equiv> shifted_chars ! i"
  shows "is_lower c \<Longrightarrow> d = c - 0x20" "c = 0 \<longleftrightarrow> d = 0" "c < 128" "d < 128" "\<not> is_lower d"
  using list_all2_nthD [OF tables_check, of i] assms by (simp_all add: tables_length)

section \<open>The handler\<close>

lemma handle_special_fields [simp]:
  "kb_buffer (handle_special_key c s) = kb_buffer s" "kb_stats (handle_special_key c s) = kb_stats s"
  "kb_buffer (handle_key_release c s) = kb_buffer s" "kb_stats (handle_key_release c s) = kb_stats s"
  by (simp_all add: handle_special_key_def handle_key_release_def Let_def)

lemma kb_rep_cong: "kb_buffer t = kb_buffer s \<Longrightarrow> kb_rep t xs = kb_rep s xs"
  by (simp add: kb_rep_def)

interpretation kb_rep_ports: port_frame "\<lambda>s. kb_rep s xs"
  by unfold_locales (simp_all add: kb_rep_def)

interpretation kb_rep_frame: console_frame "\<lambda>s. kb_rep s xs"
  by unfold_locales (simp_all add: kb_rep_def)

lemma kb_rep_stats [simp]:
  "kb_rep (s\<lparr>kb_stats := v\<rparr>) xs = kb_rep s xs" "kb_rep (s\<lparr>kb_state := k\<rparr>) xs = kb_rep s xs"
  by (simp_all add: kb_rep_def)

text \<open>What pressing a key adds to the buffer.\<close>

definition typed :: "u8 \<Rightarrow> 'a keyboard_scheme \<Rightarrow> u8 list" where
  "typed sc s = (if is_special_key sc \<or> scancode_to_ascii sc s = 0 then [] else [scancode_to_ascii sc s])"

lemma put_fields:
  "keyboard_buffer_put c s = (r, t) \<Longrightarrow> kb_stats t = kb_stats s \<and> kb_state t = kb_state s"
  by (auto simp: keyboard_buffer_put_def Let_def split: if_splits)

lemma handle_key_press_rep:
  assumes "kb_rep s xs"
  shows "kb_rep (handle_key_press sc s) (take 256 (xs @ typed sc s))"
proof (cases "is_special_key sc \<or> scancode_to_ascii sc s = 0")
  case True
  moreover have "length xs \<le> 256" using keyboard_queue.rep_cap [OF assms] .
  ultimately show ?thesis using assms kb_rep_cong [of "handle_special_key sc s" s]
    by (auto simp: handle_key_press_def typed_def Let_def)
next
  case False
  from keyboard_queue.put_all_rep [OF assms, of "[scancode_to_ascii sc s]"]
  show ?thesis using False by (auto simp: handle_key_press_def typed_def Let_def split: prod.split)
qed

lemma handle_key_press_stats:
  assumes "kb_rep s xs"
  defines "k \<equiv> kb_stats s"
  shows "kb_stats (handle_key_press sc s) =
    (if is_special_key sc then k\<lparr>special_keys := special_keys k + 1\<rparr>
     else if scancode_to_ascii sc s = 0 then k\<lparr>invalid_scancodes := invalid_scancodes k + 1\<rparr>
     else if length xs = 256 then k\<lparr>buffer_overflows := buffer_overflows k + 1\<rparr> else k)"
proof (cases "length xs = 256")
  case True
  then show ?thesis using keyboard_queue.put_full [OF assms(1)]
    by (simp add: handle_key_press_def Let_def k_def)
next
  case False
  then have "length xs < 256" using keyboard_queue.rep_cap [OF assms(1)] by simp
  then obtain t where "keyboard_buffer_put (scancode_to_ascii sc s) s = (True, t)"
    using keyboard_queue.put_room [OF assms(1)] by blast
  then show ?thesis using False put_fields
    by (auto simp: handle_key_press_def Let_def k_def dest!: put_fields)
qed

text \<open>The state in which the handler processes the byte it has read.\<close>

lemma read_data_eq:
  "read_keyboard_data s = (port_input s (port_reads s) 0x60, s\<lparr>port_reads := port_reads s + 1\<rparr>)"
  by (simp add: read_keyboard_data_def inb_def KEYBOARD_DATA_PORT_def)

text \<open>The modifiers as a user expects them: what pressing or releasing the key with a code does to them.\<close>

definition set_modifier :: "bool \<Rightarrow> u8 \<Rightarrow> keyboard_state \<Rightarrow> keyboard_state" where
  "set_modifier down code m =
     (if code = 0x2A \<or> code = 0x36 then m\<lparr>shift_pressed := down\<rparr>
      else if code = 0x1D then m\<lparr>ctrl_pressed := down\<rparr>
      else if code = 0x38 then m\<lparr>alt_pressed := down\<rparr>
      else if code = 0x3A \<and> down then m\<lparr>caps_lock := \<not> caps_lock m\<rparr>
      else m)"

lemmas key_codes = KEY_LSHIFT_def KEY_RSHIFT_def KEY_CTRL_def KEY_ALT_def KEY_CAPS_def

lemma modifier_eq:
  "kb_state (handle_special_key code s) = set_modifier True code (kb_state s)"
  "kb_state (handle_key_release code s) = set_modifier False code (kb_state s)"
  by (auto simp: handle_special_key_def handle_key_release_def set_modifier_def key_codes Let_def)

lemma set_modifier_other: "\<not> is_special_key code \<Longrightarrow> set_modifier down code m = m"
  by (auto simp: set_modifier_def is_special_key_def key_codes)

lemma press_state: "kb_state (handle_key_press code s) = set_modifier True code (kb_state s)"
  by (auto simp: handle_key_press_def modifier_eq set_modifier_other keyboard_buffer_put_def Let_def)

lemma scancode_to_ascii_cong: "kb_state t = kb_state s \<Longrightarrow> scancode_to_ascii c t = scancode_to_ascii c s"
  by (simp add: scancode_to_ascii_def)

lemma typed_cong: "kb_state t = kb_state s \<Longrightarrow> typed c t = typed c s"
  using scancode_to_ascii_cong [of t s c] by (simp add: typed_def)

lemma press_code:
  fixes sc :: u8
  assumes "sc < 128"
  shows "sc AND 0x7F = sc" "sc AND 0x80 = 0"
proof -
  have m: "take_bit 7 sc = sc" using assms by (simp add: take_bit_eq_mod mod_word_less)
  have "sc AND 0x7F = take_bit 7 sc" by (simp add: take_bit_eq_mask mask_eq_exp_minus_1)
  with m show "sc AND 0x7F = sc" by simp
  have "sc AND 0x80 = take_bit 7 sc AND 0x80" using m by simp
  also have "\<dots> = sc AND (0x7F AND 0x80)"
    unfolding and.assoc [symmetric] by (simp add: take_bit_eq_mask mask_eq_exp_minus_1)
  finally show "sc AND 0x80 = 0" by simp
qed

lemma keyboard_interrupt_eq:
  fixes s :: "'a keyboard_scheme"
  assumes "code = port_input s (port_reads s) 0x60" "sc = code AND 0x7F"
  defines "r \<equiv> s\<lparr>port_reads := port_reads s + 1\<rparr>"
  shows "keyboard_interrupt_handler ctx s = Return (outb 0x20 0x20 (if code AND 0x80 \<noteq> 0
      then handle_key_release sc (r\<lparr>kb_stats := (kb_stats s)\<lparr>total_releases := total_releases (kb_stats s) + 1\<rparr>\<rparr>)
      else handle_key_press sc (r\<lparr>kb_stats := (kb_stats s)\<lparr>total_keypresses := total_keypresses (kb_stats s) + 1\<rparr>\<rparr>)))"
  by (simp add: keyboard_interrupt_handler_def read_data_eq Let_def assms KEY_RELEASED_def)

lemma handle_key_output [simp]:
  "port_output (handle_key_release sc s) = port_output s" "port_output (handle_key_press sc s) = port_output s"
  by (simp_all add: handle_key_release_def handle_key_press_def handle_special_key_def keyboard_buffer_put_def Let_def)

section \<open>Properties of the keyboard\<close>

definition power_on_keyboard :: keyboard where
  "power_on_keyboard = interrupts.extend
     (scheduling.extend power_on_scheduling (interrupts.fields
        (replicate 256 (clear_idt_entry 0)) \<lparr>limit = 0, base = 0\<rparr> (replicate 256 None) 0 0 0))
     (keyboard.fields \<lparr>shift_pressed = False, ctrl_pressed = False, alt_pressed = False, caps_lock = False,
        num_lock = False, scroll_lock = False\<rparr>
      \<lparr>buffer = replicate 256 0, head = 0, tail = 0, count = 0\<rparr>
      \<lparr>total_keypresses = 0, total_releases = 0, special_keys = 0, buffer_overflows = 0, invalid_scancodes = 0\<rparr>)"

lemma power_on_keyboard_rep: "kb_rep power_on_keyboard []"
  by (simp add: kb_rep_def power_on_keyboard_def scheduling.defs interrupts.defs keyboard.defs
      power_on_scheduling_def power_on_tasking_def tasking.defs memory.defs)

lemma init_keyboard_rep: "length (buffer (kb_buffer s)) = 256 \<Longrightarrow> kb_rep (init_keyboard s) []"
  by (simp add: kb_rep_def init_keyboard_def Let_def register_interrupt_handler_def)

text \<open>
  C36: the ring buffer is a first-in first-out queue. For every history of calls of \<open>keyboard_buffer_put\<close>,
  \<open>keyboard_buffer_get\<close> and \<open>keyboard_flush_buffer\<close> after the initialisation, in any order and as often as
  the indices wrap around, all answers are those of a list with room for 256 characters: a character
  is refused exactly when 256 are waiting, the oldest one is taken first, 0 is the answer of
  an empty buffer; and the buffer holds the characters of that list.
\<close>

theorem keyboard_buffer_fifo:
  assumes "length (buffer (kb_buffer s)) = 256"
  shows "\<exists>t. run_queue keyboard_buffer_put keyboard_buffer_get keyboard_flush_buffer calls (init_keyboard s)
      = (fst (run_queue (list_put 256) (list_get 0) (\<lambda>_. []) calls []), t)
    \<and> kb_rep t (snd (run_queue (list_put 256) (list_get 0) (\<lambda>_. []) calls []))"
  by (rule keyboard_queue.run_list [OF init_keyboard_rep [OF assms]])

theorem keyboard_buffer_fifo_witness:
  "\<exists>t. run_queue keyboard_buffer_put keyboard_buffer_get keyboard_flush_buffer [Put 0x61, Put 0x62, Get, Put 0x63, Get, Get, Get]
     (init_keyboard power_on_keyboard)
     = ([Stored True, Stored True, Taken 0x61, Stored True, Taken 0x62, Taken 0x63, Taken 0], t) \<and> kb_rep t []"
proof -
  have len: "length (buffer (kb_buffer power_on_keyboard)) = 256"
    using power_on_keyboard_rep by (simp add: kb_rep_def Let_def)
  have list: "run_queue (list_put 256) (list_get 0) (\<lambda>_. []) [Put 0x61, Put 0x62, Get, Put 0x63, Get, Get, Get] []
      = ([Stored True, Stored True, Taken 0x61, Stored True, Taken 0x62, Taken 0x63, Taken (0 :: u8)], [])"
    by (simp add: list_put_def list_get_def)
  show ?thesis
    using keyboard_buffer_fifo [OF len, of "[Put 0x61, Put 0x62, Get, Put 0x63, Get, Get, Get]"] unfolding list fst_conv snd_conv .
qed

text \<open>
  C37: one keyboard interrupt. For every byte the controller delivers the handler returns, reads one
  byte, sends an end-of-interrupt, and counts a press or a release. Pressing or releasing Shift, Ctrl
  or Alt sets or clears its modifier, pressing Caps Lock toggles it, and no other key changes a
  modifier. A release changes no character; a press appends the character of the key, unless the
  key is a modifier, has no character, or the buffer is full, and each of these three is counted.
\<close>

theorem keyboard_interrupt_effect:
  assumes "kb_rep s xs"
  defines "code \<equiv> port_input s (port_reads s) 0x60" and "k \<equiv> kb_stats s"
  defines "sc \<equiv> code AND 0x7F"
  shows "\<exists>t. keyboard_interrupt_handler ctx s = Return t \<and> port_output t = port_output s @ [(0x20, 0x20)]
    \<and> port_reads t = port_reads s + 1 \<and> kb_state t = set_modifier (code AND 0x80 = 0) sc (kb_state s)
    \<and> (if code AND 0x80 \<noteq> 0
       then kb_rep t xs \<and> kb_stats t = k\<lparr>total_releases := total_releases k + 1\<rparr>
       else kb_rep t (take 256 (xs @ typed sc s))
         \<and> kb_stats t = (let k = k\<lparr>total_keypresses := total_keypresses k + 1\<rparr> in
             if is_special_key sc then k\<lparr>special_keys := special_keys k + 1\<rparr>
             else if scancode_to_ascii sc s = 0 then k\<lparr>invalid_scancodes := invalid_scancodes k + 1\<rparr>
             else if length xs = 256 then k\<lparr>buffer_overflows := buffer_overflows k + 1\<rparr> else k))"
proof -
  let ?r = "s\<lparr>port_reads := port_reads s + 1\<rparr>"
  let ?p = "?r\<lparr>kb_stats := k\<lparr>total_keypresses := total_keypresses k + 1\<rparr>\<rparr>"
  let ?q = "?r\<lparr>kb_stats := k\<lparr>total_releases := total_releases k + 1\<rparr>\<rparr>"
  have p: "kb_rep ?p xs" and q: "kb_rep ?q xs" using assms(1) by (simp_all add: kb_rep_def)
  have eq: "keyboard_interrupt_handler ctx s
      = Return (outb 0x20 0x20 (if code AND 0x80 \<noteq> 0 then handle_key_release sc ?q else handle_key_press sc ?p))"
    unfolding code_def sc_def k_def by (rule keyboard_interrupt_eq [OF refl refl])
  have "kb_rep (handle_key_release sc ?q) xs" using q kb_rep_cong [of "handle_key_release sc ?q" ?q] by simp
  moreover have "typed sc ?p = typed sc s" "scancode_to_ascii sc ?p = scancode_to_ascii sc s"
    by (rule typed_cong scancode_to_ascii_cong; simp)+
  moreover have "port_reads (handle_key_release c u) = port_reads u" "port_reads (handle_key_press c u) = port_reads u"
    for c and u :: "'a keyboard_scheme"
    by (simp_all add: handle_key_release_def handle_key_press_def handle_special_key_def keyboard_buffer_put_def Let_def)
  ultimately show ?thesis
    using eq handle_key_press_rep [OF p, of sc] handle_key_press_stats [OF p, of sc] modifier_eq(2) [of sc ?q] press_state [of sc ?p]
    by (auto simp: outb_def kb_rep_def Let_def)
qed

theorem keyboard_interrupt_effect_witness:
  "\<exists>t. keyboard_interrupt_handler (zero_context 33) (power_on_keyboard\<lparr>port_input := \<lambda>k p. 0x2A\<rparr>) = Return t
     \<and> special_keys (kb_stats t) = 1 \<and> kb_rep t [] \<and> shift_pressed (kb_state t)"
proof -
  let ?s = "power_on_keyboard\<lparr>port_input := \<lambda>k p. 0x2A\<rparr>"
  have st: "kb_stats ?s = \<lparr>total_keypresses = 0, total_releases = 0, special_keys = 0,
      buffer_overflows = 0, invalid_scancodes = 0\<rparr>"
    by (simp add: power_on_keyboard_def scheduling.defs interrupts.defs keyboard.defs
      power_on_scheduling_def power_on_tasking_def tasking.defs memory.defs)
  have rep: "kb_rep ?s []" using power_on_keyboard_rep by (simp add: kb_rep_def)
  have "is_special_key 0x2A" by (simp add: is_special_key_def key_codes)
  then show ?thesis
    using keyboard_interrupt_effect [OF rep, of "zero_context 33"]
    by (auto simp: st typed_def Let_def set_modifier_def)
qed

text \<open>
  Translation. With no modifier a key gives its table entry; Caps Lock alone turns exactly the
  letters to upper case and leaves all other keys alone; with Shift every letter is upper case,
  whether or not Caps Lock is on, and a key has a character with Shift exactly when it has one
  without.
\<close>

theorem scancode_translation:
  assumes "sc < 128"
  defines "c \<equiv> scancode_to_ascii_table ! unat sc"
  shows "(\<not> shift_pressed (kb_state s) \<and> \<not> caps_lock (kb_state s) \<longrightarrow> scancode_to_ascii sc s = c)
    \<and> (\<not> shift_pressed (kb_state s) \<and> caps_lock (kb_state s) \<longrightarrow> scancode_to_ascii sc s = (if is_lower c then c - 0x20 else c))
    \<and> (shift_pressed (kb_state s) \<longrightarrow> scancode_to_ascii sc s = shifted_chars ! unat sc)
    \<and> (shift_pressed (kb_state s) \<and> is_lower c \<longrightarrow> scancode_to_ascii sc s = c - 0x20)
    \<and> (scancode_to_ascii sc s = 0 \<longleftrightarrow> c = 0)"
proof -
  have i: "unat sc < 128" using assms(1) by (simp add: word_less_nat_alt)
  note t = tables_nth [OF i]
  have nl: "\<not> 128 \<le> sc" using assms(1) by simp
  have z: "\<not> is_lower 0" by (simp add: is_lower_def)
  show ?thesis
    using t nl z unfolding scancode_to_ascii_def c_def is_lower_def Let_def by auto
qed

theorem scancode_translation_witness:
  "scancode_to_ascii 0x1E (power_on_keyboard\<lparr>kb_state := (kb_state power_on_keyboard)\<lparr>shift_pressed := True\<rparr>\<rparr>) = 0x41"
  using scancode_translation [of "0x1E" "power_on_keyboard\<lparr>kb_state := (kb_state power_on_keyboard)\<lparr>shift_pressed := True\<rparr>\<rparr>"]
  by (simp add: scancode_to_ascii_table_def shifted_chars_def is_lower_def)

end
