(* ===== verification/Syscall.thy ===== *)
theory Syscall
  imports Keyboard
begin

text \<open>
  System calls, \<open>kernel/syscall.c\<close>, \<open>kernel/syscall.h\<close> and the entry point of \<open>kernel/syscall_asm.s\<close>:
  the table of handlers, the dispatcher \<open>handle_syscall\<close> with its statistics, and the ten handlers.
  A handler takes the six registers of \<open>syscall_params_t\<close> and returns an \<open>int\<close>. User buffers are read
  from and written to the byte memory of theory \<open>Bytes\<close>.
\<close>

section \<open>Data\<close>

definition SYS_EXIT :: int where "SYS_EXIT = 1"
definition SYS_FORK :: int where "SYS_FORK = 2"
definition SYS_READ :: int where "SYS_READ = 3"
definition SYS_WRITE :: int where "SYS_WRITE = 4"
definition SYS_TIME :: int where "SYS_TIME = 13"
definition SYS_GETPID :: int where "SYS_GETPID = 20"
definition SYS_GETUID :: int where "SYS_GETUID = 24"
definition SYS_PAUSE :: int where "SYS_PAUSE = 29"
definition SYS_KILL :: int where "SYS_KILL = 37"
definition SYS_BRK :: int where "SYS_BRK = 45"
definition NR_SYSCALLS :: nat where "NR_SYSCALLS = 64"

record syscall_params =
  eax :: u32
  ebx :: u32
  ecx :: u32
  edx :: u32
  esi :: u32
  edi :: u32

record syscall_stats =
  total_calls :: u32
  successful_calls :: u32
  failed_calls :: u32
  calls_per_type :: "u32 list"

datatype syscall_handler =
    Sys_exit | Sys_fork | Sys_read | Sys_write | Sys_getpid
  | Sys_getuid | Sys_time | Sys_brk | Sys_pause | Sys_kill

text \<open>\<open>fork_pid\<close> is the static \<open>next_pid\<close> of \<open>sys_fork\<close>, \<open>getpid_pid\<close> the static \<open>current_pid\<close> of
  \<open>sys_getpid\<close>. C's \<open>int\<close> for the former is a 32-bit word read as signed: without optimisation the
  increment is an \<open>add\<close>, which wraps around.\<close>

record kernel = keyboard +
  syscall_table :: "syscall_handler option list"
  sys_stats :: syscall_stats
  current_time :: u32
  current_uid :: u32
  fork_pid :: u32
  getpid_pid :: int

section \<open>The handlers\<close>

definition sys_exit :: "syscall_params \<Rightarrow> 'a kernel_scheme \<Rightarrow> int \<times> 'a kernel_scheme" where
  "sys_exit params s = (0, s)"

definition sys_fork :: "syscall_params \<Rightarrow> 'a kernel_scheme \<Rightarrow> int \<times> 'a kernel_scheme" where
  "sys_fork params s = (sint (fork_pid s), s\<lparr>fork_pid := fork_pid s + 1\<rparr>)"

definition sys_read :: "syscall_params \<Rightarrow> 'a kernel_scheme \<Rightarrow> int \<times> 'a kernel_scheme" where
  "sys_read params s = (if sint (ebx params) = 0 then (0, s) else (-1, s))"

text \<open>\<open>for (int i = 0; i < count && buf[i]; i++) print_char(buf[i]);\<close> with \<open>n\<close> the iterations left.\<close>

fun write_loop :: "nat \<Rightarrow> u32 \<Rightarrow> 'a kernel_scheme \<Rightarrow> 'a kernel_scheme" where
  "write_loop 0 buf s = s"
| "write_loop (Suc n) buf s =
     (if mem s buf \<noteq> 0 then write_loop n (buf + 1) (print_char (mem s buf) s) else s)"

definition sys_write :: "syscall_params \<Rightarrow> 'a kernel_scheme \<Rightarrow> int \<times> 'a kernel_scheme" where
  "sys_write params s =
     (let fd = sint (ebx params); buf = ecx params; cnt = sint (edx params)
      in if fd = 1 \<or> fd = 2 then (cnt, write_loop (nat cnt) buf s) else (-1, s))"

definition sys_getpid :: "syscall_params \<Rightarrow> 'a kernel_scheme \<Rightarrow> int \<times> 'a kernel_scheme" where
  "sys_getpid params s = (getpid_pid s, s)"

definition sys_getuid :: "syscall_params \<Rightarrow> 'a kernel_scheme \<Rightarrow> int \<times> 'a kernel_scheme" where
  "sys_getuid params s = (sint (current_uid s), s)"

definition sys_time :: "syscall_params \<Rightarrow> 'a kernel_scheme \<Rightarrow> int \<times> 'a kernel_scheme" where
  "sys_time params s =
     (let time_ptr = ebx params;
          s = s\<lparr>current_time := get_timer_ticks s div 100\<rparr>;
          s = (if time_ptr \<noteq> 0 then s\<lparr>mem := write32 time_ptr (current_time s) (mem s)\<rparr> else s)
      in (sint (current_time s), s))"

definition sys_brk :: "syscall_params \<Rightarrow> 'a kernel_scheme \<Rightarrow> int \<times> 'a kernel_scheme" where
  "sys_brk params s = (sint (ebx params), s)"

definition sys_pause :: "syscall_params \<Rightarrow> 'a kernel_scheme \<Rightarrow> int \<times> 'a kernel_scheme" where
  "sys_pause params s = (0, s)"

definition sys_kill :: "syscall_params \<Rightarrow> 'a kernel_scheme \<Rightarrow> int \<times> 'a kernel_scheme" where
  "sys_kill params s = (0, s)"

fun run_syscall :: "syscall_handler \<Rightarrow> syscall_params \<Rightarrow> 'a kernel_scheme \<Rightarrow> int \<times> 'a kernel_scheme" where
  "run_syscall Sys_exit = sys_exit"
| "run_syscall Sys_fork = sys_fork"
| "run_syscall Sys_read = sys_read"
| "run_syscall Sys_write = sys_write"
| "run_syscall Sys_getpid = sys_getpid"
| "run_syscall Sys_getuid = sys_getuid"
| "run_syscall Sys_time = sys_time"
| "run_syscall Sys_brk = sys_brk"
| "run_syscall Sys_pause = sys_pause"
| "run_syscall Sys_kill = sys_kill"

section \<open>Table and dispatcher\<close>

definition is_valid_syscall :: "int \<Rightarrow> bool" where
  "is_valid_syscall syscall_num \<longleftrightarrow> syscall_num \<ge> 0 \<and> syscall_num < int NR_SYSCALLS"

definition register_syscall :: "int \<Rightarrow> syscall_handler \<Rightarrow> 'a kernel_scheme \<Rightarrow> 'a kernel_scheme" where
  "register_syscall syscall_num h s =
     (if is_valid_syscall syscall_num
      then s\<lparr>syscall_table := (syscall_table s)[nat syscall_num := Some h]\<rparr> else s)"

definition setup_syscall_gate :: "'a interrupts_scheme \<Rightarrow> 'a interrupts_scheme" where
  "setup_syscall_gate s = register_interrupt_handler 0x80 Syscall_entry s"

definition init_syscalls :: "'a kernel_scheme \<Rightarrow> 'a kernel_scheme" where
  "init_syscalls s =
     (let s = s\<lparr>syscall_table := fill_loop (\<lambda>i. None) NR_SYSCALLS (syscall_table s)\<rparr>;
          s = register_syscall SYS_EXIT Sys_exit s;
          s = register_syscall SYS_FORK Sys_fork s;
          s = register_syscall SYS_READ Sys_read s;
          s = register_syscall SYS_WRITE Sys_write s;
          s = register_syscall SYS_GETPID Sys_getpid s;
          s = register_syscall SYS_GETUID Sys_getuid s;
          s = register_syscall SYS_TIME Sys_time s;
          s = register_syscall SYS_BRK Sys_brk s;
          s = register_syscall SYS_PAUSE Sys_pause s;
          s = register_syscall SYS_KILL Sys_kill s;
          s = s\<lparr>sys_stats := \<lparr>total_calls = 0, successful_calls = 0, failed_calls = 0,
                calls_per_type = fill_loop (\<lambda>i. 0) NR_SYSCALLS (calls_per_type (sys_stats s))\<rparr>\<rparr>
      in setup_syscall_gate s)"

definition handle_syscall :: "syscall_params \<Rightarrow> 'a kernel_scheme \<Rightarrow> int \<times> 'a kernel_scheme" where
  "handle_syscall params s =
     (let syscall_num = sint (eax params);
          st = sys_stats s;
          s = s\<lparr>sys_stats := st\<lparr>total_calls := total_calls st + 1\<rparr>\<rparr>
      in if is_valid_syscall syscall_num \<and> syscall_table s ! nat syscall_num \<noteq> None then
           let st = sys_stats s; i = nat syscall_num;
               s = s\<lparr>sys_stats := st\<lparr>calls_per_type := (calls_per_type st)[i := calls_per_type st ! i + 1]\<rparr>\<rparr>;
               (result, s) = run_syscall (the (syscall_table s ! i)) params s;
               st = sys_stats s
           in if result \<ge> 0
              then (result, s\<lparr>sys_stats := st\<lparr>successful_calls := successful_calls st + 1\<rparr>\<rparr>)
              else (result, s\<lparr>sys_stats := st\<lparr>failed_calls := failed_calls st + 1\<rparr>\<rparr>)
         else
           let st = sys_stats s
           in (-1, s\<lparr>sys_stats := st\<lparr>failed_calls := failed_calls st + 1\<rparr>\<rparr>))"

definition print_syscall_stats :: "'a kernel_scheme \<Rightarrow> 'a kernel_scheme" where
  "print_syscall_stats s = s"

definition get_syscall_stats :: "'a kernel_scheme \<Rightarrow> syscall_stats" where
  "get_syscall_stats s = sys_stats s"

text \<open>
  The assembly entry point: it saves the registers, loads the kernel data selector through
  \<open>mov ax, 0x10\<close> (which overwrites the low half of \<open>eax\<close>), pushes the six registers as the
  parameter structure, calls \<open>handle_syscall\<close> and puts its result into the saved \<open>eax\<close>.
\<close>

definition syscall_entry :: "syscall_params \<Rightarrow> 'a kernel_scheme \<Rightarrow> u32 \<times> 'a kernel_scheme" where
  "syscall_entry regs s =
     (let params = regs\<lparr>eax := (eax regs AND 0xFFFF0000) OR 0x10\<rparr>;
          (result, s) = handle_syscall params s
      in (word_of_int result, s))"

section \<open>Frame\<close>

interpretation syscall_table_frame: console_frame syscall_table by unfold_locales simp_all
interpretation sys_stats_frame: console_frame sys_stats by unfold_locales simp_all
interpretation sys_stats_ports: port_frame sys_stats by unfold_locales simp_all
interpretation sys_stats_tasks: task_frame sys_stats by unfold_locales simp_all
interpretation syscall_table_ports: port_frame syscall_table by unfold_locales simp_all
interpretation syscall_table_tasks: task_frame syscall_table by unfold_locales simp_all

section \<open>What a system call can change\<close>

text \<open>
  A handler changes the screen, the user's memory for \<open>sys_time\<close>, and the two static counters;
  every other part of the state, the tasks and the scheduler in particular, is left alone.
\<close>

locale syscall_frame = console_frame f for f :: "'a kernel_scheme \<Rightarrow> 'b" +
  assumes f_mem: "\<And>s v. f (s\<lparr>mem := v\<rparr>) = f s"
    and f_current_time: "\<And>s v. f (s\<lparr>current_time := v\<rparr>) = f s"
    and f_fork_pid: "\<And>s v. f (s\<lparr>fork_pid := v\<rparr>) = f s"
begin

lemma f_write_loop: "f (write_loop n buf s) = f s"
  by (induction n buf s rule: write_loop.induct) simp_all

lemma f_run_syscall: "f (snd (run_syscall h params s)) = f s"
  by (cases h) (simp_all add: sys_exit_def sys_fork_def sys_read_def sys_write_def sys_getpid_def sys_getuid_def
      sys_time_def sys_brk_def sys_pause_def sys_kill_def Let_def f_write_loop f_mem f_current_time f_fork_pid)

end

interpretation sys_stats_call: syscall_frame sys_stats by unfold_locales simp_all
interpretation syscall_table_call: syscall_frame syscall_table by unfold_locales simp_all
interpretation tasks_call: syscall_frame tasks by unfold_locales simp_all
interpretation current_task_call: syscall_frame current_task by unfold_locales simp_all
interpretation task_list_call: syscall_frame task_list by unfold_locales simp_all
interpretation next_pid_call: syscall_frame next_pid by unfold_locales simp_all
interpretation task_count_call: syscall_frame task_count by unfold_locales simp_all

section \<open>The dispatcher\<close>

definition accepted :: "syscall_params \<Rightarrow> 'a kernel_scheme \<Rightarrow> bool" where
  "accepted params s \<longleftrightarrow> is_valid_syscall (sint (eax params)) \<and> syscall_table s ! nat (sint (eax params)) \<noteq> None"

text \<open>The state in which an accepted call's handler runs.\<close>

definition counted :: "syscall_params \<Rightarrow> 'a kernel_scheme \<Rightarrow> 'a kernel_scheme" where
  "counted params s =
     (let st = sys_stats s; i = nat (sint (eax params))
      in s\<lparr>sys_stats := st\<lparr>total_calls := total_calls st + 1,
           calls_per_type := (calls_per_type st)[i := calls_per_type st ! i + 1]\<rparr>\<rparr>)"

definition add_result :: "int \<Rightarrow> 'a kernel_scheme \<Rightarrow> 'a kernel_scheme" where
  "add_result result s = (let st = sys_stats s in
     s\<lparr>sys_stats := (if result \<ge> 0 then st\<lparr>successful_calls := successful_calls st + 1\<rparr>
       else st\<lparr>failed_calls := failed_calls st + 1\<rparr>)\<rparr>)"

lemma handle_syscall_eq:
  "handle_syscall params s =
    (if accepted params s
     then let h = the (syscall_table s ! nat (sint (eax params)));
              r = run_syscall h params (counted params s)
          in (fst r, add_result (fst r) (snd r))
     else (-1, s\<lparr>sys_stats := (sys_stats s)\<lparr>total_calls := total_calls (sys_stats s) + 1,
                  failed_calls := failed_calls (sys_stats s) + 1\<rparr>\<rparr>))"
  by (auto simp: handle_syscall_def accepted_def counted_def add_result_def Let_def split: prod.split)

lemma handle_syscall_stats:
  "sys_stats (snd (handle_syscall params s)) =
    (let st = sys_stats s;
       st = (if accepted params s then
         st\<lparr>calls_per_type := (calls_per_type st)[nat (sint (eax params)) := calls_per_type st ! nat (sint (eax params)) + 1]\<rparr>
         else st);
       st = st\<lparr>total_calls := total_calls st + 1\<rparr>
     in if fst (handle_syscall params s) \<ge> 0 then st\<lparr>successful_calls := successful_calls st + 1\<rparr>
        else st\<lparr>failed_calls := failed_calls st + 1\<rparr>)"
  by (simp add: handle_syscall_eq Let_def add_result_def sys_stats_call.f_run_syscall counted_def)

lemma handle_syscall_table: "syscall_table (snd (handle_syscall params s)) = syscall_table s"
  by (simp add: handle_syscall_eq Let_def add_result_def syscall_table_call.f_run_syscall counted_def)

fun run_syscalls :: "syscall_params list \<Rightarrow> 'a kernel_scheme \<Rightarrow> 'a kernel_scheme" where
  "run_syscalls [] s = s"
| "run_syscalls (p # ps) s = run_syscalls ps (snd (handle_syscall p s))"

lemma run_syscalls_stats:
  "total_calls (sys_stats s) = successful_calls (sys_stats s) + failed_calls (sys_stats s) \<Longrightarrow>
   total_calls (sys_stats (run_syscalls ps s)) = total_calls (sys_stats s) + of_nat (length ps)
   \<and> total_calls (sys_stats (run_syscalls ps s))
       = successful_calls (sys_stats (run_syscalls ps s)) + failed_calls (sys_stats (run_syscalls ps s))"
proof (induction ps arbitrary: s)
  case (Cons p ps)
  let ?t = "snd (handle_syscall p s)"
  have t: "total_calls (sys_stats ?t) = total_calls (sys_stats s) + 1"
    "total_calls (sys_stats ?t) = successful_calls (sys_stats ?t) + failed_calls (sys_stats ?t)"
    using Cons.prems by (auto simp: handle_syscall_stats Let_def)
  from Cons.IH [OF t(2)] t(1) show ?case by (auto simp: add_ac)
qed simp

lemma run_syscalls_table: "syscall_table (run_syscalls ps s) = syscall_table s"
  by (induction ps arbitrary: s) (simp_all add: handle_syscall_table)

text \<open>The table after \<open>init_syscalls\<close>.\<close>

definition registered :: "nat \<Rightarrow> syscall_handler option" where
  "registered n = map_of [(1, Sys_exit), (2, Sys_fork), (3, Sys_read), (4, Sys_write), (20, Sys_getpid),
     (24, Sys_getuid), (13, Sys_time), (45, Sys_brk), (29, Sys_pause), (37, Sys_kill)] n"

lemma init_syscall_table:
  assumes "length (syscall_table s) = 64"
  shows "n < 64 \<Longrightarrow> syscall_table (init_syscalls s) ! n = registered n"
    and "length (syscall_table (init_syscalls s)) = 64"
proof -
  have t: "syscall_table (init_syscalls s) = (map (\<lambda>i. None) [0..<64])[1 := Some Sys_exit, 2 := Some Sys_fork,
      3 := Some Sys_read, 4 := Some Sys_write, 20 := Some Sys_getpid, 24 := Some Sys_getuid, 13 := Some Sys_time,
      45 := Some Sys_brk, 29 := Some Sys_pause, 37 := Some Sys_kill]"
    using assms by (simp add: init_syscalls_def Let_def register_syscall_def is_valid_syscall_def setup_syscall_gate_def
        register_interrupt_handler_def NR_SYSCALLS_def fill_loop_all SYS_EXIT_def SYS_FORK_def SYS_READ_def
        SYS_WRITE_def SYS_GETPID_def SYS_GETUID_def SYS_TIME_def SYS_BRK_def SYS_PAUSE_def SYS_KILL_def
        del: map_replicate_trivial)
  show "length (syscall_table (init_syscalls s)) = 64" by (simp add: t)
  show "syscall_table (init_syscalls s) ! n = registered n" if "n < 64"
    unfolding t registered_def using that by (simp add: nth_list_update)
qed

lemma init_syscalls_stats:
  "total_calls (sys_stats (init_syscalls s)) = 0" "successful_calls (sys_stats (init_syscalls s)) = 0"
  "failed_calls (sys_stats (init_syscalls s)) = 0"
  by (simp_all add: init_syscalls_def Let_def setup_syscall_gate_def register_interrupt_handler_def)

lemma syscall_number_16:
  assumes "is_valid_syscall (sint (((w :: u32) AND 0xFFFF0000) OR 0x10))"
  shows "sint ((w AND 0xFFFF0000) OR 0x10) = 16"
proof -
  let ?v = "(w AND 0xFFFF0000) OR 0x10"
  have "take_bit 16 ?v = 0x10" by (simp add: take_bit_or take_bit_and)
  moreover have "take_bit 16 (uint ?v) = uint (take_bit 16 ?v)" by (simp only: unsigned_take_bit_eq)
  ultimately have "take_bit 16 (uint ?v) = 16" by simp
  then have "uint ?v mod 65536 = 16" by (simp add: take_bit_eq_mod)
  moreover have "sint ?v = uint ?v" "uint ?v < 64"
    using assms uint_lt2p [of ?v] by (auto simp: is_valid_syscall_def NR_SYSCALLS_def sint_eq_uint_if split: if_splits)
  ultimately show ?thesis by simp
qed

section \<open>Writing\<close>

lemma write_loop_eq:
  "write_loop n buf s = print_chars (until_nul (map (\<lambda>i. mem s (buf + of_nat i)) [0..<n])) s"
proof (induction n buf s rule: write_loop.induct)
  case (2 n buf s)
  have u: "[0..<Suc n] = 0 # map Suc [0..<n]" by (simp add: upt_conv_Cons map_Suc_upt)
  show ?case
  proof (cases "mem s buf = 0")
    case True
    then show ?thesis unfolding u by (simp add: until_nul_def print_chars_def)
  next
    case False
    have m: "map (\<lambda>i. mem s (buf + of_nat i)) [0..<Suc n] = mem s buf # map (\<lambda>i. mem s (buf + 1 + of_nat i)) [0..<n]"
      unfolding u by (simp add: comp_def add.assoc add.commute [of 1])
    show ?thesis using False 2 unfolding m by (simp add: until_nul_def print_chars_def)
  qed
qed (simp add: until_nul_def print_chars_def)

lemma syscall_entry_fails:
  assumes "syscall_table s ! 16 = None"
  shows "syscall_entry regs s = (-1, s\<lparr>sys_stats := (sys_stats s)\<lparr>total_calls := total_calls (sys_stats s) + 1,
    failed_calls := failed_calls (sys_stats s) + 1\<rparr>\<rparr>)"
proof -
  have "\<not> accepted (regs\<lparr>eax := (eax regs AND 0xFFFF0000) OR 0x10\<rparr>) s"
    using assms syscall_number_16 [of "eax regs"] by (auto simp: accepted_def)
  then show ?thesis by (simp add: syscall_entry_def handle_syscall_eq)
qed

lemma init_syscalls_16: "length (syscall_table s) = 64 \<Longrightarrow> syscall_table (init_syscalls s) ! 16 = None"
  using init_syscall_table(1) [of s 16] by (simp add: registered_def)

section \<open>Properties of system calls\<close>

definition power_on_kernel :: kernel where
  "power_on_kernel = keyboard.extend power_on_keyboard (kernel.fields (replicate 64 None)
     \<lparr>total_calls = 0, successful_calls = 0, failed_calls = 0, calls_per_type = replicate 64 0\<rparr> 0 0 100 1)"

lemmas power_on_defs = power_on_kernel_def power_on_keyboard_def power_on_scheduling_def power_on_tasking_def
  power_on_memory_def memory.defs tasking.defs scheduling.defs interrupts.defs keyboard.defs kernel.defs

lemma power_on_kernel_table [simp]:
  "syscall_table power_on_kernel = replicate 64 None" "fork_pid power_on_kernel = 100"
  by (simp_all add: power_on_defs)

definition call_of :: "u32 \<Rightarrow> syscall_params" where
  "call_of n = \<lparr>eax = n, ebx = 0, ecx = 0, edx = 0, esi = 0, edi = 0\<rparr>"

text \<open>
  C39: dispatch and accounting. After \<open>init_syscalls\<close> and any sequence of calls, the total counter
  is the number of calls (modulo \<open>2 ^ 32\<close>) and the sum of the successful and the failed ones, and a
  further call runs the handler registered for its number, or returns -1 for a number without one
  and changes nothing but two counters.
\<close>

theorem syscall_dispatch:
  assumes "length (syscall_table s) = 64"
  shows "let t = run_syscalls ps (init_syscalls s); n = sint (eax p) in
      total_calls (sys_stats t) = of_nat (length ps)
    \<and> total_calls (sys_stats t) = successful_calls (sys_stats t) + failed_calls (sys_stats t)
    \<and> (case (if 0 \<le> n \<and> n < 64 then registered (nat n) else None) of
         Some h \<Rightarrow> fst (handle_syscall p t) = fst (run_syscall h p (counted p t))
       | None \<Rightarrow> handle_syscall p t = (-1, t\<lparr>sys_stats := (sys_stats t)\<lparr>total_calls := total_calls (sys_stats t) + 1,
                    failed_calls := failed_calls (sys_stats t) + 1\<rparr>\<rparr>))"
proof -
  define t where "t = run_syscalls ps (init_syscalls s)"
  define n where "n = sint (eax p)"
  have "total_calls (sys_stats t) = of_nat (length ps)"
    "total_calls (sys_stats t) = successful_calls (sys_stats t) + failed_calls (sys_stats t)"
    using run_syscalls_stats [of "init_syscalls s" ps] by (auto simp: t_def init_syscalls_stats)
  moreover have tab: "syscall_table t ! nat n = registered (nat n)" if "0 \<le> n" "n < 64"
    using init_syscall_table(1) [OF assms, of "nat n"] that by (simp add: t_def run_syscalls_table)
  have "case (if 0 \<le> n \<and> n < 64 then registered (nat n) else None) of
         Some h \<Rightarrow> fst (handle_syscall p t) = fst (run_syscall h p (counted p t))
       | None \<Rightarrow> handle_syscall p t = (-1, t\<lparr>sys_stats := (sys_stats t)\<lparr>total_calls := total_calls (sys_stats t) + 1,
                    failed_calls := failed_calls (sys_stats t) + 1\<rparr>\<rparr>)"
    using tab by (auto simp: handle_syscall_eq Let_def accepted_def is_valid_syscall_def NR_SYSCALLS_def
        n_def [symmetric] split: option.split if_splits)
  ultimately show ?thesis unfolding Let_def t_def [symmetric] n_def [symmetric] by blast
qed

theorem syscall_dispatch_witness:
  "fst (handle_syscall (call_of 2) (run_syscalls [call_of 2, call_of 63] (init_syscalls power_on_kernel))) = 101"
proof -
  have len: "length (syscall_table power_on_kernel) = 64" by simp
  let ?t = "run_syscalls [call_of 2, call_of 63] (init_syscalls power_on_kernel)"
  have "registered 2 = Some Sys_fork" "registered 63 = None" by (simp_all add: registered_def)
  moreover have "fork_pid (init_syscalls power_on_kernel) = 100"
    by (simp add: init_syscalls_def Let_def register_syscall_def setup_syscall_gate_def register_interrupt_handler_def)
  ultimately have "fork_pid ?t = 101"
    using init_syscall_table(1) [OF len, of 2] init_syscall_table(1) [OF len, of 63]
    by (simp add: handle_syscall_eq accepted_def is_valid_syscall_def NR_SYSCALLS_def call_of_def Let_def
        sys_fork_def counted_def add_result_def)
  moreover have "fst (handle_syscall (call_of 2) ?t) = fst (run_syscall Sys_fork (call_of 2) (counted (call_of 2) ?t))"
    using syscall_dispatch [OF len, of "[call_of 2, call_of 63]" "call_of 2"] \<open>registered 2 = Some Sys_fork\<close>
    by (simp add: Let_def call_of_def)
  ultimately show ?thesis by (simp add: sys_fork_def counted_def Let_def)
qed

text \<open>
  The entry point loses the call number. Whatever number the caller puts into \<open>eax\<close>, the
  dispatcher sees 16 in its low half; no handler has that number, so after \<open>init_syscalls\<close> every
  call made through \<open>syscall_entry\<close> returns -1 and counts as failed.
\<close>

theorem syscall_entry_always_fails:
  assumes "length (syscall_table s) = 64"
  shows "let t = run_syscalls ps (init_syscalls s) in
    syscall_entry regs t = (-1, t\<lparr>sys_stats := (sys_stats t)\<lparr>total_calls := total_calls (sys_stats t) + 1,
      failed_calls := failed_calls (sys_stats t) + 1\<rparr>\<rparr>)"
proof -
  have "syscall_table (run_syscalls ps (init_syscalls s)) ! 16 = None"
    by (simp add: run_syscalls_table init_syscalls_16 [OF assms])
  from syscall_entry_fails [OF this] show ?thesis by (simp add: Let_def)
qed

theorem syscall_entry_always_fails_witness:
  "fst (syscall_entry (call_of 20) (run_syscalls [] (init_syscalls power_on_kernel))) = -1"
proof -
  have "length (syscall_table power_on_kernel) = 64" by simp
  from syscall_entry_always_fails [OF this, of "[]" "call_of 20"] show ?thesis by (simp add: Let_def)
qed

text \<open>
  C40: \<open>sys_write\<close>. To standard output or error it prints the bytes of the buffer up to the count
  or the first NUL, whichever comes first, and reports the full count; other descriptors are
  refused with -1 and nothing printed.
\<close>

theorem sys_write_correct:
  "sys_write p s =
    (if sint (ebx p) = 1 \<or> sint (ebx p) = 2
     then (sint (edx p), print_chars (until_nul (map (\<lambda>i. mem s (ecx p + of_nat i)) [0..<nat (sint (edx p))])) s)
     else (-1, s))"
  by (simp add: sys_write_def Let_def write_loop_eq)

text \<open>
  System calls do not manage processes. No call, \<open>sys_exit\<close>, \<open>sys_kill\<close> and \<open>sys_fork\<close> included,
  changes the tasks, the current task or the task list.
\<close>

theorem syscalls_ignore_tasks:
  "tasks (snd (handle_syscall p s)) = tasks s \<and> current_task (snd (handle_syscall p s)) = current_task s
   \<and> task_list (snd (handle_syscall p s)) = task_list s"
  by (simp add: handle_syscall_eq Let_def add_result_def counted_def tasks_call.f_run_syscall
      current_task_call.f_run_syscall task_list_call.f_run_syscall)

end
