(* ===== verification/Kernel.thy ===== *)
theory Kernel
  imports Pages Syscall
begin

text \<open>
  The main program of \<open>kernel/kernel.c\<close>: \<open>kernel_main\<close> up to the point where interrupts are
  enabled as one function, the rest of it as steps between which interrupts can arrive, and the
  dispatch of the registered interrupt handlers. The invariants of the components are put
  together into one invariant of the running system.
\<close>

section \<open>Dispatch\<close>

text \<open>
  Running a registered handler. \<open>syscall_entry\<close> ends in \<open>iret\<close>; called as a C function from
  \<open>isr_handler\<close> it would take the return address for an interrupt frame, so that call is undefined.
\<close>

fun run_handler :: "interrupt_handler \<Rightarrow> interrupt_context \<Rightarrow> 'a kernel_scheme \<Rightarrow> 'a kernel_scheme outcome" where
  "run_handler Divide_error_handler ctx s = divide_error_handler ctx s"
| "run_handler Page_fault_handler ctx s = page_fault_handler ctx s"
| "run_handler General_protection_fault_handler ctx s = general_protection_fault_handler ctx s"
| "run_handler Timer_handler ctx s = timer_handler ctx s"
| "run_handler Keyboard_handler ctx s = keyboard_handler ctx s"
| "run_handler Keyboard_interrupt_handler ctx s = keyboard_interrupt_handler ctx s"
| "run_handler Syscall_entry ctx s = Undefined"

section \<open>The main program\<close>

text \<open>What the linker and the state of the stack contribute: addresses and one stack word.\<close>

record link =
  stub_address :: "u8 \<Rightarrow> u32"
  idt_address :: u32
  load_idt_word :: u32
  idle_address :: u32
  demo_address :: u32

text \<open>The empty delay loops have no effect on the state.\<close>

definition demo_task :: "'a tasking_scheme \<Rightarrow> 'a tasking_scheme option" where
  "demo_task s =
     task_exit 0 (fold (\<lambda>i. print_string (cstr ''[DEMO] Task running...'' @ [0x0A])) [0..<3] s)"

text \<open>
  \<open>kernel_main\<close> from its start to \<open>enable_interrupts()\<close>: up to the system calls, whose
  initialisation cannot fail to return, and from the scheduler on.
\<close>

definition early_boot :: "link \<Rightarrow> 'a kernel_scheme \<Rightarrow> 'a kernel_scheme" where
  "early_boot l s =
     (let s = clear_screen s;
          s = print_string msg_kernel_109 s;
          s = print_string msg_kernel_110 s;
          s = print_string msg_kernel_113 s;
          s = init_interrupts (stub_address l) (idt_address l) (load_idt_word l) s;
          s = init_memory_manager s
      in init_syscalls s)"

definition late_boot :: "link \<Rightarrow> 'a kernel_scheme \<Rightarrow> 'a kernel_scheme option" where
  "late_boot l s =
     Option.bind (init_scheduler (idle_address l) s) (\<lambda>s.
     let s = start_scheduler s;
         s = print_string msg_kernel_129 s;
         s = init_task_manager s;
         s = print_string msg_kernel_133 s
     in Option.bind (create_task (cstr ''demo_task'') (demo_address l) s) (\<lambda>(t, s).
        let s = print_string msg_kernel_137 s
        in Option.bind (print_task_info_by_pid 0 s) (\<lambda>s.
           Option.bind (print_task_info_by_pid 1 s) (\<lambda>s.
           let s = print_string msg_kernel_142 s
           in Some (enable_interrupts s)))))"

definition kernel_boot :: "link \<Rightarrow> 'a kernel_scheme \<Rightarrow> 'a kernel_scheme option" where
  "kernel_boot l s = late_boot l (early_boot l s)"

text \<open>
  The rest of \<open>kernel_main\<close>, split at points between which an interrupt has no visible effect on
  the order of its own actions. \<open>Heap_release\<close> carries \<open>ptr2\<close>, \<open>Keyboard_test\<close> the loop counter. The endless
  loop has three positions: \<open>Main_loop\<close> at the start of an iteration, \<open>Main_hlt\<close> before the instruction
  \<open>hlt\<close>, and \<open>Main_waiting\<close> when the processor has executed it and is halted.
\<close>

datatype position =
  Heap_test | Heap_release u32 | Keyboard_setup | Keyboard_test nat | Statistics
| Main_loop | Main_hlt | Main_waiting

definition heap_test :: "'a kernel_scheme \<Rightarrow> (u32 \<times> 'a kernel_scheme) option" where
  "heap_test s =
     (let s = print_string msg_kernel_145 s;
          s = print_string (cstr ''hi'' @ [0x0A]) s;
          s = print_string msg_kernel_147 s;
          s = print_string msg_kernel_148 s;
          s = print_string msg_kernel_151 s
      in Option.bind (kmalloc 1024 s) (\<lambda>(ptr1, s).
         Option.bind (kmalloc 2048 s) (\<lambda>(ptr2, s).
         Option.bind (kmalloc 512 s) (\<lambda>(ptr3, s).
         let s = print_string msg_kernel_158 s
         in Some (ptr2, print_memory_info s)))))"

definition heap_release :: "u32 \<Rightarrow> 'a kernel_scheme \<Rightarrow> 'a kernel_scheme option" where
  "heap_release ptr2 s =
     Option.bind (kfree ptr2 s) (\<lambda>s.
     let s = print_string msg_kernel_163 s
     in Some (print_memory_info s))"

definition keyboard_setup :: "'a kernel_scheme \<Rightarrow> 'a kernel_scheme" where
  "keyboard_setup s =
     (let s = init_keyboard s;
          s = print_string (0x0A # cstr ''=== Keyboard Test ==='' @ [0x0A]) s
      in print_string (cstr ''Type some characters (press any key to continue):'' @ [0x0A]) s)"

definition echo_key :: "cstring \<Rightarrow> 'a kernel_scheme \<Rightarrow> 'a kernel_scheme option" where
  "echo_key label s =
     (case keyboard_getchar s of
        None \<Rightarrow> None
      | Some (c, s) \<Rightarrow>
          let s = print_string label s;
              s = print_char c s
          in Some (print_string [0x0A] s))"

definition keyboard_test :: "'a kernel_scheme \<Rightarrow> 'a kernel_scheme option" where
  "keyboard_test s =
     (if keyboard_has_input s then echo_key (cstr ''You pressed: '') s
      else Some (print_string (cstr ''Waiting for input...'' @ [0x0A]) s))"

definition statistics :: "'a kernel_scheme \<Rightarrow> 'a kernel_scheme" where
  "statistics s =
     (let s = print_keyboard_stats s;
          s = print_string (0x0A # cstr ''=== System Ready ==='' @ [0x0A]) s;
          s = print_string (cstr ''All Linux 0.01 inspired features initialized!'' @ [0x0A]) s
      in print_string (cstr ''[DEBUG] Entering main loop...'' @ [0x0A]) s)"

text \<open>One iteration of \<open>while (1)\<close>, up to its \<open>hlt\<close>.\<close>

definition main_loop :: "'a kernel_scheme \<Rightarrow> 'a kernel_scheme option" where
  "main_loop s = (if keyboard_has_input s then echo_key (cstr ''Input: '') s else Some s)"

text \<open>
  The halted processor does nothing until an interrupt comes; when the handler returns, it goes on
  behind \<open>hlt\<close>, with the next iteration. An interrupt that comes before \<open>hlt\<close> is executed does not count.
\<close>

fun wake :: "position \<Rightarrow> position" where
  "wake Main_waiting = Main_loop"
| "wake p = p"

fun main_step :: "position \<Rightarrow> 'a kernel_scheme \<Rightarrow> (position \<times> 'a kernel_scheme) option" where
  "main_step Heap_test s = map_option (\<lambda>(p, s). (Heap_release p, s)) (heap_test s)"
| "main_step (Heap_release p) s = map_option (Pair Keyboard_setup) (heap_release p s)"
| "main_step Keyboard_setup s = Some (Keyboard_test 0, keyboard_setup s)"
| "main_step (Keyboard_test i) s =
     (if i < 5 then map_option (Pair (Keyboard_test (i + 1))) (keyboard_test s) else Some (Statistics, s))"
| "main_step Statistics s = Some (Main_loop, statistics s)"
| "main_step Main_loop s = map_option (Pair Main_hlt) (main_loop s)"
| "main_step Main_hlt s = Some (Main_waiting, s)"
| "main_step Main_waiting s = Some (Main_waiting, s)"

section \<open>The running system\<close>

text \<open>
  The system moves by a step of the main program or, when interrupts are enabled, by a hardware
  interrupt, which wakes a halted processor up, in any order. The context record is arbitrary: the assembly stubs pass a pointer
  that does not address the frame they build (theory \<open>Entry\<close>), so nothing ties what the C
  dispatcher reads to the interrupt that arrived.
\<close>

inductive system_step :: "position \<times> 'a kernel_scheme \<Rightarrow> position \<times> 'a kernel_scheme \<Rightarrow> bool" where
  main: "main_step p s = Some (q, t) \<Longrightarrow> system_step (p, s) (q, t)"
| irq: "interrupt_flag s \<Longrightarrow> irq_handler run_handler ctx s = Return t \<Longrightarrow> system_step (p, s) (wake p, t)"

inductive reachable :: "link \<Rightarrow> 'a kernel_scheme \<Rightarrow> position \<times> 'a kernel_scheme \<Rightarrow> bool" for l s where
  boot: "kernel_boot l s = Some t \<Longrightarrow> reachable l s (Heap_test, t)"
| step: "reachable l s x \<Longrightarrow> system_step x y \<Longrightarrow> reachable l s y"

section \<open>What an invariant of the system has to satisfy\<close>

text \<open>
  A predicate on the kernel state survives hardware interrupts when each of the operations the
  interrupt handlers are built from keeps it.
\<close>

locale interrupt_part =
  fixes I :: "'a kernel_scheme \<Rightarrow> bool"
  assumes keep_print_char: "\<And>s c. I s \<Longrightarrow> I (print_char c s)"
    and keep_outb: "\<And>s p v. I s \<Longrightarrow> I (outb p v s)"
    and keep_count: "\<And>s v. I s \<Longrightarrow> I (s\<lparr>interrupt_count := v\<rparr>)"
    and keep_timer: "\<And>ctx s t. I s \<Longrightarrow> timer_handler ctx s = Return t \<Longrightarrow> I t"
    and keep_reads: "\<And>s v. I s \<Longrightarrow> I (s\<lparr>port_reads := v\<rparr>)"
    and keep_keyboard_interrupt: "\<And>ctx s t. I s \<Longrightarrow> keyboard_interrupt_handler ctx s = Return t \<Longrightarrow> I t"
begin

lemma keep_print_chars: "I s \<Longrightarrow> I (print_chars cs s)"
  unfolding print_chars_def by (induction cs arbitrary: s) (simp_all add: keep_print_char)

lemma keep_print_string: "I s \<Longrightarrow> I (print_string str s)"
  by (simp add: print_string_def keep_print_chars)

lemma keep_print_number: "I s \<Longrightarrow> I (print_number n s)"
  by (simp add: print_number_def keep_print_chars keep_print_char)

lemma keep_print_hex: "I s \<Longrightarrow> I (print_hex n s)"
  by (simp add: print_hex_def Let_def keep_print_string)

lemmas keep_output = keep_print_char keep_print_string keep_print_number keep_print_hex

lemma keep_keyboard_handler: "I s \<Longrightarrow> keyboard_handler ctx s = Return t \<Longrightarrow> I t"
  by (auto simp: keyboard_handler_def inb_def Let_def keep_output keep_reads)

lemma keep_run_handler:
  assumes "I s" "run_handler h ctx s = Return t"
  shows "I t"
  using assms(2) keep_timer [OF assms(1)] keep_keyboard_handler [OF assms(1)] keep_keyboard_interrupt [OF assms(1)]
  by (cases h) (auto simp: divide_error_handler_def page_fault_handler_def general_protection_fault_handler_def Let_def)

lemma keep_irq_handler: "I s \<Longrightarrow> irq_handler run_handler ctx s = Return t \<Longrightarrow> I t"
  by (auto simp: irq_handler_def send_eoi_def Let_def split: if_splits option.splits
      intro!: keep_outb keep_count elim!: keep_run_handler [rotated])

end

text \<open>
  It is an invariant of the running system when the operations of the main program keep it, too.
  The components' invariants are shown to satisfy this contract one by one.
\<close>

locale kernel_part = interrupt_part I for I :: "'a kernel_scheme \<Rightarrow> bool" +
  assumes keep_kmalloc: "\<And>s n p t. I s \<Longrightarrow> kmalloc n s = Some (p, t) \<Longrightarrow> I t"
    and keep_kfree: "\<And>s p t. I s \<Longrightarrow> kfree p s = Some t \<Longrightarrow> I t"
    and keep_init_keyboard: "\<And>s. I s \<Longrightarrow> I (init_keyboard s)"
    and keep_get: "\<And>s. I s \<Longrightarrow> I (snd (keyboard_buffer_get s))"
begin

lemma keep_print_memory_info: "I s \<Longrightarrow> I (print_memory_info s)"
  unfolding print_memory_info_def Let_def by (intro keep_output)

lemma keep_heap_test:
  assumes "I s" "heap_test s = Some (p, t)"
  shows "I t"
proof -
  obtain p1 s1 s2 p3 s3 where calls: "kmalloc 1024 (print_string msg_kernel_151 (print_string msg_kernel_148
      (print_string msg_kernel_147 (print_string (cstr ''hi'' @ [0x0A]) (print_string msg_kernel_145 s))))) = Some (p1, s1)"
      "kmalloc 2048 s1 = Some (p, s2)" "kmalloc 512 s2 = Some (p3, s3)"
    and t: "t = print_memory_info (print_string msg_kernel_158 s3)"
    using assms(2) unfolding heap_test_def Let_def by (auto simp: bind_eq_Some_conv)
  have "I s1" by (rule keep_kmalloc [OF _ calls(1)]) (intro keep_output assms(1))
  then have "I s3" using calls(2,3) keep_kmalloc by metis
  then show "I t" unfolding t by (intro keep_print_memory_info keep_output)
qed

lemma keep_heap_release:
  assumes "I s" "heap_release p s = Some t"
  shows "I t"
proof -
  obtain u where u: "kfree p s = Some u" and t: "t = print_memory_info (print_string msg_kernel_163 u)"
    using assms(2) unfolding heap_release_def Let_def by (auto simp: bind_eq_Some_conv)
  show ?thesis unfolding t by (intro keep_print_memory_info keep_output keep_kfree [OF assms(1) u])
qed

lemma keep_echo_key:
  assumes "I s" "echo_key label s = Some t"
  shows "I t"
proof -
  obtain c u where u: "keyboard_getchar s = Some (c, u)"
    and t: "t = print_string [0x0A] (print_char c (print_string label u))"
    using assms(2) unfolding echo_key_def Let_def by (auto split: option.splits)
  have "u = snd (keyboard_buffer_get s)" using u by (auto simp: keyboard_getchar_def split: if_splits)
  then have "I u" using keep_get [OF assms(1)] by simp
  then show ?thesis unfolding t by (intro keep_output)
qed

lemma keep_statistics: "I s \<Longrightarrow> I (statistics s)"
  unfolding statistics_def print_keyboard_stats_def Let_def by (intro keep_output)

lemma keep_keyboard_test: "I s \<Longrightarrow> keyboard_test s = Some t \<Longrightarrow> I t"
  by (auto simp: keyboard_test_def keep_output split: if_splits elim: keep_echo_key [rotated])

lemma keep_main_loop: "I s \<Longrightarrow> main_loop s = Some t \<Longrightarrow> I t"
  by (auto simp: main_loop_def split: if_splits elim: keep_echo_key [rotated])

lemma keep_keyboard_setup: "I s \<Longrightarrow> I (keyboard_setup s)"
  unfolding keyboard_setup_def Let_def by (intro keep_output keep_init_keyboard)

lemma keep_main_step:
  assumes "I s" "main_step p s = Some (q, t)"
  shows "I t"
proof (cases p)
  case Heap_test
  then show ?thesis using assms keep_heap_test by auto
next
  case (Heap_release a)
  then show ?thesis using assms keep_heap_release by auto
next
  case Keyboard_setup
  then show ?thesis using assms keep_keyboard_setup by auto
next
  case (Keyboard_test i)
  then show ?thesis using assms keep_keyboard_test by (auto split: if_splits)
next
  case Statistics
  then show ?thesis using assms keep_statistics by auto
next
  case Main_loop
  then show ?thesis using assms keep_main_loop by auto
qed (use assms in auto)

lemma keep_system_step: "system_step x y \<Longrightarrow> I (snd x) \<Longrightarrow> I (snd y)"
  by (induction rule: system_step.induct) (auto intro: keep_main_step keep_irq_handler)

lemma keep_reachable:
  assumes "\<And>t. kernel_boot l s = Some t \<Longrightarrow> I t" "reachable l s x"
  shows "I (snd x)"
  using assms(2) by (induction rule: reachable.induct) (use assms(1) keep_system_step in auto)

end

end
