(* ===== verification/System.thy ===== *)
theory System
  imports Kernel
begin

text \<open>
  The invariants of the components as invariants of the running system. Each of them satisfies
  the contract \<open>kernel_part\<close>, each holds when \<open>kernel_main\<close> enables interrupts, and so all of them hold
  in every reachable state.
\<close>

section \<open>Which state components an operation may change\<close>

lemma schedule_only:
  assumes "schedule s = Some t"
  shows "\<exists>ts c. t = s\<lparr>tasks := ts, current_task := c\<rparr>"
proof -
  have "t = s\<lparr>tasks := tasks t, current_task := current_task t\<rparr>"
    using assms by (auto simp: schedule_def set_task_def Let_def split: option.splits if_splits)
  then show ?thesis by blast
qed

lemma timer_handler_only:
  assumes "timer_handler ctx s = Return t"
  shows "\<exists>u ts c. t = u\<lparr>tasks := ts, current_task := c\<rparr>
    \<and> (u = s\<lparr>tick_count := tick_count s + 1\<rparr> \<or> u = print_char 0x2E (s\<lparr>tick_count := tick_count s + 1\<rparr>))"
proof -
  define u where "u = (if tick_count (s\<lparr>tick_count := tick_count s + 1\<rparr>) mod 100 = 0
      then print_char 0x2E (s\<lparr>tick_count := tick_count s + 1\<rparr>) else s\<lparr>tick_count := tick_count s + 1\<rparr>)"
  have "t = u \<or> schedule u = Some t"
    using assms unfolding timer_handler_def Let_def u_def [symmetric]
    by (auto simp: outcome_of_option_def split: if_splits option.splits)
  then have "\<exists>ts c. t = u\<lparr>tasks := ts, current_task := c\<rparr>"
  proof
    assume "t = u"
    then have "t = u\<lparr>tasks := tasks u, current_task := current_task u\<rparr>" by simp
    then show ?thesis by blast
  qed (rule schedule_only)
  then show ?thesis unfolding u_def by (cases "tick_count (s\<lparr>tick_count := tick_count s + 1\<rparr>) mod 100 = 0") auto
qed

lemma kmalloc_same: "kmalloc n s = Some (p, t) \<Longrightarrow> same_but_heap s t"
  by (auto simp: kmalloc_def Let_def same_but_heap_refl split: if_splits option.splits prod.splits intro: count_alloc_same)

lemma kfree_same: "kfree p s = Some t \<Longrightarrow> same_but_heap s t"
  by (auto simp: kfree_def compact_free_blocks_def Let_def same_but_heap_refl split: if_splits option.splits
      intro: count_free_same)

lemma handle_key_only:
  "\<exists>a b c. handle_key_press sc s = s\<lparr>kb_state := a, kb_buffer := b, kb_stats := c\<rparr>"
  "\<exists>a. handle_key_release sc s = s\<lparr>kb_state := a\<rparr>"
proof -
  have "handle_key_press sc s = s\<lparr>kb_state := kb_state (handle_key_press sc s),
      kb_buffer := kb_buffer (handle_key_press sc s), kb_stats := kb_stats (handle_key_press sc s)\<rparr>"
    by (simp add: handle_key_press_def handle_special_key_def keyboard_buffer_put_def Let_def)
  then show "\<exists>a b c. handle_key_press sc s = s\<lparr>kb_state := a, kb_buffer := b, kb_stats := c\<rparr>" by blast
  have "handle_key_release sc s = s\<lparr>kb_state := kb_state (handle_key_release sc s)\<rparr>"
    by (simp add: handle_key_release_def Let_def)
  then show "\<exists>a. handle_key_release sc s = s\<lparr>kb_state := a\<rparr>" by blast
qed

lemma keyboard_interrupt_only:
  assumes "keyboard_interrupt_handler ctx s = Return t"
  shows "\<exists>r w a b c. t = s\<lparr>port_reads := r, port_output := w, kb_state := a, kb_buffer := b, kb_stats := c\<rparr>"
proof -
  let ?r = "s\<lparr>port_reads := port_reads s + 1\<rparr>"
  obtain v sc where "t = outb 0x20 0x20 (handle_key_press sc (?r\<lparr>kb_stats := v\<rparr>))
      \<or> t = outb 0x20 0x20 (handle_key_release sc (?r\<lparr>kb_stats := v\<rparr>))"
    using assms unfolding keyboard_interrupt_handler_def read_keyboard_data_def inb_def Let_def
    by (auto split: if_splits)
  then obtain a b c where "t = outb 0x20 0x20 (?r\<lparr>kb_state := a, kb_buffer := b, kb_stats := c\<rparr>)"
  proof
    assume "t = outb 0x20 0x20 (handle_key_press sc (?r\<lparr>kb_stats := v\<rparr>))"
    then show thesis using handle_key_only(1) [of sc "?r\<lparr>kb_stats := v\<rparr>"] by (auto intro: that)
  next
    assume "t = outb 0x20 0x20 (handle_key_release sc (?r\<lparr>kb_stats := v\<rparr>))"
    moreover obtain a where "handle_key_release sc (?r\<lparr>kb_stats := v\<rparr>) = ?r\<lparr>kb_stats := v\<rparr>\<lparr>kb_state := a\<rparr>"
      using handle_key_only(2) by blast
    moreover have "?r\<lparr>kb_stats := v\<rparr>\<lparr>kb_state := a\<rparr> = ?r\<lparr>kb_state := a, kb_buffer := kb_buffer s, kb_stats := v\<rparr>" by simp
    ultimately show thesis by (metis that)
  qed
  then have "t = s\<lparr>port_reads := port_reads s + 1, port_output := port_output s @ [(0x20, 0x20)],
      kb_state := a, kb_buffer := b, kb_stats := c\<rparr>"
    by (simp add: outb_def)
  then show ?thesis by blast
qed

lemma keyboard_get_only: "\<exists>b. snd (keyboard_buffer_get s) = s\<lparr>kb_buffer := b\<rparr>"
proof -
  have "snd (keyboard_buffer_get s) = s\<lparr>kb_buffer := kb_buffer (snd (keyboard_buffer_get s))\<rparr>"
    by (simp add: keyboard_buffer_get_def Let_def)
  then show ?thesis by blast
qed

lemma init_keyboard_only:
  "\<exists>a b c. init_keyboard s = print_string (cstr ''[KEYBOARD] Keyboard initialized'' @ [0x0A])
     (s\<lparr>interrupt_handlers := (interrupt_handlers s)[33 := Some Keyboard_interrupt_handler],
        kb_state := a, kb_buffer := b, kb_stats := c\<rparr>)"
proof -
  have "s\<lparr>kb_state := a, kb_buffer := b, kb_stats := c, interrupt_handlers := h\<rparr>
      = s\<lparr>interrupt_handlers := h, kb_state := a, kb_buffer := b, kb_stats := c\<rparr>" for a b c h
    by simp
  then have "init_keyboard s = print_string (cstr ''[KEYBOARD] Keyboard initialized'' @ [0x0A])
     (s\<lparr>interrupt_handlers := (interrupt_handlers s)[33 := Some Keyboard_interrupt_handler],
        kb_state := kb_state (init_keyboard s), kb_buffer := kb_buffer (init_keyboard s),
        kb_stats := kb_stats (init_keyboard s)\<rparr>)"
    by (auto simp: init_keyboard_def Let_def register_interrupt_handler_def intro!: arg_cong [where f = "print_string _"])
  then show ?thesis by blast
qed

section \<open>Invariants that look at neither devices nor counters\<close>

text \<open>
  Most components' invariants ignore the screen, the ports, the keyboard and the interrupt
  counters. For them the contract reduces to what happens on a task switch, on a heap operation
  and when the keyboard handler is replaced.
\<close>

locale quiet_part = console_frame I + port_frame I for I :: "'a kernel_scheme \<Rightarrow> bool" +
  assumes I_kb_state: "\<And>s v. I (s\<lparr>kb_state := v\<rparr>) = I s"
    and I_kb_buffer: "\<And>s v. I (s\<lparr>kb_buffer := v\<rparr>) = I s"
    and I_kb_stats: "\<And>s v. I (s\<lparr>kb_stats := v\<rparr>) = I s"
    and I_interrupt_count: "\<And>s v. I (s\<lparr>interrupt_count := v\<rparr>) = I s"
    and I_tick_count: "\<And>s v. I (s\<lparr>tick_count := v\<rparr>) = I s"
    and keep_schedule: "\<And>s t. I s \<Longrightarrow> schedule s = Some t \<Longrightarrow> I t"
    and keep_malloc: "\<And>s n p t. I s \<Longrightarrow> kmalloc n s = Some (p, t) \<Longrightarrow> I t"
    and keep_free: "\<And>s p t. I s \<Longrightarrow> kfree p s = Some t \<Longrightarrow> I t"
    and keep_handler: "\<And>s. I s \<Longrightarrow>
      I (s\<lparr>interrupt_handlers := (interrupt_handlers s)[33 := Some Keyboard_interrupt_handler]\<rparr>)"
begin

lemmas I_fields = I_kb_state I_kb_buffer I_kb_stats I_interrupt_count I_tick_count f_port_output f_port_reads

lemma keep_timer_handler:
  assumes "I s" "timer_handler ctx s = Return t"
  shows "I t"
proof -
  define u where "u = (let s = s\<lparr>tick_count := tick_count s + 1\<rparr>
    in if tick_count s mod 100 = 0 then print_char 0x2E s else s)"
  have "I u" using assms(1) by (simp add: u_def Let_def I_fields)
  moreover have "t = u \<or> schedule u = Some t"
    using assms(2) unfolding timer_handler_def Let_def u_def
    by (auto simp: outcome_of_option_def split: if_splits option.splits)
  ultimately show ?thesis using keep_schedule by blast
qed

end

sublocale quiet_part \<subseteq> kernel_part I
proof
  fix s :: "'a kernel_scheme"
  assume I: "I s"
  show "I (init_keyboard s)"
    using init_keyboard_only [of s] keep_handler [OF I]
    by (auto simp: I_fields)
  show "I (snd (keyboard_buffer_get s))" using keyboard_get_only [of s] I by (auto simp: I_fields)
  show "I (s\<lparr>interrupt_count := v\<rparr>)" for v using I by (simp add: I_fields)
  show "I (s\<lparr>port_reads := v\<rparr>)" for v using I by (simp add: I_fields)
  show "I t" if "keyboard_interrupt_handler ctx s = Return t" for ctx t
    using keyboard_interrupt_only [OF that] I by (auto simp: I_fields)
  show "I t" if "timer_handler ctx s = Return t" for ctx t by (rule keep_timer_handler [OF I that])
  show "I t" if "kmalloc n s = Some (p, t)" for n p t by (rule keep_malloc [OF I that])
  show "I t" if "kfree p s = Some t" for p t by (rule keep_free [OF I that])
  show "I (print_char c s)" for c using I by simp
  show "I (outb p v s)" for p v using I by simp
qed

section \<open>The components' invariants satisfy the contract\<close>

definition kb_ok :: "'a keyboard_scheme \<Rightarrow> bool" where
  "kb_ok s \<longleftrightarrow> (\<exists>xs. kb_rep s xs)"

text \<open>The hardware interrupt vectors have no handler or one of those that return.\<close>

definition handlers_ok :: "'a interrupts_scheme \<Rightarrow> bool" where
  "handlers_ok s \<longleftrightarrow> length (interrupt_handlers s) = 256 \<and>
     (\<forall>v < 40. 32 \<le> v \<longrightarrow> interrupt_handlers s ! v \<in>
        {None, Some Timer_handler, Some Keyboard_handler, Some Keyboard_interrupt_handler})"

text \<open>The descriptor of vector 0x80 is the cleared one.\<close>

definition no_syscall_gate :: "'a interrupts_scheme \<Rightarrow> bool" where
  "no_syscall_gate s \<longleftrightarrow> idt s ! 0x80 = clear_idt_entry 0x80"

text \<open>The keyboard driver's interrupt handler is not registered yet.\<close>

definition keyboard_unhooked :: "'a interrupts_scheme \<Rightarrow> bool" where
  "keyboard_unhooked s \<longleftrightarrow> length (interrupt_handlers s) = 256
     \<and> (\<forall>v < 256. interrupt_handlers s ! v \<noteq> Some Keyboard_interrupt_handler)"

text \<open>The handlers of the interrupt lines other than the keyboard's, as \<open>init_interrupts\<close> sets them.\<close>

definition irq_lines :: "'a interrupts_scheme \<Rightarrow> bool" where
  "irq_lines s \<longleftrightarrow> length (interrupt_handlers s) = 256 \<and> interrupt_handlers s ! 32 = Some Timer_handler
     \<and> (\<forall>v < 40. 34 \<le> v \<longrightarrow> interrupt_handlers s ! v = None)"

definition keyboard_hooked :: "'a interrupts_scheme \<Rightarrow> bool" where
  "keyboard_hooked s \<longleftrightarrow> length (interrupt_handlers s) = 256 \<and> interrupt_handlers s ! 33 = Some Keyboard_interrupt_handler"

text \<open>The two tasks \<open>kernel_main\<close> creates, both able to run.\<close>

definition demo_runnable :: "'a tasking_scheme \<Rightarrow> bool" where
  "demo_runnable s \<longleftrightarrow> (\<exists>c. task_inv s 2 c) \<and> (\<forall>i < 2. state_of s i = TASK_READY \<or> state_of s i = TASK_RUNNING)"

text \<open>The switch between them: to the second task, which is the last of the list and stays current.\<close>

lemma schedule_two_tasks:
  assumes "demo_runnable s" "schedule s = Some t"
  shows "demo_runnable t \<and> current_task t = Some 1"
proof -
  obtain c where c: "task_inv s 2 c" using assms(1) by (auto simp: demo_runnable_def)
  note d = task_invD [OF c]
  have st: "state_of s 1 = TASK_READY \<or> state_of s 1 = TASK_RUNNING" "state_of s 0 = TASK_READY \<or> state_of s 0 = TASK_RUNNING"
    using assms(1) by (simp_all add: demo_runnable_def)
  consider "c = 0" | "c = 1" using d(7) by linarith
  then show ?thesis
  proof cases
    case 1
    have n: "next_of s 0 = Some 1" using d(8) [of 0] by simp
    have "schedule_loop (tasks s) (task_list s) 0 (Some 1) = Some (Some 1)"
      using st(1) by (subst schedule_loop.simps) auto
    then have t: "t = (let u = set_task 1 (\<lambda>t. t\<lparr>state := TASK_RUNNING\<rparr>) (s\<lparr>current_task := Some 1\<rparr>)
        in if state_of s 0 = TASK_RUNNING then set_task 0 (\<lambda>t. t\<lparr>state := TASK_READY\<rparr>) u else u)"
      using assms(2) d(1,6) 1 n by (simp add: schedule_def Let_def)
    moreover have "state_of t 0 = TASK_READY" "state_of t 1 = TASK_RUNNING" "current_task t = Some 1"
      using st(2) d(1) unfolding t Let_def by auto
    moreover obtain e where "task_inv t 2 e" using schedule_inv [OF c] assms(2) by auto
    ultimately show ?thesis by (auto simp: demo_runnable_def less_2_cases_iff)
  next
    case 2
    have "next_of s 1 = None" using d(8) [of 1] by simp
    then have "t = s" using assms(2) d(6) 2 by (simp add: schedule_def)
    then show ?thesis using assms(1) d(6) 2 by simp
  qed
qed

interpretation gate_part: quiet_part no_syscall_gate
proof
  fix s t :: "'a kernel_scheme"
  assume ok: "no_syscall_gate s"
  show "no_syscall_gate t" if "schedule s = Some t" using schedule_only [OF that] ok by (auto simp: no_syscall_gate_def)
  show "no_syscall_gate t" if "kmalloc n s = Some (p, t)" for n p
    using kmalloc_same [OF that] ok by (auto simp: no_syscall_gate_def same_but_heap_def)
  show "no_syscall_gate t" if "kfree p s = Some t" for p
    using kfree_same [OF that] ok by (auto simp: no_syscall_gate_def same_but_heap_def)
qed (simp_all add: no_syscall_gate_def)

interpretation heap_part: quiet_part heap_ok
proof
  fix s t :: "'a kernel_scheme"
  assume ok: "heap_ok s"
  show "heap_ok t" if "schedule s = Some t"
    using schedule_only [OF that] heap_ok_cong(2) [of t s] ok by auto
  show "heap_ok t" if "kmalloc n s = Some (p, t)" for n p using kernel_heap.alloc_ok [OF ok, of n] that by auto
  show "heap_ok t" if "kfree p s = Some t" for p using kfree_ok [OF ok, of p] that by auto
  show "heap_ok (s\<lparr>interrupt_handlers := (interrupt_handlers s)[33 := Some Keyboard_interrupt_handler]\<rparr>)"
    by (rule heap_ok_cong(2) [THEN iffD2, OF _ _ _ _ ok]) simp_all
qed (rule heap_ok_cong(2); simp)+

interpretation pages_part: quiet_part pages_ok
proof
  fix s t :: "'a kernel_scheme"
  assume ok: "pages_ok s"
  show "pages_ok t" if "schedule s = Some t" using schedule_only [OF that] ok by (auto simp: pages_ok_def)
  show "pages_ok t" if "kmalloc n s = Some (p, t)" for n p
    using kmalloc_same [OF that] ok by (auto simp: pages_ok_def same_but_heap_def Let_def)
  show "pages_ok t" if "kfree p s = Some t" for p
    using kfree_same [OF that] ok by (auto simp: pages_ok_def same_but_heap_def Let_def)
qed (simp_all add: pages_ok_def)

interpretation tasks_part: quiet_part tasks_ok
proof
  fix s t :: "'a kernel_scheme"
  assume ok: "tasks_ok s"
  show "tasks_ok t" if "schedule s = Some t" using ok schedule_inv [of s] that by (fastforce simp: tasks_ok_def)
  show "tasks_ok t" if "kmalloc n s = Some (p, t)" for n p
    using kmalloc_same [OF that] ok by (auto simp: tasks_ok_def task_inv_def same_but_heap_def)
  show "tasks_ok t" if "kfree p s = Some t" for p
    using kfree_same [OF that] ok by (auto simp: tasks_ok_def task_inv_def same_but_heap_def)
qed (simp_all add: tasks_ok_def task_inv_def)

interpretation handlers_part: quiet_part handlers_ok
proof
  fix s t :: "'a kernel_scheme"
  assume ok: "handlers_ok s"
  show "handlers_ok t" if "schedule s = Some t" using schedule_only [OF that] ok by (elim exE) (simp add: handlers_ok_def)
  show "handlers_ok t" if "kmalloc n s = Some (p, t)" for n p
    using kmalloc_same [OF that] ok unfolding same_but_heap_def by (elim exE) (simp add: handlers_ok_def)
  show "handlers_ok t" if "kfree p s = Some t" for p
    using kfree_same [OF that] ok unfolding same_but_heap_def by (elim exE) (simp add: handlers_ok_def)
  show "handlers_ok (s\<lparr>interrupt_handlers := (interrupt_handlers s)[33 := Some Keyboard_interrupt_handler]\<rparr>)"
    using ok by (simp add: handlers_ok_def nth_list_update)
qed (simp_all add: handlers_ok_def)

interpretation lines_part: quiet_part irq_lines
proof
  fix s t :: "'a kernel_scheme"
  assume ok: "irq_lines s"
  show "irq_lines t" if "schedule s = Some t" using schedule_only [OF that] ok by (elim exE) (simp add: irq_lines_def)
  show "irq_lines t" if "kmalloc n s = Some (p, t)" for n p
    using kmalloc_same [OF that] ok unfolding same_but_heap_def by (elim exE) (simp add: irq_lines_def)
  show "irq_lines t" if "kfree p s = Some t" for p
    using kfree_same [OF that] ok unfolding same_but_heap_def by (elim exE) (simp add: irq_lines_def)
qed (simp_all add: irq_lines_def)

interpretation hooked_part: quiet_part keyboard_hooked
proof
  fix s t :: "'a kernel_scheme"
  assume ok: "keyboard_hooked s"
  show "keyboard_hooked t" if "schedule s = Some t" using schedule_only [OF that] ok by (elim exE) (simp add: keyboard_hooked_def)
  show "keyboard_hooked t" if "kmalloc n s = Some (p, t)" for n p
    using kmalloc_same [OF that] ok unfolding same_but_heap_def by (elim exE) (simp add: keyboard_hooked_def)
  show "keyboard_hooked t" if "kfree p s = Some t" for p
    using kfree_same [OF that] ok unfolding same_but_heap_def by (elim exE) (simp add: keyboard_hooked_def)
qed (simp_all add: keyboard_hooked_def)

interpretation demo_part: quiet_part demo_runnable
proof
  fix s t :: "'a kernel_scheme"
  assume ok: "demo_runnable s"
  show "demo_runnable t" if "schedule s = Some t" using schedule_two_tasks [OF ok that] by blast
  show "demo_runnable t" if "kmalloc n s = Some (p, t)" for n p
    using kmalloc_same [OF that] ok by (auto simp: demo_runnable_def task_inv_def same_but_heap_def)
  show "demo_runnable t" if "kfree p s = Some t" for p
    using kfree_same [OF that] ok by (auto simp: demo_runnable_def task_inv_def same_but_heap_def)
qed (simp_all add: demo_runnable_def task_inv_def)

interpretation interrupts_part: quiet_part interrupt_flag
proof
  fix s t :: "'a kernel_scheme"
  assume ok: "interrupt_flag s"
  show "interrupt_flag t" if "schedule s = Some t" using schedule_only [OF that] ok by auto
  show "interrupt_flag t" if "kmalloc n s = Some (p, t)" for n p
    using kmalloc_same [OF that] ok by (auto simp: same_but_heap_def)
  show "interrupt_flag t" if "kfree p s = Some t" for p
    using kfree_same [OF that] ok by (auto simp: same_but_heap_def)
qed simp_all

interpretation console_part: kernel_part console_inv
proof
  fix s t :: "'a kernel_scheme" and ctx
  assume ok: "console_inv s"
  show "console_inv (print_char c s)" for c by (rule print_char_inv [OF ok])
  show "console_inv (outb p v s)" for p v using ok by simp
  show "console_inv t" if "kmalloc n s = Some (p, t)" for n p
    using kmalloc_same [OF that] ok by (auto simp: console_inv_def same_but_heap_def)
  show "console_inv t" if "kfree p s = Some t" for p
    using kfree_same [OF that] ok by (auto simp: console_inv_def same_but_heap_def)
  show "console_inv (init_keyboard s)"
    unfolding init_keyboard_def Let_def register_interrupt_handler_def
    by (rule print_string_inv) (use ok in \<open>simp add: console_inv_def\<close>)
  show "console_inv (snd (keyboard_buffer_get s))" using keyboard_get_only [of s] ok by (auto simp: console_inv_def)
  show "console_inv t" if "timer_handler ctx s = Return t"
  proof -
    have "console_inv (s\<lparr>tick_count := k\<rparr>)" for k using ok by (simp add: console_inv_def)
    from this print_char_inv [OF this] show ?thesis
      using timer_handler_only [OF that] by (auto simp: console_inv_def)
  qed
  show "console_inv t" if "keyboard_interrupt_handler ctx s = Return t"
    using keyboard_interrupt_only [OF that] ok by (auto simp: console_inv_def)
qed (simp_all add: console_inv_def)

interpretation keyboard_part: kernel_part kb_ok
proof
  fix s t :: "'a kernel_scheme" and ctx
  assume ok: "kb_ok s"
  then obtain xs where rep: "kb_rep s xs" by (auto simp: kb_ok_def)
  show "kb_ok (print_char c s)" for c using ok by (simp add: kb_ok_def)
  show "kb_ok (outb p v s)" for p v using ok by (simp add: kb_ok_def)
  show "kb_ok t" if "kmalloc n s = Some (p, t)" for n p
    using kmalloc_same [OF that] ok by (auto simp: kb_ok_def kb_rep_def same_but_heap_def)
  show "kb_ok t" if "kfree p s = Some t" for p
    using kfree_same [OF that] ok by (auto simp: kb_ok_def kb_rep_def same_but_heap_def)
  show "kb_ok (init_keyboard s)"
    unfolding kb_ok_def by (rule exI, rule init_keyboard_rep) (use rep in \<open>simp add: kb_rep_def Let_def\<close>)
  show "kb_ok (snd (keyboard_buffer_get s))"
  proof (cases xs)
    case Nil
    then show ?thesis using rep kb_empty [OF rep] by (simp add: keyboard_buffer_get_def ok)
  next
    case (Cons x ys)
    then show ?thesis using kb_get_front [of s x ys] rep by (auto simp: kb_ok_def)
  qed
  show "kb_ok t" if "timer_handler ctx s = Return t"
    using timer_handler_only [OF that] ok by (auto simp: kb_ok_def kb_rep_def)
  show "kb_ok t" if "keyboard_interrupt_handler ctx s = Return t"
  proof -
    let ?r = "snd (read_keyboard_data s)" and ?c = "fst (read_keyboard_data s) AND 0x7F"
    have r: "kb_rep (?r\<lparr>kb_stats := v\<rparr>) xs" for v using rep by (simp add: read_data_eq kb_rep_def)
    have "\<exists>ys. kb_rep (handle_key_release ?c (?r\<lparr>kb_stats := v\<rparr>)) ys" for v
      using r [of v] kb_rep_cong [of "handle_key_release ?c (?r\<lparr>kb_stats := v\<rparr>)" "?r\<lparr>kb_stats := v\<rparr>"] by auto
    moreover have "\<exists>ys. kb_rep (handle_key_press ?c (?r\<lparr>kb_stats := v\<rparr>)) ys" for v
      using handle_key_press_rep [OF r [of v]] by blast
    ultimately show ?thesis
      using that by (auto simp: keyboard_interrupt_handler_def kb_ok_def Let_def split_beta)
  qed
qed (simp_all add: kb_ok_def kb_rep_def)

interpretation unhooked_part: interrupt_part keyboard_unhooked
proof
  fix s t :: "'a kernel_scheme" and ctx
  assume ok: "keyboard_unhooked s"
  show "keyboard_unhooked t" if "timer_handler ctx s = Return t"
    using timer_handler_only [OF that] ok by (auto simp: keyboard_unhooked_def)
  show "keyboard_unhooked t" if "keyboard_interrupt_handler ctx s = Return t"
    using keyboard_interrupt_only [OF that] ok by (auto simp: keyboard_unhooked_def)
qed (simp_all add: keyboard_unhooked_def)

section \<open>What the boot keeps\<close>

text \<open>
  The initialisation code from the scheduler on touches the tasks, the scheduler and the screen.
  An invariant that also allows these updates, once established, survives it.
\<close>

locale boot_part = interrupt_part I for I :: "'a kernel_scheme \<Rightarrow> bool" +
  assumes keep_tasks: "\<And>s v. I s \<Longrightarrow> I (s\<lparr>tasks := v\<rparr>)"
    and keep_current_task: "\<And>s v. I s \<Longrightarrow> I (s\<lparr>current_task := v\<rparr>)"
    and keep_task_list: "\<And>s v. I s \<Longrightarrow> I (s\<lparr>task_list := v\<rparr>)"
    and keep_next_pid: "\<And>s v. I s \<Longrightarrow> I (s\<lparr>next_pid := v\<rparr>)"
    and keep_task_count: "\<And>s v. I s \<Longrightarrow> I (s\<lparr>task_count := v\<rparr>)"
    and keep_sched: "\<And>s v. I s \<Longrightarrow> I (s\<lparr>sched := v\<rparr>)"
    and keep_queue_head: "\<And>s v. I s \<Longrightarrow> I (s\<lparr>task_queue_head := v\<rparr>)"
    and keep_queue_tail: "\<And>s v. I s \<Longrightarrow> I (s\<lparr>task_queue_tail := v\<rparr>)"
    and keep_interrupt_flag: "\<And>s v. I s \<Longrightarrow> I (s\<lparr>interrupt_flag := v\<rparr>)"
begin

lemmas keep_fields = keep_tasks keep_current_task keep_task_list keep_next_pid keep_task_count
  keep_sched keep_queue_head keep_queue_tail keep_interrupt_flag

lemma keep_set_task: "I s \<Longrightarrow> I (set_task i g s)"
  by (simp add: set_task_def keep_tasks)

lemma keep_init_task_manager:
  assumes "I s"
  shows "I (init_task_manager s)"
proof -
  have "I (fold (\<lambda>i. set_task i clear_task) is s)" if "I s" for "is" and s
    using that by (induction "is" arbitrary: s) (simp_all add: keep_set_task)
  from this [OF assms] show ?thesis
    unfolding init_task_manager_def Let_def by (intro keep_output keep_fields keep_set_task)
qed

lemma keep_append_task:
  assumes "I s" "append_task i s = Some t"
  shows "I t"
  using assms(2) keep_set_task [OF assms(1)] keep_task_list [OF assms(1)] assms(1)
  by (auto simp: append_task_def split: option.splits)

lemma keep_create_task:
  assumes "I s" "create_task nm e s = Some (r, t)"
  shows "I t"
proof (cases "task_count s \<ge> int MAX_TASKS \<or> free_slot s = None")
  case True
  then show ?thesis using assms unfolding create_task_def Let_def
    by (auto simp: keep_output split: if_splits option.splits)
next
  case False
  then obtain i where i: "\<not> task_count s \<ge> int MAX_TASKS" "free_slot s = Some i" by auto
  obtain g h k m v where v: "append_task i (set_task i g (set_task i h (set_task i k
      ((set_task i m s)\<lparr>next_pid := next_pid (set_task i m s) + 1\<rparr>)))) = Some v"
    and t: "t = print_string [0x0A] (print_string nm (print_string (cstr ''[TASK] Created task: '')
      (v\<lparr>task_count := task_count v + 1\<rparr>)))"
    using assms(2) i unfolding create_task_def Let_def by auto
  show ?thesis unfolding t
    by (intro keep_output keep_task_count keep_append_task [OF _ v] keep_set_task keep_next_pid assms(1))
qed

lemma keep_print_task_info_by_pid:
  assumes "I s" "print_task_info_by_pid p s = Some t"
  shows "I t"
  using assms(2) unfolding print_task_info_by_pid_def Let_def
  by (auto split: option.splits intro!: keep_output assms(1))

lemma keep_init_scheduler:
  assumes "I s" "init_scheduler addr s = Some t"
  shows "I t"
proof -
  have keep: "I u" if idle: "create_idle_task addr r = Some u" and r: "I r" for r u
  proof -
    obtain a v where v: "create_task (cstr ''idle'') addr r = Some (a, v)"
      "u = (case a of Some i \<Rightarrow> set_task i (\<lambda>t. t\<lparr>state := TASK_READY\<rparr>) (v\<lparr>sched := (sched v)\<lparr>idle_task := a\<rparr>\<rparr>)
        | None \<Rightarrow> v\<lparr>sched := (sched v)\<lparr>idle_task := a\<rparr>\<rparr>)"
      using idle by (cases "create_task (cstr ''idle'') addr r") (auto simp: create_idle_task_def Let_def)
    show ?thesis unfolding v(2) using keep_create_task [OF r v(1)]
      by (auto split: option.splits intro!: keep_set_task keep_sched)
  qed
  from assms(2) obtain r where r: "create_idle_task addr r = Some t" and
      "\<exists>v. r = s\<lparr>sched := v, task_queue_head := None, task_queue_tail := None\<rparr>"
    unfolding init_scheduler_def Let_def setup_scheduler_timer_def by (auto simp: map_option_case split: option.splits)
  then have "I r" using assms(1) by (auto intro: keep_fields)
  with r show ?thesis by (rule keep)
qed

lemma keep_late_boot:
  assumes "I s" "late_boot l s = Some t"
  shows "I t"
proof -
  obtain a b c d r where st: "init_scheduler (idle_address l) s = Some a"
      "create_task (cstr ''demo_task'') (demo_address l) (print_string msg_kernel_133
        (init_task_manager (print_string msg_kernel_129 (start_scheduler a)))) = Some (r, b)"
      "print_task_info_by_pid 0 (print_string msg_kernel_137 b) = Some c" "print_task_info_by_pid 1 c = Some d"
      "t = enable_interrupts (print_string msg_kernel_142 d)"
    using assms(2) unfolding late_boot_def Let_def by (auto simp: bind_eq_Some_conv)
  have "I (start_scheduler a)"
    using keep_init_scheduler [OF assms(1) st(1)] by (simp add: start_scheduler_def Let_def keep_sched)
  then have "I b" by (intro keep_create_task [OF _ st(2)] keep_output keep_init_task_manager)
  then have "I d"
    by (intro keep_print_task_info_by_pid [OF _ st(4)] keep_print_task_info_by_pid [OF _ st(3)] keep_output)
  then show ?thesis unfolding st(5) enable_interrupts_def by (intro keep_fields keep_output)
qed

end

interpretation heap_boot: boot_part heap_ok
  by unfold_locales (erule heap_ok_cong(2) [THEN iffD2, rotated 4]; simp)+

interpretation gate_boot: boot_part no_syscall_gate
  by unfold_locales (simp_all add: no_syscall_gate_def)

interpretation pages_boot: boot_part pages_ok
  by unfold_locales (simp_all add: pages_ok_def)

interpretation handlers_boot: boot_part handlers_ok
  by unfold_locales (simp_all add: handlers_ok_def)

interpretation console_boot: boot_part console_inv
  by unfold_locales (simp_all add: console_inv_def)

interpretation keyboard_boot: boot_part kb_ok
  by unfold_locales (simp_all add: kb_ok_def kb_rep_def)

interpretation lines_boot: boot_part irq_lines
  by unfold_locales (simp_all add: irq_lines_def)

interpretation unhooked_boot: boot_part keyboard_unhooked
  by unfold_locales (simp_all add: keyboard_unhooked_def)

section \<open>The boot\<close>

text \<open>The static data of the program when \<open>kernel_main\<close> is entered.\<close>

definition zeroed_image :: "'a kernel_scheme \<Rightarrow> bool" where
  "zeroed_image s \<longleftrightarrow> length (vga_buffer s) = 2000 \<and> stray_stores s = [] \<and> length (pages (manager s)) = 3840
     \<and> tasks s = replicate 64 zero_task \<and> next_pid s = 1 \<and> task_count s = 0
     \<and> length (interrupt_handlers s) = 256 \<and> length (idt s) = 256 \<and> kb_rep s []"

lemma fold_gates_only: "\<exists>d. fold (\<lambda>v. set_idt_entry v (stub v) sel fl) vs s = s\<lparr>idt := d\<rparr>"
proof (induction vs arbitrary: s)
  case Nil
  have "s = s\<lparr>idt := idt s\<rparr>" by simp
  then show ?case unfolding fold_simps(1) by blast
next
  case (Cons v vs)
  obtain x where x: "set_idt_entry v (stub v) sel fl s = s\<lparr>idt := x\<rparr>" unfolding set_idt_entry_def by blast
  from Cons [of "s\<lparr>idt := x\<rparr>"] show ?case by (simp add: x)
qed

lemma init_idt_only: "\<exists>d p. init_idt stub a s = s\<lparr>idt := d, idtp := p\<rparr>"
proof -
  let ?p = "\<lparr>limit = of_nat (8 * IDT_SIZE) - 1, base = a\<rparr>"
  obtain d where "init_idt stub a s = s\<lparr>idtp := ?p, idt := d\<rparr>"
    using fold_gates_only [of stub 8 INTERRUPT_GATE gate_vectors
        "s\<lparr>idtp := ?p, idt := fill_loop clear_idt_entry IDT_SIZE (idt s)\<rparr>"]
    unfolding init_idt_def Let_def by auto
  moreover have "s\<lparr>idtp := ?p, idt := d\<rparr> = s\<lparr>idt := d, idtp := ?p\<rparr>" by simp
  ultimately show ?thesis by metis
qed

lemma init_interrupts_fields:
  "manager (init_interrupts stub a w s) = manager s" "tasks (init_interrupts stub a w s) = tasks s"
  "next_pid (init_interrupts stub a w s) = next_pid s" "task_count (init_interrupts stub a w s) = task_count s"
  "interrupt_handlers (init_interrupts stub a w s) =
     (fill_loop (\<lambda>i. None) IDT_SIZE (interrupt_handlers s))[0 := Some Divide_error_handler, 14 := Some Page_fault_handler,
       13 := Some General_protection_fault_handler, 32 := Some Timer_handler, 33 := Some Keyboard_handler]"
  using init_idt_only [of stub a "(print_string msg_interrupt_19 s)\<lparr>interrupt_handlers :=
      fill_loop (\<lambda>i. None) IDT_SIZE (interrupt_handlers (print_string msg_interrupt_19 s))\<rparr>"]
  by (auto simp: init_interrupts_def Let_def init_pic_def outb_def register_interrupt_handler_def load_idt_def
      EXCEPTION_DIVIDE_ERROR_def EXCEPTION_PAGE_FAULT_def EXCEPTION_GENERAL_PROTECTION_def IRQ_TIMER_def IRQ_KEYBOARD_def)

lemma init_interrupts_kb: "kb_buffer (init_interrupts stub a w s) = kb_buffer s" "port_input (init_interrupts stub a w s) = port_input s"
  using init_idt_only [of stub a "(print_string msg_interrupt_19 s)\<lparr>interrupt_handlers :=
      fill_loop (\<lambda>i. None) IDT_SIZE (interrupt_handlers (print_string msg_interrupt_19 s))\<rparr>"]
  by (auto simp: init_interrupts_def Let_def init_pic_def outb_def register_interrupt_handler_def load_idt_def)

lemma init_interrupts_console:
  assumes "console_inv s"
  shows "console_inv (init_interrupts stub a w s)"
proof -
  have "console_inv (print_string msg_interrupt_19 s)" by (rule print_string_inv [OF assms])
  then show ?thesis
    using init_idt_only [of stub a "(print_string msg_interrupt_19 s)\<lparr>interrupt_handlers :=
      fill_loop (\<lambda>i. None) IDT_SIZE (interrupt_handlers (print_string msg_interrupt_19 s))\<rparr>"]
    unfolding init_interrupts_def Let_def
    by (intro print_string_inv) (auto simp: console_inv_def init_pic_def outb_def register_interrupt_handler_def load_idt_def Let_def)
qed

lemma init_syscalls_only:
  "\<exists>a b. init_syscalls s = s\<lparr>interrupt_handlers := (interrupt_handlers s)[128 := Some Syscall_entry],
     syscall_table := a, sys_stats := b\<rparr>"
proof -
  have reg: "\<exists>a. register_syscall n h t = s\<lparr>syscall_table := a\<rparr>" if "\<exists>a. t = s\<lparr>syscall_table := a\<rparr>" for n h t
    using that by (auto simp: register_syscall_def)
  have swap: "s\<lparr>syscall_table := a, sys_stats := b, interrupt_handlers := h\<rparr>
      = s\<lparr>interrupt_handlers := h, syscall_table := a, sys_stats := b\<rparr>" for a b h
    by simp
  have "\<exists>t b. init_syscalls s = setup_syscall_gate (t\<lparr>sys_stats := b\<rparr>) \<and> (\<exists>a. t = s\<lparr>syscall_table := a\<rparr>)"
    unfolding init_syscalls_def Let_def by (rule exI, rule exI, rule conjI, rule refl, intro reg, rule exI, rule refl)
  then obtain t b where init: "init_syscalls s = setup_syscall_gate (t\<lparr>sys_stats := b\<rparr>)"
    and "\<exists>a. t = s\<lparr>syscall_table := a\<rparr>" by blast
  then obtain a where "t = s\<lparr>syscall_table := a\<rparr>" by blast
  then have "init_syscalls s = s\<lparr>syscall_table := a, sys_stats := b,
      interrupt_handlers := (interrupt_handlers s)[128 := Some Syscall_entry]\<rparr>"
    unfolding init by (simp add: setup_syscall_gate_def register_interrupt_handler_def)
  then show ?thesis unfolding swap by blast
qed

lemma init_memory_console: "console_inv s \<Longrightarrow> console_inv (init_memory_manager s)"
  unfolding init_memory_manager_def Let_def
  by (intro print_string_inv print_hex_inv) (simp add: console_inv_def)

lemma early_boot_ok:
  assumes "zeroed_image s" and t_def: "t = early_boot l s"
  shows "console_inv t" "heap_ok t" "pages_ok t" "handlers_ok t" "kb_ok t"
    "tasks t = replicate 64 zero_task" "next_pid t = 1" "task_count t = 0" "keyboard_unhooked t" "irq_lines t"
proof -
  define u where "u = init_interrupts (stub_address l) (idt_address l) (load_idt_word l)
    (print_string msg_kernel_113 (print_string msg_kernel_110 (print_string msg_kernel_109 (clear_screen s))))"
  have u: "console_inv u" "pages (manager u) = pages (manager s)" "tasks u = tasks s" "next_pid u = next_pid s"
    "task_count u = task_count s" "kb_buffer u = kb_buffer s"
    using assms(1) unfolding u_def
    by (auto simp: zeroed_image_def init_interrupts_fields init_interrupts_kb
        intro!: init_interrupts_console print_string_inv clear_screen_inv)
  have h: "length (interrupt_handlers u) = 256" "i < 40 \<Longrightarrow> 32 \<le> i \<Longrightarrow> interrupt_handlers u ! i =
      (if i = 32 then Some Timer_handler else if i = 33 then Some Keyboard_handler else None)" for i
    using assms(1) unfolding u_def
    by (auto simp: zeroed_image_def init_interrupts_fields nth_list_update nth_fill_loop IDT_SIZE_def)
  have free: "i < 256 \<Longrightarrow> interrupt_handlers u ! i \<noteq> Some Keyboard_interrupt_handler" for i
    using assms(1) unfolding u_def
    by (auto simp: zeroed_image_def init_interrupts_fields nth_list_update nth_fill_loop IDT_SIZE_def)
  define v where "v = init_memory_manager u"
  have v: "console_inv v" "heap_ok v" "pages_ok v" "tasks v = tasks s" "next_pid v = next_pid s"
    "task_count v = task_count s" "kb_buffer v = kb_buffer s" "interrupt_handlers v = interrupt_handlers u"
    using init_memory_console [OF u(1)] heap_okI(1) [OF init_heap_inv [of u]] init_pages_ok [of u] assms(1) u(2-)
    unfolding v_def by (auto simp: zeroed_image_def) (auto simp: init_memory_manager_def Let_def)
  obtain a b where t: "t = v\<lparr>interrupt_handlers := (interrupt_handlers v)[128 := Some Syscall_entry],
      syscall_table := a, sys_stats := b\<rparr>"
    using init_syscalls_only [of v] unfolding t_def early_boot_def v_def u_def Let_def by blast
  show "console_inv t" "pages_ok t" using v(1,3) by (simp_all add: t console_inv_def pages_ok_def)
  show "heap_ok t" by (rule heap_ok_cong(2) [THEN iffD2, OF _ _ _ _ v(2)]) (simp_all add: t)
  show "irq_lines t" using h v(8) by (auto simp: t irq_lines_def nth_list_update)
  show "handlers_ok t" using h v(8) by (auto simp: t handlers_ok_def nth_list_update)
  have "kb_buffer t = kb_buffer s" by (simp add: t v(7))
  from kb_rep_cong [OF this] show "kb_ok t" using assms(1) by (auto simp: kb_ok_def zeroed_image_def)
  show "tasks t = replicate 64 zero_task" "next_pid t = 1" "task_count t = 0"
    using assms(1) v(4-6) by (simp_all add: t zeroed_image_def)
  show "keyboard_unhooked t" using h(1) free v(8) by (auto simp: t keyboard_unhooked_def nth_list_update)
qed

lemma early_boot_gate:
  assumes "length (idt s) = 256"
  shows "no_syscall_gate (early_boot l s)"
proof -
  have "0x80 \<notin> unat ` set gate_vectors" by (simp add: gate_vectors_def)
  then have "idt (init_idt stub a u) ! 0x80 = clear_idt_entry 0x80" if "length (idt u) = 256" for stub a and u :: "'a kernel_scheme"
    using that by (simp add: init_idt_def Let_def fold_gates nth_fill_loop IDT_SIZE_def)
  then have "no_syscall_gate (init_interrupts stub a w u)" if "length (idt u) = 256" for stub a w and u :: "'a kernel_scheme"
    using that by (simp add: init_interrupts_def Let_def init_pic_def register_interrupt_handler_def load_idt_def no_syscall_gate_def)
  moreover have "no_syscall_gate (init_memory_manager u) = no_syscall_gate u" for u :: "'a kernel_scheme"
    by (simp add: no_syscall_gate_def init_memory_manager_def Let_def)
  moreover have "no_syscall_gate (init_syscalls u) = no_syscall_gate u" for u :: "'a kernel_scheme"
    using init_syscalls_only [of u] by (auto simp: no_syscall_gate_def)
  ultimately show ?thesis using assms by (simp add: early_boot_def)
qed

lemma print_task_info_by_pid_inv:
  assumes "task_inv s n c"
  shows "\<exists>t. print_task_info_by_pid p s = Some t \<and> task_inv t n c \<and> tasks t = tasks s"
proof -
  have "\<exists>t. print_task_info_by_pid p s = Some t \<and> tasks t = tasks s \<and> current_task t = current_task s
      \<and> task_list t = task_list s \<and> next_pid t = next_pid s \<and> task_count t = task_count s"
    using find_task_eq [OF assms, of p]
    by (auto simp: print_task_info_by_pid_def Let_def split: option.splits)
  then show ?thesis using assms task_inv_cong by blast
qed

lemma init_task_running: "length (tasks s) = 64 \<Longrightarrow> state_of (init_task_manager s) 0 = TASK_RUNNING"
  by (simp add: init_task_manager_def Let_def fold_set_task MAX_TASKS_def)

lemma kernel_boot_ok:
  assumes "zeroed_image s"
  shows "\<exists>t. kernel_boot l s = Some t \<and> task_inv t 2 0 \<and> interrupt_flag t
    \<and> console_inv t \<and> heap_ok t \<and> pages_ok t \<and> handlers_ok t \<and> kb_ok t \<and> no_syscall_gate t
    \<and> keyboard_unhooked t \<and> irq_lines t \<and> demo_runnable t"
proof -
  let ?e = "early_boot l s"
  note e = early_boot_ok [OF assms refl, of l]
  have "\<forall>i < 64. pid (tasks ?e ! i) = 0" by (simp add: e zero_task_def)
  from init_scheduler_zeroed [OF this e(8), of "idle_address l"] obtain a where
    a: "init_scheduler (idle_address l) ?e = Some a" "tasks a = tasks ?e" "next_pid a = next_pid ?e"
    by (fastforce simp del: ex_simps)
  define b where "b = print_string msg_kernel_133 (init_task_manager (print_string msg_kernel_129 (start_scheduler a)))"
  have "static_tasks (print_string msg_kernel_129 (start_scheduler a))"
    using a e by (simp add: static_tasks_def start_scheduler_def Let_def zero_task_def)
  then have "task_inv b 1 0" using init_task_inv unfolding b_def by (simp add: task_inv_def)
  from create_task_inv [OF this, of "cstr ''demo_task''" "demo_address l"] obtain c where
    c: "create_task (cstr ''demo_task'') (demo_address l) b = Some (Some 1, c)" "task_inv c 2 0"
    by (auto simp: numeral_2_eq_2)
  have "state_of b 0 = TASK_RUNNING"
    unfolding b_def by (simp add: init_task_running start_scheduler_def Let_def a(2) e(6))
  then have c_states: "state_of c i = TASK_READY \<or> state_of c i = TASK_RUNNING" if "i < 2" for i
    using create_task_eq [OF \<open>task_inv b 1 0\<close>, of "cstr ''demo_task''" "demo_address l"] c(1) that
      task_invD(1) [OF \<open>task_inv b 1 0\<close>] by (auto simp: less_2_cases_iff new_task_def)
  from c have "task_inv (print_string msg_kernel_137 c) 2 0" by (simp add: task_inv_def)
  then obtain d f where d: "print_task_info_by_pid 0 (print_string msg_kernel_137 c) = Some d"
    "print_task_info_by_pid 1 d = Some f" "task_inv f 2 0" "tasks f = tasks c"
    using print_task_info_by_pid_inv tasks_frame.f_print_string by metis
  let ?t = "enable_interrupts (print_string msg_kernel_142 f)"
  have boot: "late_boot l ?e = Some ?t"
    using a(1) c(1) d unfolding b_def late_boot_def Let_def by simp
  moreover have t: "task_inv ?t 2 0" "interrupt_flag ?t" using d(3) by (simp_all add: task_inv_def enable_interrupts_def)
  moreover have "demo_runnable ?t"
    using t(1) c_states d(4) by (auto simp: demo_runnable_def enable_interrupts_def)
  ultimately show ?thesis
    using console_boot.keep_late_boot [OF e(1) boot] heap_boot.keep_late_boot [OF e(2) boot]
      pages_boot.keep_late_boot [OF e(3) boot] handlers_boot.keep_late_boot [OF e(4) boot]
      keyboard_boot.keep_late_boot [OF e(5) boot] gate_boot.keep_late_boot [OF early_boot_gate boot]
      unhooked_boot.keep_late_boot [OF e(9) boot] lines_boot.keep_late_boot [OF e(10) boot] assms
    unfolding kernel_boot_def zeroed_image_def by blast
qed

section \<open>Progress\<close>

lemma heap_ok_print: "heap_ok (print_string str s) = heap_ok s"
  by (rule heap_ok_cong(2)) simp_all

lemma heap_test_progress:
  assumes "heap_ok s"
  shows "heap_test s \<noteq> None"
proof -
  define u where "u = print_string msg_kernel_151 (print_string msg_kernel_148 (print_string msg_kernel_147
    (print_string (cstr ''hi'' @ [0x0A]) (print_string msg_kernel_145 s))))"
  have "heap_ok u" unfolding u_def using assms by (simp only: heap_ok_print)
  then obtain p a where a: "kmalloc 1024 u = Some (p, a)" "heap_ok a" using kernel_heap.alloc_ok by blast
  then obtain q b where b: "kmalloc 2048 a = Some (q, b)" "heap_ok b" using kernel_heap.alloc_ok by blast
  then obtain r c where "kmalloc 512 b = Some (r, c)" using kernel_heap.alloc_ok by blast
  then show ?thesis using a b unfolding heap_test_def Let_def u_def by simp
qed

lemma main_step_progress:
  assumes "heap_ok s"
  shows "\<exists>q t. main_step p s = Some (q, t)"
proof -
  have key: "\<exists>t. echo_key label s = Some t" if "keyboard_has_input s" for label
    using that by (auto simp: echo_key_def keyboard_getchar_def keyboard_has_input_def Let_def split_beta)
  show ?thesis
  proof (cases p)
    case Heap_test
    then show ?thesis using heap_test_progress [OF assms] by auto
  next
    case (Heap_release a)
    then show ?thesis using kfree_ok [OF assms, of a] by (auto simp: heap_release_def Let_def)
  qed (use key in \<open>auto simp: keyboard_test_def main_loop_def\<close>)
qed

lemma irq_progress:
  assumes "tasks_ok s" "handlers_ok s" "32 \<le> unat (int_no ctx)" "unat (int_no ctx) < 40"
  shows "\<exists>t. irq_handler run_handler ctx s = Return t"
proof -
  define u where "u = send_eoi (ucast (int_no ctx - 32)) (s\<lparr>interrupt_count := interrupt_count s + 1\<rparr>)"
  have u: "interrupt_handlers u = interrupt_handlers s" unfolding u_def by (simp add: send_eoi_def Let_def)
  have "tasks_ok u" unfolding u_def send_eoi_def Let_def
    by (simp add: tasks_part.f_outb tasks_part.I_interrupt_count assms(1))
  then obtain n c where "task_inv u n c" by (auto simp: tasks_ok_def)
  from timer_handler_inv [OF this] have timer: "\<exists>t. timer_handler ctx u = Return t" by blast
  have "interrupt_handlers u ! unat (int_no ctx)
      \<in> {None, Some Timer_handler, Some Keyboard_handler, Some Keyboard_interrupt_handler}"
    using assms(2-4) unfolding u handlers_ok_def by blast
  then show ?thesis
    using timer assms(4) unfolding irq_handler_def Let_def u_def [symmetric]
    by (auto simp: keyboard_handler_def keyboard_interrupt_handler_def Let_def split_beta IDT_SIZE_def)
qed

text \<open>The interrupt of a pressed key, down to the driver.\<close>

lemma key_irq:
  fixes s :: "'a kernel_scheme"
  assumes "interrupt_handlers s ! 33 = Some Keyboard_interrupt_handler" "int_no ctx = 33"
    and "port_input s (port_reads s) 0x60 = sc" "sc < 128"
  obtains p where "irq_handler run_handler ctx s = Return (outb 0x20 0x20 (handle_key_press sc p))"
    "kb_buffer p = kb_buffer s" "kb_state p = kb_state s" "port_output p = port_output s @ [(0x20, 0x20)]"
    "vga_buffer p = vga_buffer s" "cursor_x p = cursor_x s" "cursor_y p = cursor_y s"
proof -
  define r where "r = s\<lparr>interrupt_count := interrupt_count s + 1, port_output := port_output s @ [(0x20, 0x20)]\<rparr>"
  let ?p = "r\<lparr>port_reads := port_reads r + 1\<rparr>\<lparr>kb_stats := (kb_stats r)\<lparr>total_keypresses := total_keypresses (kb_stats r) + 1\<rparr>\<rparr>"
  have "irq_handler run_handler ctx s = keyboard_interrupt_handler ctx r"
    using assms(1,2) by (simp add: irq_handler_def send_eoi_def outb_def r_def Let_def IDT_SIZE_def word_le_nat_alt)
  also have "\<dots> = Return (outb 0x20 0x20 (handle_key_press sc ?p))"
    using keyboard_interrupt_eq [of sc r sc ctx] assms(3) press_code [OF assms(4)] by (simp add: r_def)
  finally show thesis by (rule that) (simp_all add: r_def)
qed

section \<open>An image for the witnesses\<close>

lemma power_on_zeroed: "zeroed_image power_on_kernel"
  by (simp add: zeroed_image_def power_on_defs kb_rep_def)

definition zero_link :: link where
  "zero_link = \<lparr>stub_address = (\<lambda>v. 0), idt_address = 0, load_idt_word = 0, idle_address = 0, demo_address = 0\<rparr>"

end
