(* ===== verification/History.thy ===== *)
theory History
  imports System
begin

text \<open>
  Histories of the running kernel: sequences of steps of the main program and hardware interrupts after the
  boot, the invariant that holds throughout them, and how far the main program has come.
\<close>

section \<open>Histories of the running system\<close>

text \<open>
  What can happen after the boot, as a list: a step of the main program (which does nothing while
  the processor is halted) or an interrupt whose dispatcher sees the given context. \<open>None\<close> means that a step does not return.
\<close>

datatype event = Main | Irq interrupt_context

fun run_events :: "event list \<Rightarrow> position \<times> 'a kernel_scheme \<Rightarrow> (position \<times> 'a kernel_scheme) option" where
  "run_events [] x = Some x"
| "run_events (Main # es) (p, s) = Option.bind (main_step p s) (run_events es)"
| "run_events (Irq ctx # es) (p, s) =
     (case irq_handler run_handler ctx s of Return t \<Rightarrow> run_events es (wake p, t) | _ \<Rightarrow> None)"

text \<open>
  \<open>idle_task_function\<close> is an endless loop around \<open>hlt\<close>: each turn ends when an interrupt has been served,
  and with interrupts disabled the processor never goes on. The contexts are those of the interrupts that
  wake it up, one per turn.
\<close>

fun idle_task_function :: "interrupt_context list \<Rightarrow> 'a kernel_scheme \<Rightarrow> 'a kernel_scheme option" where
  "idle_task_function [] s = Some s"
| "idle_task_function (ctx # ctxs) s =
     (if interrupt_flag s
      then case irq_handler run_handler ctx s of Return t \<Rightarrow> idle_task_function ctxs t | _ \<Rightarrow> None
      else None)"

definition hardware_vector :: "event \<Rightarrow> bool" where
  "hardware_vector e \<longleftrightarrow>
     (case e of Main \<Rightarrow> True | Irq ctx \<Rightarrow> 32 \<le> unat (int_no ctx) \<and> unat (int_no ctx) < 40)"

text \<open>How many steps of the main program are left until its endless loop.\<close>

fun rank :: "position \<Rightarrow> nat" where
  "rank Heap_test = 10"
| "rank (Heap_release p) = 9"
| "rank Keyboard_setup = 8"
| "rank (Keyboard_test i) = 2 + (5 - i)"
| "rank Statistics = 1"
| "rank Main_loop = 0"
| "rank Main_hlt = 0"
| "rank Main_waiting = 0"

definition in_loop :: "position \<Rightarrow> bool" where
  "in_loop p \<longleftrightarrow> p = Main_loop \<or> p = Main_hlt \<or> p = Main_waiting"

definition system_ok :: "'a kernel_scheme \<Rightarrow> bool" where
  "system_ok s \<longleftrightarrow> console_inv s \<and> heap_ok s \<and> pages_ok s \<and> tasks_ok s \<and> kb_ok s \<and> handlers_ok s
     \<and> interrupt_flag s"

lemma rank_step: "main_step p s = Some (q, t) \<Longrightarrow> rank q = rank p - 1"
  by (cases "(p, s)" rule: main_step.cases) (auto split: if_splits)

lemma rank_0: "rank p = 0 \<longleftrightarrow> in_loop p"
  by (cases p) (auto simp: in_loop_def)

lemma wake_simps [simp]: "rank (wake p) = rank p" "in_loop (wake p) = in_loop p"
  by (cases p; simp add: in_loop_def)+

inductive_cases system_stepE: "system_step (p, s) (q, t)"

text \<open>No step goes back, so the main loop is never left.\<close>

lemma rank_system_step: "system_step (p, s) (q, t) \<Longrightarrow> rank q \<le> rank p"
  by (elim system_stepE) (auto dest: rank_step)

lemma main_loop_stays: "system_step\<^sup>*\<^sup>* x y \<Longrightarrow> in_loop (fst x) \<Longrightarrow> in_loop (fst y)"
proof (induction rule: rtranclp_induct)
  case (step y z)
  have "rank (fst z) \<le> rank (fst y)" using rank_system_step [of "fst y" "snd y" "fst z" "snd z"] step(2) by simp
  then show ?case using step rank_0 [of "fst y"] rank_0 [of "fst z"] by simp
qed simp

lemma system_ok_step:
  assumes "system_step x y" "system_ok (snd x)"
  shows "system_ok (snd y)"
  using assms console_part.keep_system_step [OF assms(1)] heap_part.keep_system_step [OF assms(1)]
    pages_part.keep_system_step [OF assms(1)] tasks_part.keep_system_step [OF assms(1)]
    keyboard_part.keep_system_step [OF assms(1)] handlers_part.keep_system_step [OF assms(1)]
    interrupts_part.keep_system_step [OF assms(1)]
  unfolding system_ok_def by blast

lemma boot_system_ok:
  assumes "zeroed_image s"
  shows "\<exists>t. kernel_boot l s = Some t \<and> system_ok t"
  using kernel_boot_ok [OF assms, of l] unfolding system_ok_def tasks_ok_def by blast

lemma reachable_system_ok:
  assumes "zeroed_image s" "reachable l s x"
  shows "system_ok (snd x)"
  using assms(2)
proof (induction rule: reachable.induct)
  case (boot t)
  then show ?case using boot_system_ok [OF assms(1), of l] by simp
qed (rule system_ok_step)

text \<open>The demonstration task prints its lines and ends, leaving the task table well-formed.\<close>

lemma demo_task_ends:
  fixes s :: "'a kernel_scheme"
  assumes "tasks_ok s"
  shows "\<exists>t. demo_task s = Some t \<and> tasks_ok t"
proof -
  let ?print = "\<lambda>i::nat. print_string (cstr ''[DEMO] Task running...'' @ [0x0A])"
  have "tasks_ok (fold ?print xs s)" for xs
    using assms by (induction xs arbitrary: s) (simp_all add: tasks_part.keep_print_string)
  then show ?thesis using task_exit_inv unfolding demo_task_def tasks_ok_def by metis
qed

lemma event_step:
  assumes "system_ok s" "hardware_vector e"
  shows "\<exists>q t. run_events (e # es) (p, s) = run_events es (q, t) \<and> system_step (p, s) (q, t)
    \<and> rank q = rank p - (if e = Main then 1 else 0)"
proof (cases e)
  case Main
  obtain q t where "main_step p s = Some (q, t)"
    using main_step_progress [of s p] assms(1) by (auto simp: system_ok_def)
  then show ?thesis using Main rank_step system_step.main by (intro exI [of _ q] exI [of _ t]) auto
next
  case (Irq ctx)
  have "tasks_ok s" "handlers_ok s" "interrupt_flag s" using assms(1) by (simp_all add: system_ok_def)
  moreover have "32 \<le> unat (int_no ctx)" "unat (int_no ctx) < 40"
    using assms(2) Irq by (simp_all add: hardware_vector_def)
  ultimately obtain t where "irq_handler run_handler ctx s = Return t" using irq_progress by blast
  then show ?thesis using Irq \<open>interrupt_flag s\<close> by (intro exI [of _ "wake p"] exI [of _ t]) (auto intro: system_step.irq)
qed

lemma run_events_ok:
  assumes "zeroed_image s" "reachable l s (p, t)" "\<forall>e \<in> set es. hardware_vector e"
  shows "\<exists>q u. run_events es (p, t) = Some (q, u) \<and> reachable l s (q, u)
    \<and> rank q = rank p - length (filter (\<lambda>e. e = Main) es)"
  using assms(2,3)
proof (induction es arbitrary: p t)
  case (Cons e es)
  have "system_ok t" using reachable_system_ok [OF assms(1) Cons.prems(1)] by simp
  from event_step [OF this, of e es p] Cons.prems(2) obtain q u where
    u: "run_events (e # es) (p, t) = run_events es (q, u)" "system_step (p, t) (q, u)"
      "rank q = rank p - (if e = Main then 1 else 0)" by auto
  from Cons.IH [OF reachable.step [OF Cons.prems(1) u(2)]] Cons.prems(2) show ?case using u by auto
qed simp

text \<open>A hardware interrupt: counted, acknowledged at the first controller, then its handler.\<close>

definition acknowledged :: "'a kernel_scheme \<Rightarrow> 'a kernel_scheme" where
  "acknowledged s = s\<lparr>interrupt_count := interrupt_count s + 1, port_output := port_output s @ [(0x20, 0x20)]\<rparr>"

lemma irq_acknowledged:
  assumes "32 \<le> unat (int_no ctx)" "unat (int_no ctx) < 40"
  shows "irq_handler run_handler ctx s =
    (case interrupt_handlers s ! unat (int_no ctx) of Some h \<Rightarrow> run_handler h ctx (acknowledged s) | None \<Rightarrow> Return (acknowledged s))"
proof -
  have "unat (int_no ctx - 32) < 8" using assms by (simp add: unat_sub word_le_nat_alt)
  then have "\<not> (8 :: u8) \<le> ucast (int_no ctx - 32)"
    by (simp add: word_le_nat_alt unsigned_ucast_eq take_bit_eq_mod)
  then show ?thesis using assms(2)
    by (simp add: irq_handler_def send_eoi_def outb_def acknowledged_def Let_def IDT_SIZE_def split: option.split)
qed

text \<open>
  The idle loop is never stuck, keeps the invariant, and does no work of its own: it is the main program waiting
  while the same interrupts are served.
\<close>

theorem idle_task_waits:
  assumes "system_ok s" "\<forall>ctx \<in> set ctxs. 32 \<le> unat (int_no ctx) \<and> unat (int_no ctx) < 40"
  shows "\<exists>t. idle_task_function ctxs s = Some t \<and> system_ok t \<and> run_events (map Irq ctxs) (Main_loop, s) = Some (Main_loop, t)"
  using assms
proof (induction ctxs arbitrary: s)
  case (Cons ctx ctxs)
  have "interrupt_flag s" using Cons.prems(1) by (simp add: system_ok_def)
  moreover obtain u where u: "irq_handler run_handler ctx s = Return u"
    using irq_progress [of s ctx] Cons.prems by (auto simp: system_ok_def)
  ultimately have "system_ok u" using system_ok_step [of "(Main_loop, s)" "(wake Main_loop, u)"] Cons.prems(1) by (auto intro: system_step.irq simp del: wake.simps)
  then show ?case using Cons.IH [of u] Cons.prems(2) u \<open>interrupt_flag s\<close> by auto
qed simp

end
