(* ===== verification/Terminal.thy ===== *)
theory Terminal
  imports History
begin

text \<open>
  What the kernel is for, as one machine: a terminal that echoes what is typed. The abstract terminal has
  the modifier keys, a queue of typed characters, the number of timer ticks, the current task, the
  text it has printed and whether it is asleep, which it is from one echoed character to the next interrupt; the kernel in its main loop, with all its interrupt handlers, is shown to implement it.
\<close>

section \<open>The abstract terminal\<close>

datatype activity = Awake | Stopping | Asleep

record terminal =
  modifiers :: keyboard_state
  waiting :: "u8 list"
  interrupts_seen :: u32
  ticks :: u32
  running :: nat
  bytes_read :: nat
  printed :: "u8 list"
  activity :: activity

definition key_char :: "keyboard_state \<Rightarrow> u8 \<Rightarrow> u8" where
  "key_char m code =
     (let c = scancode_to_ascii_table ! unat code
      in if shift_pressed m then shifted_chars ! unat code
         else if caps_lock m \<and> is_lower c then c - 0x20 else c)"

definition key_typed :: "u8 \<Rightarrow> terminal \<Rightarrow> terminal" where
  "key_typed byte T =
     (let code = byte AND 0x7F; T = T\<lparr>bytes_read := bytes_read T + 1\<rparr>
      in if 128 \<le> byte then T\<lparr>modifiers := set_modifier False code (modifiers T)\<rparr>
         else if is_special_key code then T\<lparr>modifiers := set_modifier True code (modifiers T)\<rparr>
         else if key_char (modifiers T) code = 0 then T
         else T\<lparr>waiting := take 256 (waiting T @ [key_char (modifiers T) code])\<rparr>)"

text \<open>A dot every hundred ticks, the scheduler every ten.\<close>

definition timer_tick :: "terminal \<Rightarrow> terminal" where
  "timer_tick T =
     (let n = ticks T + 1
      in T\<lparr>ticks := n, printed := printed T @ (if n mod 100 = 0 then [0x2E] else []),
           running := (if n mod 10 = 0 then 1 else running T)\<rparr>)"

definition echo_line :: "u8 \<Rightarrow> u8 list" where
  "echo_line c = cstr ''Input: '' @ [c, 0x0A]"

definition echo_next :: "terminal \<Rightarrow> terminal" where
  "echo_next T =
     (case waiting T of [] \<Rightarrow> T
      | c # cs \<Rightarrow> T\<lparr>waiting := cs, printed := printed T @ echo_line c\<rparr>)"

text \<open>
  Awake, it echoes one character, if there is one, and is about to go to sleep; asleep, it is
  woken up by any interrupt. An interrupt just before it falls asleep does not keep it awake.
\<close>

fun awakened :: "activity \<Rightarrow> activity" where
  "awakened Asleep = Awake"
| "awakened a = a"

definition own_step :: "terminal \<Rightarrow> terminal" where
  "own_step T = (case activity T of
       Awake \<Rightarrow> (echo_next T)\<lparr>activity := Stopping\<rparr>
     | Stopping \<Rightarrow> T\<lparr>activity := Asleep\<rparr>
     | Asleep \<Rightarrow> T)"

fun terminal_step :: "(nat \<Rightarrow> u16 \<Rightarrow> u8) \<Rightarrow> event \<Rightarrow> terminal \<Rightarrow> terminal" where
  "terminal_step device Main T = own_step T"
| "terminal_step device (Irq ctx) T =
     (let T = T\<lparr>activity := awakened (activity T), interrupts_seen := interrupts_seen T + 1\<rparr>
      in if int_no ctx = 32 then timer_tick T
         else if int_no ctx = 33 then key_typed (device (bytes_read T) 0x60) T
         else T)"

definition run_terminal :: "(nat \<Rightarrow> u16 \<Rightarrow> u8) \<Rightarrow> event list \<Rightarrow> terminal \<Rightarrow> terminal" where
  "run_terminal device = fold (terminal_step device)"

section \<open>The kernel as a terminal\<close>

text \<open>The characters in the ring buffer, as a function of the state.\<close>

definition kb_contents :: "'a keyboard_scheme \<Rightarrow> u8 list" where
  "kb_contents s = (let b = kb_buffer s in map (\<lambda>i. buffer b ! ((unat (tail b) + i) mod 256)) [0..<unat (count b)])"

lemma kb_contents_rep: "kb_rep s xs \<Longrightarrow> kb_contents s = xs"
  by (intro nth_equalityI) (auto simp: kb_rep_def kb_contents_def Let_def)

fun activity_of :: "position \<Rightarrow> activity" where
  "activity_of Main_waiting = Asleep"
| "activity_of Main_hlt = Stopping"
| "activity_of _ = Awake"

definition terminal_of :: "position \<Rightarrow> 'a kernel_scheme \<Rightarrow> terminal" where
  "terminal_of p s = \<lparr>modifiers = kb_state s, waiting = kb_contents s, interrupts_seen = get_interrupt_count s,
     ticks = get_timer_ticks s, running = (case current_task s of Some c \<Rightarrow> c | None \<Rightarrow> 0), bytes_read = port_reads s, printed = [],
     activity = activity_of p\<rparr>"

text \<open>The state \<open>t\<close> at position \<open>p\<close>, reached from a state with the screen \<open>d\<close>, implements the terminal \<open>T\<close>.\<close>

definition implements :: "console \<Rightarrow> position \<Rightarrow> 'a kernel_scheme \<Rightarrow> terminal \<Rightarrow> bool" where
  "implements d p t T \<longleftrightarrow> terminal_of p t = T\<lparr>printed := []\<rparr> \<and> console.truncate t = print_chars (printed T) d"

text \<open>What holds in the main loop.\<close>

definition terminal_ready :: "'a kernel_scheme \<Rightarrow> bool" where
  "terminal_ready s \<longleftrightarrow> system_ok s \<and> irq_lines s \<and> keyboard_hooked s \<and> demo_runnable s"

lemma terminal_ready_step:
  assumes "system_step x y" "terminal_ready (snd x)"
  shows "terminal_ready (snd y)"
  using assms system_ok_step [OF assms(1)] lines_part.keep_system_step [OF assms(1)]
    hooked_part.keep_system_step [OF assms(1)] demo_part.keep_system_step [OF assms(1)]
  unfolding terminal_ready_def by blast

text \<open>Printing on the screen of a larger state.\<close>

lemma truncate_print_char: "console.truncate (print_char c s) = print_char c (console.truncate s)"
proof -
  have store: "console.truncate (vga_store i v t) = vga_store i v (console.truncate t)" for i v and t :: "'a console_scheme"
    by (simp add: vga_store_def console.defs)
  have loop: "console.truncate (fold g xs t) = fold h xs (console.truncate t)"
    if "\<And>x t. console.truncate (g x t) = h x (console.truncate t)"
    for g :: "nat \<Rightarrow> 'a console_scheme \<Rightarrow> 'a console_scheme" and h :: "nat \<Rightarrow> console \<Rightarrow> console" and xs t
    using that by (induction xs arbitrary: t) simp_all
  have buffer: "vga_buffer (console.truncate t) = vga_buffer t" for t :: "'a console_scheme" by (simp add: console.defs)
  have cell: "console.truncate (copy_cell row col t) = copy_cell row col (console.truncate t)"
    "console.truncate (blank_cell col t) = blank_cell col (console.truncate t)" for row col and t :: "'a console_scheme"
    by (simp_all add: copy_cell_def blank_cell_def store buffer)
  have row: "console.truncate (copy_row row t) = copy_row row (console.truncate t)" for row and t :: "'a console_scheme"
    unfolding copy_row_def by (intro loop cell)
  have cursor: "console.truncate (t\<lparr>cursor_x := x\<rparr>) = (console.truncate t)\<lparr>cursor_x := x\<rparr>"
    "console.truncate (t\<lparr>cursor_y := y\<rparr>) = (console.truncate t)\<lparr>cursor_y := y\<rparr>" for x y and t :: "'a console_scheme"
    by (simp_all add: console.defs)
  have scroll: "console.truncate (scroll_screen t) = scroll_screen (console.truncate t)" for t :: "'a console_scheme"
    by (simp add: scroll_screen_def Let_def cursor loop [of copy_row copy_row, OF row] loop [of blank_cell blank_cell, OF cell(2)])
  have line: "console.truncate (new_line t) = new_line (console.truncate t)" for t :: "'a console_scheme"
    by (simp add: new_line_def Let_def scroll cursor) (simp add: console.defs)
  show ?thesis
    by (simp add: print_char_def Let_def line cursor store) (simp add: console.defs cell_index_def)
qed

lemma truncate_print_chars: "console.truncate (print_chars cs s) = print_chars cs (console.truncate s)"
  unfolding print_chars_def by (induction cs arbitrary: s) (simp_all add: truncate_print_char)

section \<open>The main loop\<close>

lemma print_chars_Cons: "print_chars (c # cs) s = print_chars cs (print_char c s)"
  by (simp add: print_chars_def)

lemma print_chars_append: "print_chars (cs @ ds) s = print_chars ds (print_chars cs s)"
  by (simp add: print_chars_def)

lemma echo_key_eq:
  assumes "keyboard_buffer_get s = (c, v)" "keyboard_has_input s"
  shows "echo_key (cstr ''Input: '') s = Some (print_chars (echo_line c) v)"
  using assms by (simp add: echo_key_def keyboard_getchar_def keyboard_has_input_def echo_line_def print_string_def
      until_nul_def print_chars_def cstr_def Let_def)

lemmas count_defs = get_interrupt_count_def get_timer_ticks_def

lemma terminal_of_cong:
  assumes "kb_state t = kb_state s" "kb_buffer t = kb_buffer s" "tick_count t = tick_count s"
    "interrupt_count t = interrupt_count s" "current_task t = current_task s" "port_reads t = port_reads s"
  shows "terminal_of p t = terminal_of p s"
  using assms by (simp add: terminal_of_def kb_contents_def count_defs)

lemma terminal_of_print_chars [simp]: "terminal_of p (print_chars cs s) = terminal_of p s"
  by (rule terminal_of_cong) simp_all

lemma implements_echo:
  assumes ready: "terminal_ready s" and imp: "implements d Main_loop s T"
  shows "\<exists>t. main_step Main_loop s = Some (Main_hlt, t) \<and> implements d Main_hlt t (own_step T)"
proof -
  obtain xs where rep: "kb_rep s xs" using ready by (auto simp: terminal_ready_def system_ok_def kb_ok_def)
  have w: "waiting T = xs" and tt: "terminal_of Main_loop s = T\<lparr>printed := []\<rparr>" and awake: "activity T = Awake"
    using imp kb_contents_rep [OF rep] by (cases T; auto simp: implements_def terminal_of_def)+
  show ?thesis
  proof (cases xs)
    case Nil
    then have "main_loop s = Some s" using kb_empty [OF rep] by (simp add: main_loop_def keyboard_has_input_def)
    moreover have "terminal_of Main_hlt s = T\<lparr>printed := [], activity := Stopping\<rparr>" using tt by (cases T) (simp add: terminal_of_def)
    ultimately show ?thesis using imp w awake Nil by (auto simp: implements_def echo_next_def own_step_def)
  next
    case (Cons c cs)
    obtain v where v: "keyboard_buffer_get s = (c, v)" "kb_rep v cs" using kb_get_front rep Cons by blast
    obtain b where b: "v = s\<lparr>kb_buffer := b\<rparr>" using keyboard_get_only [of s] v(1) by auto
    have "keyboard_has_input s" using kb_empty [OF rep] Cons by (simp add: keyboard_has_input_def)
    then have "main_loop s = Some (print_chars (echo_line c) v)" using echo_key_eq [OF v(1)] by (simp add: main_loop_def)
    moreover have "terminal_of Main_hlt v = T\<lparr>printed := [], waiting := cs, activity := Stopping\<rparr>"
      using tt kb_contents_rep [OF v(2)] by (cases T) (simp add: terminal_of_def b count_defs)
    moreover have "console.truncate v = console.truncate s" by (simp add: b console.defs)
    ultimately show ?thesis
      using imp w awake Cons by (auto simp: implements_def echo_next_def own_step_def truncate_print_chars print_chars_append)
  qed
qed

text \<open>The instruction \<open>hlt\<close>, and being woken up.\<close>

lemma implements_halt:
  assumes "implements d p s T" "p = Main_hlt \<or> p = Main_waiting"
  shows "main_step p s = Some (Main_waiting, s) \<and> implements d Main_waiting s (own_step T)"
  using assms by (cases T) (auto simp: implements_def terminal_of_def own_step_def)

lemma implements_wake: "implements d p s T \<Longrightarrow> implements d (wake p) s (T\<lparr>activity := awakened (activity T)\<rparr>)"
  by (cases T; cases p) (auto simp: implements_def terminal_of_def)

section \<open>Interrupts\<close>

lemma implements_fields:
  assumes "implements d p s T"
  shows "kb_state s = modifiers T" "kb_contents s = waiting T" "tick_count s = ticks T" "port_reads s = bytes_read T"
    "(case current_task s of Some c \<Rightarrow> c | None \<Rightarrow> 0) = running T" "interrupt_count s = interrupts_seen T"
    "console.truncate s = print_chars (printed T) d" "activity_of p = activity T"
  using assms by (cases T; auto simp: implements_def terminal_of_def count_defs)+

lemma implementsI:
  assumes "kb_state s = modifiers T" "kb_contents s = waiting T" "tick_count s = ticks T" "port_reads s = bytes_read T"
    "(case current_task s of Some c \<Rightarrow> c | None \<Rightarrow> 0) = running T" "interrupt_count s = interrupts_seen T"
    "console.truncate s = print_chars (printed T) d" "activity_of p = activity T"
  shows "implements d p s T"
  using assms by (cases T) (simp add: implements_def terminal_of_def count_defs)

lemma implements_acknowledged:
  assumes "implements d p s T"
  shows "implements d p (acknowledged s) (T\<lparr>interrupts_seen := interrupts_seen T + 1\<rparr>)"
  using implements_fields [OF assms]
  by (intro implementsI) (simp_all add: acknowledged_def kb_contents_def console.defs)

lemma implements_tick:
  fixes s :: "'a kernel_scheme"
  assumes ready: "demo_runnable s" and imp: "implements d p s T"
  shows "\<exists>t. timer_handler ctx s = Return t \<and> implements d p t (timer_tick T)"
proof -
  note f = implements_fields [OF imp]
  let ?n = "ticks T + 1"
  define u where "u = (if ?n mod 100 = 0 then print_char 0x2E (s\<lparr>tick_count := ?n\<rparr>) else s\<lparr>tick_count := ?n\<rparr>)"
  have "console.truncate (s\<lparr>tick_count := ?n\<rparr>) = console.truncate s" by (simp add: console.defs)
  then have u: "kb_state u = modifiers T" "kb_contents u = waiting T" "tick_count u = ?n" "port_reads u = bytes_read T"
    "current_task u = current_task s" "interrupt_count u = interrupts_seen T"
    "console.truncate u = print_chars (printed (timer_tick T)) d" "activity_of p = activity T"
    using f by (auto simp: u_def timer_tick_def Let_def kb_contents_def truncate_print_char print_chars_def)
  have run: "timer_handler ctx s = (if ?n mod 10 = 0 then outcome_of_option (schedule u) else Return u)"
    by (simp add: timer_handler_def Let_def u_def f(3))
  have demo: "demo_runnable u" using ready by (simp add: u_def demo_part.I_tick_count)
  then obtain t where t: "schedule u = Some t" using schedule_inv unfolding demo_runnable_def by blast
  show ?thesis
  proof (cases "?n mod 10 = 0")
    case True
    obtain ts c where only: "t = u\<lparr>tasks := ts, current_task := c\<rparr>" using schedule_only [OF t] by blast
    have "current_task t = Some 1" using schedule_two_tasks [OF demo t] by simp
    then have "implements d p t (timer_tick T)"
      using u True by (intro implementsI) (simp_all add: only timer_tick_def Let_def kb_contents_def console.defs)
    then show ?thesis using run t True by (simp add: outcome_of_option_def)
  next
    case False
    have "implements d p u (timer_tick T)"
      using u f(5) False by (intro implementsI) (simp_all add: timer_tick_def Let_def)
    then show ?thesis using run False by simp
  qed
qed

text \<open>The keyboard: the released bit, the translation and the modifiers agree with the abstract ones.\<close>

lemma code_below: "(byte :: u8) AND 0x7F < 128"
proof -
  have "byte AND 0x7F = take_bit 7 byte" by (simp add: take_bit_eq_mask mask_eq_exp_minus_1)
  then show ?thesis by (simp add: take_bit_eq_mod word_less_nat_alt unat_mod)
qed

lemma released_bit: "(byte :: u8) AND 0x80 \<noteq> 0 \<longleftrightarrow> 128 \<le> byte"
proof
  assume "byte AND 0x80 \<noteq> 0"
  then show "128 \<le> byte" using press_code(2) [of byte] by (metis not_le)
next
  assume le: "128 \<le> byte"
  have "(0x7F OR 0x80 :: u8) = - 1" by code_simp
  then have "byte = byte AND (0x7F OR 0x80)" by (simp only: bit.conj_one_right)
  then have "byte = (byte AND 0x7F) OR (byte AND 0x80)" by (simp only: bit.conj_disj_distrib)
  then show "byte AND 0x80 \<noteq> 0" using le code_below [of byte] by (metis not_le or.right_neutral)
qed

lemma key_char_eq:
  assumes "code < 128"
  shows "scancode_to_ascii code s = key_char (kb_state s) code"
proof -
  have "unat code < 128" using assms by (simp add: word_less_nat_alt)
  note t = tables_nth [OF this]
  show ?thesis using assms t(1,2) unfolding scancode_to_ascii_def key_char_def Let_def is_lower_def by auto
qed

lemma implements_key:
  fixes s :: "'a kernel_scheme"
  assumes rep: "kb_rep s xs" and imp: "implements d q s T"
  shows "\<exists>t. keyboard_interrupt_handler ctx s = Return t \<and> implements d q t (key_typed (port_input s (bytes_read T) 0x60) T)"
proof -
  note f = implements_fields [OF imp]
  define byte where "byte = port_input s (bytes_read T) 0x60"
  define code where "code = byte AND 0x7F"
  have xs: "waiting T = xs" using f(2) kb_contents_rep [OF rep] by simp
  have len: "take 256 xs = xs" using keyboard_queue.rep_cap [OF rep] by simp
  define p where "p v = s\<lparr>port_reads := port_reads s + 1\<rparr>\<lparr>kb_stats := v\<rparr>" for v
  define v where "v = (kb_stats s)\<lparr>total_releases := total_releases (kb_stats s) + 1\<rparr>"
  define w where "w = (kb_stats s)\<lparr>total_keypresses := total_keypresses (kb_stats s) + 1\<rparr>"
  have run: "keyboard_interrupt_handler ctx s =
      Return (outb 0x20 0x20 (if 128 \<le> byte then handle_key_release code (p v) else handle_key_press code (p w)))"
    using keyboard_interrupt_eq [of byte s code ctx] f(4) released_bit [of byte]
    by (simp add: byte_def code_def p_def v_def w_def)
  have p: "kb_state (p x) = modifiers T" "kb_rep (p x) xs" "tick_count (p x) = ticks T" "port_reads (p x) = bytes_read T + 1"
      "current_task (p x) = current_task s" "interrupt_count (p x) = interrupts_seen T" "console.truncate (p x) = print_chars (printed T) d" for x
    using f rep by (simp_all add: p_def kb_rep_def console.defs)
  define t where "t = outb 0x20 0x20 (if 128 \<le> byte then handle_key_release code (p v) else handle_key_press code (p w))"
  have same: "tick_count t = ticks T" "port_reads t = bytes_read T + 1" "current_task t = current_task s"
      "interrupt_count t = interrupts_seen T" "console.truncate t = print_chars (printed T) d"
    using handle_key_only(1) [of code "p w"] handle_key_only(2) [of code "p v"] p unfolding t_def
    by (auto simp: outb_def console.defs)
  have state: "kb_state t = (if 128 \<le> byte then set_modifier False code (modifiers T)
      else if is_special_key code then set_modifier True code (modifiers T) else modifiers T)"
    by (simp add: t_def outb_def modifier_eq press_state set_modifier_other p(1))
  have "typed code (p w) = (if is_special_key code \<or> key_char (modifiers T) code = 0 then [] else [key_char (modifiers T) code])"
    using key_char_eq [of code "p w"] code_below [of byte] by (simp add: typed_def code_def p(1))
  moreover have "kb_rep (handle_key_release code (p v)) xs" using p(2) [of v] kb_rep_cong [of "handle_key_release code (p v)" "p v" xs] by simp
  ultimately have "kb_rep t (if 128 \<le> byte \<or> is_special_key code \<or> key_char (modifiers T) code = 0 then xs
      else take 256 (xs @ [key_char (modifiers T) code]))"
    using handle_key_press_rep [OF p(2) [of w], of code] len unfolding t_def by (auto simp: kb_rep_ports.f_outb)
  from kb_contents_rep [OF this] have "implements d q t (key_typed byte T)"
    using same state f(5,8) xs by (intro implementsI) (auto simp: key_typed_def Let_def code_def [symmetric])
  then show ?thesis using run by (simp add: t_def byte_def)
qed

section \<open>Histories\<close>

text \<open>One event, then any number of them.\<close>

lemma implements_irq:
  fixes s :: "'a kernel_scheme"
  assumes ready: "terminal_ready s" and imp: "implements d p s T" and v: "32 \<le> unat (int_no ctx)" "unat (int_no ctx) < 40"
  shows "\<exists>t. irq_handler run_handler ctx s = Return t \<and> implements d (wake p) t (terminal_step (port_input s) (Irq ctx) T)"
proof -
  have iff: "int_no ctx = 32 \<longleftrightarrow> unat (int_no ctx) = 32" "int_no ctx = 33 \<longleftrightarrow> unat (int_no ctx) = 33"
    by (simp_all add: word_unat_eq_iff)
  note r = ready [unfolded terminal_ready_def system_ok_def]
  obtain xs where "kb_rep s xs" using r by (auto simp: kb_ok_def)
  then have rep: "kb_rep (acknowledged s) xs" by (simp add: acknowledged_def kb_rep_def)
  have demo: "demo_runnable (acknowledged s)"
    using r by (simp add: acknowledged_def demo_part.I_interrupt_count demo_part.f_port_output)
  note a = implements_acknowledged [OF implements_wake [OF imp]]
  consider "unat (int_no ctx) = 32" | "unat (int_no ctx) = 33" | "34 \<le> unat (int_no ctx)" using v(1) by linarith
  then show ?thesis
  proof cases
    case 1
    then show ?thesis
      using implements_tick [OF demo a, of ctx] r v iff(1) by (simp add: irq_acknowledged irq_lines_def)
  next
    case 2
    moreover have "port_input (acknowledged s) = port_input s" by (simp add: acknowledged_def)
    ultimately show ?thesis
      using implements_key [OF rep a, of ctx] r v iff by (simp add: irq_acknowledged keyboard_hooked_def)
  next
    case 3
    then show ?thesis using a r v iff by (simp add: irq_acknowledged irq_lines_def)
  qed
qed

lemma implements_event:
  fixes s :: "'a kernel_scheme"
  assumes ready: "terminal_ready s" and imp: "implements d p s T" and p: "in_loop p" and hw: "hardware_vector e"
  shows "\<exists>q t. run_events (e # es) (p, s) = run_events es (q, t) \<and> system_step (p, s) (q, t) \<and> in_loop q
    \<and> implements d q t (terminal_step (port_input s) e T)"
proof (cases e)
  case Main
  have "\<exists>q t. main_step p s = Some (q, t) \<and> in_loop q \<and> implements d q t (own_step T)"
    using implements_echo [OF ready] implements_halt [OF imp] imp p unfolding in_loop_def by blast
  then obtain q t where "main_step p s = Some (q, t)" "in_loop q" "implements d q t (own_step T)" by blast
  then show ?thesis using Main by (intro exI [of _ q] exI [of _ t]) (auto intro: system_step.main)
next
  case (Irq ctx)
  then have "32 \<le> unat (int_no ctx)" "unat (int_no ctx) < 40" using hw by (simp_all add: hardware_vector_def)
  from implements_irq [OF ready imp this] obtain t where
    t: "irq_handler run_handler ctx s = Return t" "implements d (wake p) t (terminal_step (port_input s) (Irq ctx) T)" by blast
  have "interrupt_flag s" using ready by (simp add: terminal_ready_def system_ok_def)
  then have "system_step (p, s) (wake p, t)" using t(1) by (rule system_step.irq)
  then show ?thesis using Irq t p by (intro exI [of _ "wake p"] exI [of _ t]) simp
qed

text \<open>The device's answers are no part of the kernel.\<close>

interpretation device_part: quiet_part "\<lambda>s. port_input s = device" for device
proof
  fix s t :: "'a kernel_scheme"
  assume ok: "port_input s = device"
  show "port_input t = device" if "schedule s = Some t" using schedule_only [OF that] ok by auto
  show "port_input t = device" if "kmalloc n s = Some (p, t)" for n p
    using kmalloc_same [OF that] ok by (auto simp: same_but_heap_def)
  show "port_input t = device" if "kfree p s = Some t" for p
    using kfree_same [OF that] ok by (auto simp: same_but_heap_def)
qed simp_all

interpretation device_boot: boot_part "\<lambda>s. port_input s = device" for device
  by unfold_locales simp_all

lemma implements_history:
  fixes s :: "'a kernel_scheme"
  assumes "terminal_ready s" "implements d p s T" "in_loop p" "\<forall>e \<in> set es. hardware_vector e"
  shows "\<exists>q t. run_events es (p, s) = Some (q, t) \<and> terminal_ready t \<and> in_loop q
    \<and> implements d q t (run_terminal (port_input s) es T)"
  using assms
proof (induction es arbitrary: p s T)
  case Nil
  then show ?case by (simp add: run_terminal_def)
next
  case (Cons e es)
  obtain q u where u: "run_events (e # es) (p, s) = run_events es (q, u)" "system_step (p, s) (q, u)" "in_loop q"
      "implements d q u (terminal_step (port_input s) e T)"
    using implements_event [OF Cons.prems(1-3), of e es] Cons.prems(4) by auto
  have "terminal_ready u" using terminal_ready_step [OF u(2)] Cons.prems(1) by simp
  from Cons.IH [OF this u(4,3)] Cons.prems(4) u(1) device_part.keep_system_step [OF u(2), of "port_input s"]
  show ?case by (simp add: run_terminal_def)
qed

section \<open>The kernel reaches the terminal\<close>

text \<open>From the setup of the keyboard on its interrupt goes to the driver.\<close>

lemma setup_hooks: "irq_lines s \<Longrightarrow> keyboard_hooked (keyboard_setup s)"
  by (simp add: keyboard_setup_def init_keyboard_def register_interrupt_handler_def irq_lines_def keyboard_hooked_def Let_def)

lemma reachable_parts:
  assumes "zeroed_image s" "reachable l s x"
  shows "irq_lines (snd x) \<and> demo_runnable (snd x)"
  using lines_part.keep_reachable [OF _ assms(2)] demo_part.keep_reachable [OF _ assms(2)] kernel_boot_ok [OF assms(1), of l]
  by fastforce

lemma reachable_hooked:
  assumes "zeroed_image s" "reachable l s x"
  shows "rank (fst x) < 8 \<Longrightarrow> keyboard_hooked (snd x)"
  using assms(2)
proof (induction rule: reachable.induct)
  case (step x y)
  show ?case
  proof (cases "rank (fst x) < 8")
    case True
    then show ?thesis using step hooked_part.keep_system_step by blast
  next
    case False
    from step(2) show ?thesis
    proof cases
      case (main p u q v)
      then have "rank q = rank p - 1" using rank_step by blast
      then have "p = Keyboard_setup" using main False step.prems by (cases p) auto
      then show ?thesis
        using main setup_hooks reachable_parts [OF assms(1) step(1)] by auto
    next
      case (irq u ctx v p)
      then show ?thesis using False step.prems by simp
    qed
  qed
qed simp

lemma main_loop_ready:
  assumes "zeroed_image s" "reachable l s (p, t)" "in_loop p"
  shows "terminal_ready t"
proof -
  have "rank p = 0" using assms(3) rank_0 by blast
  then show ?thesis
    using reachable_system_ok [OF assms(1,2)] reachable_parts [OF assms(1,2)] reachable_hooked [OF assms(1,2)]
    by (simp add: terminal_ready_def)
qed

lemma implements_self: "implements (console.truncate t) p t (terminal_of p t)"
  by (simp add: implements_def terminal_of_def print_chars_def)

text \<open>A history of a reachable state in the loop, as the terminal sees it.\<close>

lemma loop_history:
  assumes "zeroed_image s" "reachable l s (p, t)" "in_loop p" "\<forall>e \<in> set es. hardware_vector e"
  obtains q u where "run_events es (p, t) = Some (q, u)" "reachable l s (q, u)" "in_loop q"
    "implements (console.truncate t) q u (run_terminal (port_input t) es (terminal_of p t))"
proof -
  from implements_history [OF main_loop_ready [OF assms(1-3)] implements_self assms(3,4)] obtain q u where
    u: "run_events es (p, t) = Some (q, u)" "in_loop q" "implements (console.truncate t) q u (run_terminal (port_input t) es (terminal_of p t))"
    by blast
  moreover have "reachable l s (q, u)" using run_events_ok [OF assms(1,2,4)] u(1) by auto
  ultimately show thesis using that by blast
qed

lemma main_loop_reached:
  assumes "zeroed_image s"
  shows "\<exists>p t. reachable l s (p, t) \<and> in_loop p"
proof -
  obtain t where "kernel_boot l s = Some t" using kernel_boot_ok [OF assms] by blast
  from run_events_ok [OF assms reachable.boot [OF this], of "replicate 10 Main"] obtain q u where
    "reachable l s (q, u)" "rank q = 0" by (auto simp: hardware_vector_def)
  then show ?thesis by (auto simp: rank_0)
qed

lemma kernel_boot_device:
  fixes s :: "'a kernel_scheme"
  assumes "kernel_boot l s = Some t"
  shows "port_input t = port_input s"
proof -
  have "port_input (init_memory_manager u) = port_input u" for u :: "'a kernel_scheme"
    by (simp add: init_memory_manager_def Let_def)
  moreover have "port_input (init_syscalls u) = port_input u" for u :: "'a kernel_scheme"
    using init_syscalls_only [of u] by auto
  ultimately have "port_input (early_boot l s) = port_input s"
    by (simp add: early_boot_def Let_def init_interrupts_kb)
  then show ?thesis using device_boot.keep_late_boot [OF _ assms [unfolded kernel_boot_def]] by blast
qed

section \<open>Properties of the terminal\<close>

text \<open>What the abstract terminal does with waiting and with newly typed characters.\<close>

lemma run_terminal_simps [simp]:
  "run_terminal device [] T = T"
  "run_terminal device (e # es) T = run_terminal device es (terminal_step device e T)"
  "run_terminal device (es @ es') T = run_terminal device es' (run_terminal device es T)"
  by (simp_all add: run_terminal_def)

lemma awakened_simps [simp]: "awakened (awakened a) = awakened a" "awakened a = Stopping \<longleftrightarrow> a = Stopping"
  by (cases a; simp)+

lemma falls_asleep: "activity (own_step (own_step T)) = Asleep" "activity T = Asleep \<Longrightarrow> own_step T = T"
  by (cases "activity T"; simp add: own_step_def)+

text \<open>
  A tick of the timer, and what the processor does before it halts again. The text it produces when
  the characters \<open>cs\<close> are waiting and the counter of ticks is \<open>n\<close>: one echoed character for each
  tick, and a dot before it at every hundredth.
\<close>

definition tick_round :: "interrupt_context \<Rightarrow> event list" where
  "tick_round ctx = [Irq ctx, Main, Main]"

fun tick_lines :: "u32 \<Rightarrow> u8 list \<Rightarrow> u8 list" where
  "tick_lines n [] = []"
| "tick_lines n (c # cs) = (if (n + 1) mod 100 = 0 then [0x2E] else []) @ echo_line c @ tick_lines (n + 1) cs"

lemma terminal_round:
  assumes "activity T \<noteq> Stopping" "int_no ctx = 32" "waiting T = c # cs"
  shows "let U = run_terminal device (tick_round ctx) T
    in waiting U = cs \<and> activity U = Asleep \<and> ticks U = ticks T + 1 \<and> printed U = printed T @ tick_lines (ticks T) [c]"
  using assms by (cases "activity T") (simp_all add: tick_round_def timer_tick_def own_step_def echo_next_def Let_def)

lemma terminal_rounds:
  assumes "activity T \<noteq> Stopping" "\<forall>ctx \<in> set ctxs. int_no ctx = 32" "length ctxs = length (waiting T)"
  shows "let U = run_terminal device (concat (map tick_round ctxs)) T
    in waiting U = [] \<and> (activity T = Asleep \<longrightarrow> activity U = Asleep) \<and> printed U = printed T @ tick_lines (ticks T) (waiting T)"
  using assms
proof (induction ctxs arbitrary: T)
  case (Cons ctx ctxs)
  then obtain c cs where w: "waiting T = c # cs" by (cases "waiting T") auto
  let ?U = "run_terminal device (tick_round ctx) T"
  have U: "waiting ?U = cs" "activity ?U = Asleep" "ticks ?U = ticks T + 1" "printed ?U = printed T @ tick_lines (ticks T) [c]"
    using terminal_round [OF Cons.prems(1) _ w, of ctx device] Cons.prems(2) by (simp_all add: Let_def)
  from Cons.IH [of ?U] Cons.prems U w show ?case by (simp add: Let_def)
qed simp

lemma terminal_types:
  assumes "\<forall>i < length cs. let b = device (bytes_read T + i) 0x60 in b < 128 \<and> \<not> is_special_key b
      \<and> key_char (modifiers T) b = cs ! i \<and> cs ! i \<noteq> 0"
    and "length (waiting T) + length cs \<le> 256" "length ctxs = length cs" "\<forall>ctx \<in> set ctxs. int_no ctx = 33"
  shows "run_terminal device (map Irq ctxs) T
     = T\<lparr>waiting := waiting T @ cs, interrupts_seen := interrupts_seen T + of_nat (length cs), bytes_read := bytes_read T + length cs,
         activity := (if cs = [] then activity T else awakened (activity T))\<rparr>"
  using assms
proof (induction cs arbitrary: T ctxs)
  case Nil
  then show ?case by (simp add: run_terminal_def)
next
  case (Cons c cs)
  obtain ctx rest where ctxs: "ctxs = ctx # rest" using Cons.prems(3) by (cases ctxs) auto
  let ?b = "device (bytes_read T) 0x60" and ?T = "T\<lparr>waiting := waiting T @ [c], interrupts_seen := interrupts_seen T + 1, bytes_read := bytes_read T + 1,
      activity := awakened (activity T)\<rparr>"
  have b: "?b < 128" "\<not> is_special_key ?b" "key_char (modifiers T) ?b = c" "c \<noteq> 0"
    using Cons.prems(1) [rule_format, of 0] by (simp_all add: Let_def)
  have "terminal_step device (Irq ctx) T = ?T"
    using b press_code(1) [OF b(1)] Cons.prems(2,4) ctxs by (simp add: key_typed_def Let_def not_le)
  moreover have "run_terminal device (map Irq rest) ?T = ?T\<lparr>waiting := waiting ?T @ cs,
      interrupts_seen := interrupts_seen ?T + of_nat (length cs), bytes_read := bytes_read ?T + length cs,
      activity := (if cs = [] then activity ?T else awakened (activity ?T))\<rparr>"
  proof (rule Cons.IH)
    show "\<forall>i < length cs. let b = device (bytes_read ?T + i) 0x60 in b < 128 \<and> \<not> is_special_key b
        \<and> key_char (modifiers ?T) b = cs ! i \<and> cs ! i \<noteq> 0" (is "\<forall>i < _. ?P i")
    proof (intro allI impI)
      show "?P i" if "i < length cs" for i using Cons.prems(1) [rule_format, of "Suc i"] that by simp
    qed
  qed (use Cons.prems ctxs in auto)
  ultimately show ?case using ctxs by simp
qed

lemma drained_reachable:
  assumes "zeroed_image s" "reachable l s (p, t)" "in_loop p"
  shows "\<exists>u. reachable l s (Main_waiting, u) \<and> kb_contents u = []"
proof -
  let ?T = "run_terminal (port_input t) [Main, Main] (terminal_of p t)"
  let ?ctxs = "replicate (length (waiting ?T)) (zero_context 32)"
  let ?es = "[Main, Main] @ concat (map tick_round ?ctxs)"
  have hw: "\<forall>e \<in> set ?es. hardware_vector e" by (auto simp: hardware_vector_def tick_round_def zero_context_def)
  obtain q u where u: "reachable l s (q, u)" "in_loop q"
      "implements (console.truncate t) q u (run_terminal (port_input t) ?es (terminal_of p t))"
    by (rule loop_history [OF assms hw])
  have "activity ?T = Asleep" by (simp add: falls_asleep)
  then have "let U = run_terminal (port_input t) ?es (terminal_of p t) in waiting U = [] \<and> activity U = Asleep"
    using terminal_rounds [of ?T ?ctxs "port_input t"] by (simp add: Let_def zero_context_def)
  then have "kb_contents u = []" "activity_of q = Asleep" using implements_fields(2,8) [OF u(3)] by (simp_all add: Let_def)
  then show ?thesis using u(1) by (cases q) auto
qed

text \<open>
  C5: the kernel is an echo terminal. Once the main program is in its loop, for every sequence of its steps
  and hardware interrupts, in any order, what the kernel does is what the abstract terminal does: the same
  characters wait in the ring buffer, the same modifiers are held, as many interrupts and ticks are counted, the same
  task is marked as running, the processor is halted at the same times, and the screen is the earlier one with the
  terminal's output printed on it.
\<close>

theorem terminal_refinement:
  assumes "zeroed_image s" "reachable l s (p, t)" "in_loop p" "\<forall>e \<in> set es. hardware_vector e"
  shows "\<exists>q u. run_events es (p, t) = Some (q, u) \<and> in_loop q
    \<and> (let T = run_terminal (port_input t) es (terminal_of p t)
       in terminal_of q u = T\<lparr>printed := []\<rparr> \<and> console.truncate u = print_chars (printed T) (console.truncate t))"
proof -
  obtain q u where "run_events es (p, t) = Some (q, u)" "in_loop q"
      "implements (console.truncate t) q u (run_terminal (port_input t) es (terminal_of p t))"
    by (rule loop_history [OF assms])
  then show ?thesis unfolding implements_def Let_def by blast
qed

theorem terminal_refinement_witness:
  "\<exists>t q u. reachable zero_link power_on_kernel (Main_waiting, t)
    \<and> run_events [Irq (zero_context 32), Main] (Main_waiting, t) = Some (q, u) \<and> tick_count u = tick_count t + 1"
proof -
  obtain t where t: "reachable zero_link power_on_kernel (Main_waiting, t)"
    using main_loop_reached [OF power_on_zeroed] drained_reachable [OF power_on_zeroed] by blast
  have "\<forall>e \<in> set [Irq (zero_context 32), Main]. hardware_vector e" by (simp add: hardware_vector_def zero_context_def)
  from terminal_refinement [OF power_on_zeroed t _ this] obtain q u where
    u: "run_events [Irq (zero_context 32), Main] (Main_waiting, t) = Some (q, u)"
      "terminal_of q u = (run_terminal (port_input t) [Irq (zero_context 32), Main] (terminal_of Main_waiting t))\<lparr>printed := []\<rparr>"
    unfolding in_loop_def Let_def by blast
  have "ticks (terminal_of q u) = ticks (terminal_of Main_waiting t) + 1"
    unfolding u(2) by (simp add: echo_next_def own_step_def timer_tick_def zero_context_def Let_def split: list.split activity.split)
  then have "tick_count u = tick_count t + 1" by (simp add: terminal_of_def count_defs)
  then show ?thesis using t u(1) by blast
qed

text \<open>
  C11: what is typed is echoed, completely and in order. Let the buffer be empty in the main loop, the processor
  halted or at the start of an iteration, and let at most 256 keys with a character be pressed in a row, before the
  loop gets to any of them. Each iteration echoes one character and ends in \<open>hlt\<close>, so the rest waits for
  interrupts; with one timer tick for each character, each waking the processor for one more
  iteration, the buffer is empty again and the screen shows one line for each of the characters, in the
  order of the key presses, and the dots of those ticks that are a multiple of 100.
\<close>

theorem typed_text_echoed:
  assumes "zeroed_image s" "reachable l s (p, t)" "p = Main_loop \<or> p = Main_waiting" "kb_contents t = []" "length cs \<le> 256"
    and "\<forall>i < length cs. let b = port_input t (port_reads t + i) 0x60 in b < 128 \<and> \<not> is_special_key b
      \<and> key_char (kb_state t) b = cs ! i \<and> cs ! i \<noteq> 0"
    and "length keys = length cs" "\<forall>ctx \<in> set keys. int_no ctx = 33"
    and "length wakeups = length cs" "\<forall>ctx \<in> set wakeups. int_no ctx = 32"
  shows "\<exists>q u. run_events (map Irq keys @ concat (map (\<lambda>ctx. [Irq ctx, Main, Main]) wakeups)) (p, t) = Some (q, u)
    \<and> kb_contents u = [] \<and> console.truncate u = print_chars (tick_lines (tick_count t) cs) (console.truncate t)"
proof -
  let ?T = "terminal_of p t" and ?es = "map Irq keys @ concat (map tick_round wakeups)"
  have hw: "\<forall>e \<in> set ?es. hardware_vector e" using assms(8,10) by (auto simp: hardware_vector_def tick_round_def)
  have loop: "in_loop p" using assms(3) by (auto simp: in_loop_def)
  define U where "U = run_terminal (port_input t) (map Irq keys) ?T"
  have T: "activity ?T \<noteq> Stopping" "waiting ?T = []" "ticks ?T = tick_count t" "printed ?T = []"
    using assms(3,4) by (auto simp: terminal_of_def count_defs)
  have "U = ?T\<lparr>waiting := waiting ?T @ cs, interrupts_seen := interrupts_seen ?T + of_nat (length cs), bytes_read := bytes_read ?T + length cs,
         activity := (if cs = [] then activity ?T else awakened (activity ?T))\<rparr>"
    unfolding U_def by (rule terminal_types) (use assms in \<open>simp_all add: terminal_of_def\<close>)
  then have U: "activity U \<noteq> Stopping" "waiting U = cs" "ticks U = tick_count t" "printed U = []" using T by auto
  obtain q u where u: "run_events ?es (p, t) = Some (q, u)" "implements (console.truncate t) q u (run_terminal (port_input t) ?es ?T)"
    by (rule loop_history [OF assms(1,2) loop hw])
  have run: "run_terminal (port_input t) ?es ?T = run_terminal (port_input t) (concat (map tick_round wakeups)) U" by (simp add: U_def)
  have "kb_contents u = []" "console.truncate u = print_chars (tick_lines (tick_count t) cs) (console.truncate t)"
    using terminal_rounds [OF U(1) assms(10), of "port_input t"] implements_fields(2,7) [OF u(2)] U assms(9)
    unfolding run Let_def by simp_all
  moreover have "concat (map (\<lambda>ctx. [Irq ctx, Main, Main]) wakeups) = concat (map tick_round wakeups)" by (simp add: tick_round_def [abs_def])
  ultimately show ?thesis using u(1) by auto
qed

theorem typed_text_echoed_witness:
  "\<exists>t q u c. reachable zero_link (power_on_kernel\<lparr>port_input := \<lambda>k p. 0x1E\<rparr>) (Main_waiting, t) \<and> c \<noteq> 0
    \<and> run_events [Irq (zero_context 33), Irq (zero_context 33), Irq (zero_context 32), Main, Main, Irq (zero_context 32), Main, Main]
        (Main_waiting, t) = Some (q, u)
    \<and> console.truncate u = print_chars (tick_lines (tick_count t) [c, c]) (console.truncate t)"
proof -
  let ?s = "power_on_kernel\<lparr>port_input := \<lambda>k p. 0x1E\<rparr>"
  have z: "zeroed_image ?s" using power_on_zeroed by (simp add: zeroed_image_def kb_rep_def)
  obtain t where t: "reachable zero_link ?s (Main_waiting, t)" "kb_contents t = []"
    using main_loop_reached [OF z] drained_reachable [OF z] by blast
  have dev: "port_input t = (\<lambda>k p. 0x1E)"
    using device_part.keep_reachable [OF _ t(1), of "\<lambda>k p. 0x1E"] kernel_boot_device [of zero_link ?s] by simp
  let ?c = "key_char (kb_state t) 0x1E"
  have key: "\<not> is_special_key 0x1E" "?c \<noteq> 0"
    by (simp_all add: is_special_key_def key_codes key_char_def scancode_to_ascii_table_def shifted_chars_def is_lower_def Let_def)
  have "\<forall>i < length [?c, ?c]. let b = port_input t (port_reads t + i) 0x60 in b < 128 \<and> \<not> is_special_key b
      \<and> key_char (kb_state t) b = [?c, ?c] ! i \<and> [?c, ?c] ! i \<noteq> 0"
    using dev key by (auto simp: Let_def less_Suc_eq)
  from typed_text_echoed [OF z t(1) _ t(2) _ this, of "[zero_context 33, zero_context 33]" "[zero_context 32, zero_context 32]"]
  obtain q u where
    "run_events [Irq (zero_context 33), Irq (zero_context 33), Irq (zero_context 32), Main, Main, Irq (zero_context 32), Main, Main]
        (Main_waiting, t) = Some (q, u)"
    "console.truncate u = print_chars (tick_lines (tick_count t) [?c, ?c]) (console.truncate t)"
    by (auto simp: zero_context_def simp del: run_events.simps tick_lines.simps)
  then show ?thesis using t(1) key(2) by blast
qed

text \<open>
  A wake-up can be lost. A key pressed after the loop has found the buffer empty and before it executes \<open>hlt\<close> does
  not wake the processor: it halts with the character waiting, and the main program, given any number of
  steps, neither echoes nor takes it until another interrupt comes.
\<close>

theorem wakeup_lost:
  assumes "zeroed_image s" "reachable l s (Main_hlt, t)" "kb_contents t = []" "int_no ctx = 33"
    and "b = port_input t (port_reads t) 0x60" "b < 128" "\<not> is_special_key b" "key_char (kb_state t) b = c" "c \<noteq> 0"
  shows "\<exists>u. run_events (Irq ctx # replicate (Suc n) Main) (Main_hlt, t) = Some (Main_waiting, u)
    \<and> kb_contents u = [c] \<and> console.truncate u = console.truncate t"
proof -
  let ?T = "terminal_of Main_hlt t" and ?es = "map Irq [ctx] @ replicate (Suc n) Main"
  have hw: "\<forall>e \<in> set ?es. hardware_vector e" using assms(4) by (auto simp: hardware_vector_def)
  have loop: "in_loop Main_hlt" by (simp add: in_loop_def)
  obtain q u where u: "run_events ?es (Main_hlt, t) = Some (q, u)" "in_loop q"
      "implements (console.truncate t) q u (run_terminal (port_input t) ?es ?T)"
    by (rule loop_history [OF assms(1,2) loop hw])
  have sleep: "run_terminal device (replicate k Main) U = U" if "activity U = Asleep" for device k and U :: terminal
    using that by (induction k) (simp_all add: falls_asleep)
  define U where "U = run_terminal (port_input t) (map Irq [ctx]) ?T"
  have "U = ?T\<lparr>waiting := waiting ?T @ [c], interrupts_seen := interrupts_seen ?T + of_nat (length [c]), bytes_read := bytes_read ?T + length [c],
         activity := (if [c] = [] then activity ?T else awakened (activity ?T))\<rparr>"
    unfolding U_def by (rule terminal_types) (use assms in \<open>simp_all add: terminal_of_def Let_def\<close>)
  then have U: "activity U = Stopping" "waiting U = [c]" "printed U = []" using assms(3) by (simp_all add: terminal_of_def)
  have "run_terminal (port_input t) ?es ?T = run_terminal (port_input t) (replicate n Main) (own_step U)"
    unfolding U_def by simp
  also have "\<dots> = U\<lparr>activity := Asleep\<rparr>" using sleep [of "own_step U"] U(1) by (simp add: own_step_def)
  finally have "activity_of q = Asleep" "kb_contents u = [c]" "console.truncate u = console.truncate t"
    using implements_fields(2,7,8) [OF u(3)] U by (simp_all add: print_chars_def)
  then show ?thesis using u(1) by (cases q) auto
qed


end
