(* ===== verification/Entry.thy ===== *)
theory Entry
  imports System
begin

text \<open>
  The assembly between the processor and the C code: the interrupt stubs of
  \<open>kernel/interrupt_asm.s\<close> and the system call entry of \<open>kernel/syscall_asm.s\<close>, instruction by
  instruction on the registers and the stack. The processor's own part (what it pushes on an
  interrupt without a change of privilege, what \<open>iret\<close> takes back) and the calling convention of
  the C functions (which registers a call may change, that it returns to its caller and writes
  below the stack pointer only) are those of the 32-bit x86.
\<close>

section \<open>Registers and stack\<close>

record cpu =
  r_eax :: u32
  r_ebx :: u32
  r_ecx :: u32
  r_edx :: u32
  r_esi :: u32
  r_edi :: u32
  r_ebp :: u32
  r_esp :: u32
  r_eip :: u32
  r_eflags :: u32
  r_cs :: u16
  r_ds :: u16
  r_es :: u16
  r_fs :: u16
  r_gs :: u16

type_synonym core = "cpu \<times> bytes"

definition push :: "u32 \<Rightarrow> core \<Rightarrow> core" where
  "push v = (\<lambda>(c, m). (c\<lparr>r_esp := r_esp c - 4\<rparr>, write32 (r_esp c - 4) v m))"

definition stack_top :: "core \<Rightarrow> u32" where
  "stack_top = (\<lambda>(c, m). read32 m (r_esp c))"

definition drop_words :: "nat \<Rightarrow> core \<Rightarrow> core" where
  "drop_words n = (\<lambda>(c, m). (c\<lparr>r_esp := r_esp c + 4 * of_nat n\<rparr>, m))"

definition upd :: "(cpu \<Rightarrow> cpu) \<Rightarrow> core \<Rightarrow> core" where
  "upd f = (\<lambda>(c, m). (f c, m))"

text \<open>\<open>pop r\<close>: the word on top of the stack goes to the register.\<close>

definition pop_to :: "(u32 \<Rightarrow> cpu \<Rightarrow> cpu) \<Rightarrow> core \<Rightarrow> core" where
  "pop_to set_reg x = upd (set_reg (stack_top x)) (drop_words 1 x)"

definition pusha :: "core \<Rightarrow> core" where
  "pusha x = (let c = fst x in
     push (r_edi c) (push (r_esi c) (push (r_ebp c) (push (r_esp c) (push (r_ebx c)
       (push (r_edx c) (push (r_ecx c) (push (r_eax c) x))))))))"

definition popa :: "core \<Rightarrow> core" where
  "popa x =
     (let x = pop_to (\<lambda>v c. c\<lparr>r_edi := v\<rparr>) x;
          x = pop_to (\<lambda>v c. c\<lparr>r_esi := v\<rparr>) x;
          x = pop_to (\<lambda>v c. c\<lparr>r_ebp := v\<rparr>) x;
          x = drop_words 1 x;
          x = pop_to (\<lambda>v c. c\<lparr>r_ebx := v\<rparr>) x;
          x = pop_to (\<lambda>v c. c\<lparr>r_edx := v\<rparr>) x;
          x = pop_to (\<lambda>v c. c\<lparr>r_ecx := v\<rparr>) x
      in pop_to (\<lambda>v c. c\<lparr>r_eax := v\<rparr>) x)"

definition cli_flag :: "cpu \<Rightarrow> cpu" where
  "cli_flag c = c\<lparr>r_eflags := r_eflags c AND NOT 0x200\<rparr>"

definition sti_flag :: "cpu \<Rightarrow> cpu" where
  "sti_flag c = c\<lparr>r_eflags := r_eflags c OR 0x200\<rparr>"

definition set_segments :: "u16 \<Rightarrow> cpu \<Rightarrow> cpu" where
  "set_segments v c = c\<lparr>r_ds := v, r_es := v, r_fs := v, r_gs := v\<rparr>"

text \<open>\<open>mov ax, v\<close> changes the low half of \<open>eax\<close>.\<close>

definition mov_ax :: "u16 \<Rightarrow> cpu \<Rightarrow> cpu" where
  "mov_ax v c = c\<lparr>r_eax := (r_eax c AND 0xFFFF0000) OR ucast v\<rparr>"

section \<open>The interrupt stubs\<close>

text \<open>The processor's part: flags, code segment, return address, an error code for some vectors.\<close>

definition interrupt :: "u32 option \<Rightarrow> core \<Rightarrow> core" where
  "interrupt code x =
     (let c = fst x;
          x = push (r_eip c) (push (ucast (r_cs c)) (push (r_eflags c) x));
          x = (case code of Some e \<Rightarrow> push e x | None \<Rightarrow> x)
      in upd cli_flag x)"

definition iret :: "core \<Rightarrow> core" where
  "iret x =
     (let x = pop_to (\<lambda>v c. c\<lparr>r_eip := v\<rparr>) x;
          x = pop_to (\<lambda>v c. c\<lparr>r_cs := ucast v\<rparr>) x
      in pop_to (\<lambda>v c. c\<lparr>r_eflags := v\<rparr>) x)"

text \<open>The macros \<open>ISR_NOERRCODE\<close>, \<open>ISR_ERRCODE\<close> and \<open>IRQ\<close>; \<open>push byte\<close> extends the sign.\<close>

definition ISR_NOERRCODE :: "u8 \<Rightarrow> core \<Rightarrow> core" where
  "ISR_NOERRCODE n x = push (scast n) (push 0 (upd cli_flag x))"

definition ISR_ERRCODE :: "u8 \<Rightarrow> core \<Rightarrow> core" where
  "ISR_ERRCODE n x = push (scast n) (upd cli_flag x)"

definition IRQ :: "u8 \<Rightarrow> core \<Rightarrow> core" where
  "IRQ n x = push (scast n) (push 0 (upd cli_flag x))"

text \<open>The stub of each vector, as the lists of macro calls define them.\<close>

definition entry_stub :: "u8 \<Rightarrow> (core \<Rightarrow> core) option" where
  "entry_stub n =
     (if n \<in> {0, 1, 2, 3, 4, 5, 6, 7} then Some (ISR_NOERRCODE n)
      else if n \<in> {8, 10, 11, 12, 13, 14} then Some (ISR_ERRCODE n)
      else if n \<in> {32, 33, 34, 35, 36, 37, 38, 39} then Some (IRQ n)
      else None)"

text \<open>The vectors for which the processor pushes an error code.\<close>

definition error_code_vector :: "u8 \<Rightarrow> bool" where
  "error_code_vector n \<longleftrightarrow> n \<in> {8, 10, 11, 12, 13, 14, 17}"

text \<open>
  \<open>isr_common_stub\<close> and \<open>irq_common_stub\<close> differ only in the function they call: the part before
  the call and the part after it.
\<close>

definition common_enter :: "core \<Rightarrow> core" where
  "common_enter x =
     (let x = pusha x;
          x = upd (\<lambda>c. mov_ax (r_ds c) c) x;
          x = push (r_eax (fst x)) x;
          x = upd (mov_ax 0x10) x
      in upd (\<lambda>c. set_segments (ucast (r_eax c)) c) x)"

definition common_leave :: "core \<Rightarrow> core" where
  "common_leave x =
     (let x = pop_to (\<lambda>v c. c\<lparr>r_eax := v\<rparr>) x;
          x = upd (\<lambda>c. set_segments (ucast (r_eax c)) c) x;
          x = popa x;
          x = drop_words 2 x;
          x = upd sti_flag x
      in iret x)"

section \<open>Calling C from assembly\<close>

text \<open>
  What a compiled C function leaves behind besides its effect on the program's variables: the
  registers it need not preserve and the bytes of its stack frame.
\<close>

record c_frame =
  left_eax :: u32
  left_ecx :: u32
  left_edx :: u32
  frame_size :: nat
  frame_bytes :: bytes

definition below :: "nat \<Rightarrow> bytes \<Rightarrow> u32 \<Rightarrow> bytes \<Rightarrow> bytes" where
  "below n junk sp m = (\<lambda>a. if 0 < unat (sp - a) \<and> unat (sp - a) \<le> n then junk a else m a)"

definition after_call :: "c_frame \<Rightarrow> core \<Rightarrow> core" where
  "after_call f = (\<lambda>(c, m). (c\<lparr>r_eax := left_eax f, r_ecx := left_ecx f, r_edx := left_edx f\<rparr>,
     below (frame_size f) (frame_bytes f) (r_esp c) m))"

text \<open>The C view of \<open>interrupt_context_t\<close> at an address.\<close>

definition read_context :: "bytes \<Rightarrow> u32 \<Rightarrow> interrupt_context" where
  "read_context m p = \<lparr>ctx_edi = read32 m p, ctx_esi = read32 m (p + 4), ctx_ebp = read32 m (p + 8),
     ctx_esp = read32 m (p + 12), ctx_ebx = read32 m (p + 16), ctx_edx = read32 m (p + 20),
     ctx_ecx = read32 m (p + 24), ctx_eax = read32 m (p + 28), int_no = read32 m (p + 32),
     err_code = read32 m (p + 36), ctx_eip = read32 m (p + 40), ctx_cs = read32 m (p + 44),
     ctx_eflags = read32 m (p + 48), ctx_useresp = read32 m (p + 52), ctx_ss = read32 m (p + 56)\<rparr>"

text \<open>
  A common stub from its first instruction to \<open>iret\<close>. \<open>call\<close> pushes the return address \<open>ret\<close>; the
  C function finds its argument, the context pointer, in the word above it.
\<close>

definition common_stub ::
  "(interrupt_context \<Rightarrow> 'a memory_scheme \<Rightarrow> 'a memory_scheme outcome) \<Rightarrow> c_frame \<Rightarrow> u32 \<Rightarrow>
   cpu \<times> 'a memory_scheme \<Rightarrow> (cpu \<times> 'a memory_scheme) outcome" where
  "common_stub handler f ret = (\<lambda>(c, s).
     let (c, m) = push ret (common_enter (c, mem s));
         context = read_context m (read32 m (r_esp c + 4))
     in case handler context (s\<lparr>mem := m\<rparr>) of
          Return t \<Rightarrow>
            let (c, m) = common_leave (drop_words 1 (after_call f (c, mem t)))
            in Return (c, t\<lparr>mem := m\<rparr>)
        | Halted t \<Rightarrow> Halted (c, t)
        | Diverges \<Rightarrow> Diverges
        | Undefined \<Rightarrow> Undefined)"

definition isr_common_stub ::
  "c_frame \<Rightarrow> u32 \<Rightarrow> cpu \<times> 'a kernel_scheme \<Rightarrow> (cpu \<times> 'a kernel_scheme) outcome" where
  "isr_common_stub = common_stub (isr_handler run_handler)"

definition irq_common_stub ::
  "c_frame \<Rightarrow> u32 \<Rightarrow> cpu \<times> 'a kernel_scheme \<Rightarrow> (cpu \<times> 'a kernel_scheme) outcome" where
  "irq_common_stub = common_stub (irq_handler run_handler)"

section \<open>The system call entry\<close>

definition syscall_enter :: "core \<Rightarrow> core" where
  "syscall_enter x =
     (let c = fst x;
          x = push (ucast (r_es c)) (push (ucast (r_ds c)) (push (r_ebp c) (push (r_edi c) (push (r_esi c)
                (push (r_edx c) (push (r_ecx c) (push (r_ebx c) (push (r_eax c) x))))))));
          x = upd (mov_ax 0x10) x;
          x = upd (\<lambda>c. c\<lparr>r_ds := ucast (r_eax c), r_es := ucast (r_eax c)\<rparr>) x;
          c = fst x;
          x = push (r_eax c) (push (r_ebx c) (push (r_ecx c) (push (r_edx c) (push (r_esi c) (push (r_edi c) x)))));
          x = upd (\<lambda>c. c\<lparr>r_eax := r_esp c\<rparr>) x
      in push (r_eax (fst x)) x)"

definition syscall_leave :: "core \<Rightarrow> core" where
  "syscall_leave x =
     (let x = drop_words 1 x;
          x = upd (\<lambda>c. c\<lparr>r_ebx := r_eax c\<rparr>) x;
          x = drop_words 6 x;
          x = (fst x, write32 (r_esp (fst x) + 32) (r_ebx (fst x)) (snd x));
          x = pop_to (\<lambda>v c. c\<lparr>r_es := ucast v\<rparr>) x;
          x = pop_to (\<lambda>v c. c\<lparr>r_ds := ucast v\<rparr>) x;
          x = pop_to (\<lambda>v c. c\<lparr>r_ebp := v\<rparr>) x;
          x = pop_to (\<lambda>v c. c\<lparr>r_edi := v\<rparr>) x;
          x = pop_to (\<lambda>v c. c\<lparr>r_esi := v\<rparr>) x;
          x = pop_to (\<lambda>v c. c\<lparr>r_edx := v\<rparr>) x;
          x = pop_to (\<lambda>v c. c\<lparr>r_ecx := v\<rparr>) x;
          x = pop_to (\<lambda>v c. c\<lparr>r_ebx := v\<rparr>) x;
          x = pop_to (\<lambda>v c. c\<lparr>r_eax := v\<rparr>) x
      in iret x)"

text \<open>The C view of \<open>syscall_params_t\<close> at an address.\<close>

definition read_params :: "bytes \<Rightarrow> u32 \<Rightarrow> syscall_params" where
  "read_params m p = \<lparr>eax = read32 m p, ebx = read32 m (p + 4), ecx = read32 m (p + 8),
     edx = read32 m (p + 12), esi = read32 m (p + 16), edi = read32 m (p + 20)\<rparr>"

definition syscall_stub :: "c_frame \<Rightarrow> u32 \<Rightarrow> cpu \<times> 'a kernel_scheme \<Rightarrow> cpu \<times> 'a kernel_scheme" where
  "syscall_stub f ret = (\<lambda>(c, s).
     let (c, m) = push ret (syscall_enter (c, mem s));
         (result, t) = handle_syscall (read_params m (read32 m (r_esp c + 4))) (s\<lparr>mem := m\<rparr>);
         x = upd (\<lambda>c. c\<lparr>r_eax := word_of_int result\<rparr>) (after_call f (c, mem t));
         (c, m) = syscall_leave (drop_words 1 x)
     in (c, t\<lparr>mem := m\<rparr>))"

section \<open>Words on the stack\<close>

text \<open>
  Pushing the words of a list one after the other; every sequence of pushes of the stubs is one.
  Distances on the stack are measured modulo \<open>2 ^ 32\<close>, so nothing depends on where it lies.
\<close>

fun stack_words :: "u32 \<Rightarrow> u32 list \<Rightarrow> bytes \<Rightarrow> bytes" where
  "stack_words e [] m = m"
| "stack_words e (w # ws) m = stack_words (e - 4) ws (write32 (e - 4) w m)"

lemma write32_far:
  assumes "4 \<le> unat (b - a)"
  shows "write32 a v m b = m b"
proof -
  have "b \<noteq> a + of_nat i" if "i < 4" for i
    using assms that by (auto simp: unat_of_nat take_bit_eq_mod)
  from this [of 0] this [of 1] this [of 2] this [of 3] show ?thesis by (intro write32_outside) auto
qed

lemma read32_ext:
  assumes "\<And>i. i < 4 \<Longrightarrow> m (a + of_nat i) = m' (a + of_nat i)"
  shows "read32 m a = read32 m' a"
  using assms [of 0] assms [of 1] assms [of 2] assms [of 3] by (simp add: read32_def)

lemma unat_add_small: "unat (a :: u32) + n < 4294967296 \<Longrightarrow> unat (a + of_nat n) = unat a + n"
  by (simp add: unat_word_ariths unat_of_nat take_bit_eq_mod)

text \<open>Bytes at or above the old stack pointer keep their values.\<close>

lemma stack_words_byte:
  assumes "unat (a - e) + 4 * length ws < 4294967296"
  shows "stack_words e ws m a = m a"
  using assms
proof (induction ws arbitrary: e m)
  case (Cons w ws)
  have d: "unat (a - (e - 4)) = unat (a - e) + 4"
    using unat_add_small [of "a - e" 4] Cons.prems by (simp add: algebra_simps)
  then have "stack_words (e - 4) ws (write32 (e - 4) w m) a = write32 (e - 4) w m a"
    using Cons.prems by (intro Cons.IH) simp
  then show ?case using d by (simp add: write32_far)
qed simp

lemma stack_words_above:
  assumes "unat (a - e) + 4 * length ws + 3 < 4294967296"
  shows "read32 (stack_words e ws m) a = read32 m a"
proof (intro read32_ext stack_words_byte)
  fix i :: nat assume "i < 4"
  then have "unat (a - e + of_nat i) = unat (a - e) + i" using assms by (intro unat_add_small) simp
  then show "unat (a + of_nat i - e) + 4 * length ws < 4294967296"
    using assms \<open>i < 4\<close> by (simp add: algebra_simps)
qed

lemma stack_words_nth:
  assumes "i < length ws" "4 * length ws + 3 < 4294967296"
  shows "read32 (stack_words e ws m) (e - 4 * of_nat (Suc i)) = ws ! i"
  using assms
proof (induction ws arbitrary: e m i)
  case (Cons w ws)
  show ?case
  proof (cases i)
    case 0
    then show ?thesis using Cons.prems stack_words_above [of "e - 4" "e - 4" ws] by simp
  next
    case (Suc j)
    have "e - 4 * of_nat (Suc i) = (e - 4) - 4 * of_nat (Suc j)" using Suc by (simp add: algebra_simps)
    then show ?thesis using Cons.IH [of j "e - 4"] Cons.prems Suc by (simp only: stack_words.simps nth_Cons_Suc) simp
  qed
qed simp

text \<open>What the callee leaves in its own frame is invisible above it.\<close>

lemma below_byte:
  assumes "unat (a - sp) + n < 4294967296"
  shows "below n junk sp m a = m a"
proof -
  have "unat ((a - sp) + of_nat (unat (sp - a))) = 0" by simp
  then have "0 < unat (sp - a) \<Longrightarrow> n < unat (sp - a)"
    using unat_add_small [of "a - sp" "unat (sp - a)"] assms by fastforce
  then show ?thesis by (auto simp: below_def)
qed

lemma below_above:
  assumes "unat (a - sp) + n + 4 < 4294967296"
  shows "read32 (below n junk sp m) a = read32 m a"
proof (intro read32_ext below_byte)
  fix i :: nat assume "i < 4"
  then have "unat (a - sp + of_nat i) = unat (a - sp) + i" using assms by (intro unat_add_small) simp
  then show "unat (a + of_nat i - sp) + n < 4294967296" using assms \<open>i < 4\<close> by (simp add: algebra_simps)
qed

lemma stack_words_snoc:
  "stack_words e (ws @ [w]) m = write32 (e - 4 * of_nat (Suc (length ws))) w (stack_words e ws m)"
  by (induction ws arbitrary: e m) (simp_all add: algebra_simps)

text \<open>The words \<open>ws\<close> lie below the address \<open>e\<close>, in the order in which they were pushed.\<close>

definition holds :: "u32 \<Rightarrow> u32 list \<Rightarrow> bytes \<Rightarrow> bool" where
  "holds e ws m \<longleftrightarrow> (\<forall>i < length ws. read32 m (e - 4 * of_nat (Suc i)) = ws ! i)"

lemma holdsD: "holds e ws m \<Longrightarrow> i < length ws \<Longrightarrow> read32 m (e - 4 * of_nat (Suc i)) = ws ! i"
  by (simp add: holds_def)

lemma holds_stack:
  assumes "4 * length (ws @ vs) + 3 < 4294967296"
  shows "holds e ws (stack_words e (ws @ vs) m)"
  unfolding holds_def using stack_words_nth [of _ "ws @ vs" e m] assms by (simp add: nth_append)

lemma unat_slot_diff:
  assumes "j \<le> i" "4 * i < 4294967296"
  shows "unat ((e - 4 * of_nat j) - (e - 4 * of_nat i) :: u32) = 4 * (i - j)"
proof -
  have "(e - 4 * of_nat j) - (e - 4 * of_nat i) = (of_nat (4 * (i - j)) :: u32)" using assms by (simp add: of_nat_diff algebra_simps)
  then show ?thesis using assms by (simp only: unat_of_nat take_bit_eq_mod) simp
qed

lemma holds_below:
  assumes "holds e ws m" "length ws \<le> l" "k + 4 * l + 4 < 4294967296"
  shows "holds e ws (below k junk (e - 4 * of_nat l) m)"
  unfolding holds_def
proof (intro allI impI)
  fix i assume i: "i < length ws"
  have "unat ((e - 4 * of_nat (Suc i)) - (e - 4 * of_nat l)) = 4 * (l - Suc i)"
    using assms i by (intro unat_slot_diff) auto
  then have "read32 (below k junk (e - 4 * of_nat l) m) (e - 4 * of_nat (Suc i)) = read32 m (e - 4 * of_nat (Suc i))"
    using assms(3) by (intro below_above) simp
  then show "read32 (below k junk (e - 4 * of_nat l) m) (e - 4 * of_nat (Suc i)) = ws ! i"
    using holdsD [OF assms(1) i] by simp
qed

lemma unat_opposite:
  assumes "a \<noteq> (b :: u32)"
  shows "4294967296 \<le> unat (a - b) + unat (b - a)"
proof (rule ccontr)
  assume "\<not> ?thesis"
  then have "unat ((a - b) + of_nat (unat (b - a))) = unat (a - b) + unat (b - a)" by (intro unat_add_small) simp
  then have "unat (a - b) = 0" by simp
  then show False using assms by (simp add: unat_eq_0)
qed

lemma read32_write32_far:
  assumes "4 \<le> unat (b - a)" "4 \<le> unat (a - b)"
  shows "read32 (write32 a v m) b = read32 m b"
proof -
  have ne: "b + of_nat i \<noteq> a + of_nat k" if "i < 4" "k < 4" for i k
  proof
    assume eq: "b + of_nat i = a + of_nat k"
    show False
    proof (cases "i \<le> k")
      case True
      then have "b - a = of_nat (k - i)" using eq by (simp add: of_nat_diff algebra_simps)
      then show False using assms(1) that by (simp add: unat_of_nat take_bit_eq_mod)
    next
      case False
      then have "a - b = of_nat (i - k)" using eq by (simp add: of_nat_diff algebra_simps)
      then show False using assms(2) that by (simp add: unat_of_nat take_bit_eq_mod)
    qed
  qed
  show ?thesis
  proof (rule read32_ext)
    fix i :: nat assume "i < 4"
    then show "write32 a v m (b + of_nat i) = m (b + of_nat i)"
      using ne [of i 0] ne [of i 1] ne [of i 2] ne [of i 3] by (intro write32_outside) auto
  qed
qed

lemma unat_slots_apart:
  assumes "i < j" "4 * (j - i) + 4 \<le> 4294967296" "4 * j < 4294967296"
  shows "4 \<le> unat ((e - 4 * of_nat i) - (e - 4 * of_nat j) :: u32) \<and> 4 \<le> unat ((e - 4 * of_nat j) - (e - 4 * of_nat i))"
proof -
  let ?x = "e - 4 * of_nat i" and ?y = "e - 4 * of_nat j"
  have d: "unat (?x - ?y) = 4 * (j - i)" using assms by (intro unat_slot_diff) auto
  then have "?x \<noteq> ?y" using assms(1) by force
  from unat_opposite [OF this] show ?thesis using d assms by simp
qed

lemma holds_write:
  assumes "holds e ws m" "j < length ws" "4 * length ws < 4294967296"
  shows "holds e (ws[j := v]) (write32 (e - 4 * of_nat (Suc j)) v m)"
  unfolding holds_def
proof (intro allI impI)
  fix i assume "i < length (ws[j := v])"
  then have i: "i < length ws" by simp
  show "read32 (write32 (e - 4 * of_nat (Suc j)) v m) (e - 4 * of_nat (Suc i)) = ws[j := v] ! i"
  proof (cases "i = j")
    case True
    then show ?thesis using i by simp
  next
    case False
    let ?a = "e - 4 * of_nat (Suc j)" and ?b = "e - 4 * of_nat (Suc i)"
    have "4 \<le> unat (?b - ?a) \<and> 4 \<le> unat (?a - ?b)"
    proof (cases "i < j")
      case True
      then show ?thesis using unat_slots_apart [of "Suc i" "Suc j" e] assms by simp
    next
      case False
      then have "j < i" using \<open>i \<noteq> j\<close> by simp
      then show ?thesis using unat_slots_apart [of "Suc j" "Suc i" e] i assms by simp
    qed
    then show ?thesis using holdsD [OF assms(1) i] False by (simp add: read32_write32_far)
  qed
qed

section \<open>The frame the stubs build\<close>

text \<open>From the interrupted instruction to the first instruction of the common stub.\<close>

definition vector_entry :: "u32 option \<Rightarrow> u8 \<Rightarrow> core \<Rightarrow> core" where
  "vector_entry code n x =
     (case code of None \<Rightarrow> ISR_NOERRCODE n (interrupt None x) | Some e \<Rightarrow> ISR_ERRCODE n (interrupt code x))"

definition selector_word :: "cpu \<Rightarrow> u32" where
  "selector_word c = (r_eax c AND 0xFFFF0000) OR ucast (r_ds c)"

definition frame_words :: "u32 option \<Rightarrow> u8 \<Rightarrow> cpu \<Rightarrow> u32 list" where
  "frame_words code n c = [r_eflags c, ucast (r_cs c), r_eip c, case code of None \<Rightarrow> 0 | Some e \<Rightarrow> e, scast n,
     r_eax c, r_ecx c, r_edx c, r_ebx c, r_esp c - 20, r_ebp c, r_esi c, r_edi c, selector_word c]"

lemmas core_defs = push_def stack_top_def drop_words_def upd_def pop_to_def pusha_def popa_def cli_flag_def sti_flag_def
  set_segments_def mov_ax_def interrupt_def iret_def ISR_NOERRCODE_def ISR_ERRCODE_def IRQ_def

lemma pop_pair [simp]: "pop_to g (c, m) = (g (read32 m (r_esp c)) (c\<lparr>r_esp := r_esp c + 4\<rparr>), m)"
  by (simp add: pop_to_def stack_top_def drop_words_def upd_def)

lemma upd_pair [simp]: "upd g (c, m) = (g c, m)"
  by (simp add: upd_def)

lemma drop_words_pair [simp]: "drop_words k (c, m) = (c\<lparr>r_esp := r_esp c + 4 * of_nat k\<rparr>, m)"
  by (simp add: drop_words_def)

lemmas leave_defs = popa_def sti_flag_def set_segments_def iret_def Let_def

lemma IRQ_eq: "IRQ n (interrupt None x) = vector_entry None n x"
  by (simp add: vector_entry_def IRQ_def ISR_NOERRCODE_def)

text \<open>Every gate has a stub, and the stub agrees with the processor about the error code.\<close>

lemma entry_stub_gate:
  assumes "n \<in> set gate_vectors" "code = (if error_code_vector n then Some e else None)"
  shows "\<exists>stub. entry_stub n = Some stub \<and> stub (interrupt code x) = vector_entry code n x"
  using assms by (auto simp: gate_vectors_def entry_stub_def error_code_vector_def vector_entry_def IRQ_def ISR_NOERRCODE_def)

lemma enter_memory:
  "snd (common_enter (vector_entry code n (c, m))) = stack_words (r_esp c) (frame_words code n c) m"
  by (cases code) (simp_all add: vector_entry_def core_defs common_enter_def frame_words_def selector_word_def Let_def)

lemma high_half: "(0xFFFF0000 :: u32) = NOT (mask 16)"
  by (simp add: mask_eq_exp_minus_1)

lemma low_half [simp]:
  "(ucast ((x AND 0xFFFF0000) OR ucast (v :: u16) :: u32) :: u16) = v"
  "((x AND 0xFFFF0000) OR ucast (v :: u16)) AND 0xFFFF0000 = (x AND 0xFFFF0000 :: u32)"
  unfolding high_half by (rule bit_eqI; auto simp: bit_simps dest: bit_imp_le_length)+

lemma enter_registers:
  "fst (common_enter (vector_entry code n (c, m))) = set_segments 0x10 (mov_ax 0x10 (cli_flag (c\<lparr>r_esp := r_esp c - 56\<rparr>)))"
proof -
  have "(ucast ((x AND 0xFFFF0000) OR 0x10 :: u32) :: u16) = 0x10" for x using low_half(1) [of x "0x10"] by simp
  then show ?thesis
    by (cases code) (simp_all add: vector_entry_def core_defs common_enter_def Let_def)
qed

lemma length_frame_words [simp]: "length (frame_words code n c) = 14"
  by (simp add: frame_words_def)

text \<open>The stack when the dispatcher starts, and how the stub reads it back after the call.\<close>

definition called_memory :: "u32 \<Rightarrow> u32 option \<Rightarrow> u8 \<Rightarrow> cpu \<Rightarrow> bytes \<Rightarrow> bytes" where
  "called_memory ret code n c m = stack_words (r_esp c) (frame_words code n c @ [ret]) m"

lemma call_state:
  "push ret (common_enter (vector_entry code n (c, m)))
     = (set_segments 0x10 (mov_ax 0x10 (cli_flag (c\<lparr>r_esp := r_esp c - 60\<rparr>))), called_memory ret code n c m)"
proof -
  have "push ret x = ((fst x)\<lparr>r_esp := r_esp (fst x) - 4\<rparr>, write32 (r_esp (fst x) - 4) ret (snd x))" for x
    by (simp add: push_def split_beta)
  then show ?thesis
    by (simp add: enter_registers enter_memory called_memory_def stack_words_snoc set_segments_def mov_ax_def cli_flag_def)
qed

abbreviation holds_frame :: "u32 option \<Rightarrow> u8 \<Rightarrow> cpu \<Rightarrow> bytes \<Rightarrow> bool" where
  "holds_frame code n c m \<equiv> holds (r_esp c) (frame_words code n c) m"

lemma called_memory_frame: "holds_frame code n c (called_memory ret code n c m)"
  unfolding called_memory_def by (rule holds_stack) simp

lemma below_frame:
  assumes "holds_frame code n c m" "k + 64 < 4294967296"
  shows "holds_frame code n c (below k junk (r_esp c - 60) m)"
  using holds_below [OF assms(1), of 15 k junk] assms(2) by simp

lemma frame_slots:
  assumes "holds_frame code n c m"
  shows "read32 m (r_esp c - 4) = r_eflags c" "read32 m (r_esp c - 8) = ucast (r_cs c)"
    "read32 m (r_esp c - 12) = r_eip c" "read32 m (r_esp c - 16) = (case code of None \<Rightarrow> 0 | Some e \<Rightarrow> e)"
    "read32 m (r_esp c - 20) = scast n" "read32 m (r_esp c - 24) = r_eax c" "read32 m (r_esp c - 28) = r_ecx c"
    "read32 m (r_esp c - 32) = r_edx c" "read32 m (r_esp c - 36) = r_ebx c" "read32 m (r_esp c - 40) = r_esp c - 20"
    "read32 m (r_esp c - 44) = r_ebp c" "read32 m (r_esp c - 48) = r_esi c" "read32 m (r_esp c - 52) = r_edi c"
    "read32 m (r_esp c - 56) = selector_word c"
proof -
  note slot = holdsD [OF assms]
  show "read32 m (r_esp c - 4) = r_eflags c" "read32 m (r_esp c - 8) = ucast (r_cs c)"
    "read32 m (r_esp c - 12) = r_eip c" "read32 m (r_esp c - 16) = (case code of None \<Rightarrow> 0 | Some e \<Rightarrow> e)"
    "read32 m (r_esp c - 20) = scast n" "read32 m (r_esp c - 24) = r_eax c" "read32 m (r_esp c - 28) = r_ecx c"
    using slot [of 0] slot [of 1] slot [of 2] slot [of 3] slot [of 4] slot [of 5] slot [of 6]
    by (simp_all add: frame_words_def)
  show "read32 m (r_esp c - 32) = r_edx c" "read32 m (r_esp c - 36) = r_ebx c" "read32 m (r_esp c - 40) = r_esp c - 20"
    "read32 m (r_esp c - 44) = r_ebp c" "read32 m (r_esp c - 48) = r_esi c" "read32 m (r_esp c - 52) = r_edi c"
    "read32 m (r_esp c - 56) = selector_word c"
    using slot [of 7] slot [of 8] slot [of 9] slot [of 10] slot [of 11] slot [of 12] slot [of 13]
    by (simp_all add: frame_words_def)
qed

text \<open>The instructions after the call undo those before it.\<close>

lemma leave_frame:
  assumes "holds_frame code n c m"
  shows "common_leave (d\<lparr>r_esp := r_esp c - 56\<rparr>, m)
    = (c\<lparr>r_es := r_ds c, r_fs := r_ds c, r_gs := r_ds c\<rparr>, m)"
proof -
  have "(ucast (ucast (r_cs c) :: u32) :: u16) = r_cs c" using low_half(1) [of 0 "r_cs c"] by simp
  then show ?thesis
    unfolding common_leave_def leave_defs
    by (simp add: frame_slots [OF assms] selector_word_def)
qed

section \<open>Dispatchers called from the stubs\<close>

text \<open>
  What the stubs need of the C function they call, besides the calling convention: it leaves the
  memory that holds the interrupted program's stack alone.
\<close>

locale neutral_dispatcher =
  fixes handler :: "interrupt_context \<Rightarrow> 'a memory_scheme \<Rightarrow> 'a memory_scheme outcome"
  assumes keeps_mem: "\<And>ctx s t. handler ctx s = Return t \<Longrightarrow> mem t = mem s"
begin

lemma stub_call:
  fixes c :: cpu and s :: "'a memory_scheme"
  assumes "m = called_memory ret code n c (mem s)" "(c1, m1) = vector_entry code n (c, mem s)"
  shows "common_stub handler f ret (c1, s\<lparr>mem := m1\<rparr>) =
    (case handler (read_context m (selector_word c)) (s\<lparr>mem := m\<rparr>) of
       Return t \<Rightarrow> (case common_leave (drop_words 1 (after_call f (set_segments 0x10 (mov_ax 0x10
           (cli_flag (c\<lparr>r_esp := r_esp c - 60\<rparr>))), m))) of (c2, m2) \<Rightarrow> Return (c2, t\<lparr>mem := m2\<rparr>))
     | Halted t \<Rightarrow> Halted (set_segments 0x10 (mov_ax 0x10 (cli_flag (c\<lparr>r_esp := r_esp c - 60\<rparr>))), t)
     | Diverges \<Rightarrow> Diverges | Undefined \<Rightarrow> Undefined)"
proof -
  have "read32 m (r_esp c - 56) = selector_word c"
    unfolding assms(1) by (rule frame_slots(14) [OF called_memory_frame])
  then show ?thesis
    using call_state [of ret code n c "mem s"] keeps_mem [of _ "s\<lparr>mem := m\<rparr>"] unfolding assms(2) [symmetric] assms(1) [symmetric]
    by (auto simp: common_stub_def set_segments_def mov_ax_def cli_flag_def split: outcome.splits)
qed

lemma stub_returns:
  fixes c :: cpu and s :: "'a memory_scheme"
  assumes "(c1, m1) = vector_entry code n (c, mem s)" "frame_size f + 64 < 4294967296"
    and ret: "common_stub handler f ret (c1, s\<lparr>mem := m1\<rparr>) = Return (d, t)"
  shows "d = c\<lparr>r_es := r_ds c, r_fs := r_ds c, r_gs := r_ds c\<rparr>"
    "unat (a - r_esp c) + 60 + frame_size f < 4294967296 \<Longrightarrow> mem t a = mem s a"
proof -
  define m where "m = called_memory ret code n c (mem s)"
  define x where "x = after_call f (set_segments 0x10 (mov_ax 0x10 (cli_flag (c\<lparr>r_esp := r_esp c - 60\<rparr>))), m)"
  define m2 where "m2 = below (frame_size f) (frame_bytes f) (r_esp c - 60) m"
  obtain u where "(case common_leave (drop_words 1 x) of (c2, m3) \<Rightarrow> Return (c2, u\<lparr>mem := m3\<rparr>)) = Return (d, t)"
    using ret stub_call [OF m_def assms(1), of f] unfolding x_def by (auto split: outcome.splits)
  moreover have "drop_words 1 x = ((fst (drop_words 1 x))\<lparr>r_esp := r_esp c - 56\<rparr>, m2)"
    by (simp add: x_def m2_def drop_words_def after_call_def set_segments_def mov_ax_def cli_flag_def)
  moreover have "holds_frame code n c m2"
    unfolding m2_def m_def using assms(2) by (intro below_frame called_memory_frame)
  ultimately have "Return (c\<lparr>r_es := r_ds c, r_fs := r_ds c, r_gs := r_ds c\<rparr>, u\<lparr>mem := m2\<rparr>) = Return (d, t)"
    using leave_frame [of c code n m2 "fst (drop_words 1 x)"] by simp
  then have r: "d = c\<lparr>r_es := r_ds c, r_fs := r_ds c, r_gs := r_ds c\<rparr>" "mem t = m2" by auto
  show "d = c\<lparr>r_es := r_ds c, r_fs := r_ds c, r_gs := r_ds c\<rparr>" by (rule r(1))
  assume a: "unat (a - r_esp c) + 60 + frame_size f < 4294967296"
  have "unat (a - (r_esp c - 60)) = unat (a - r_esp c) + 60"
    using unat_add_small [of "a - r_esp c" 60] a by (simp add: algebra_simps)
  then have "m2 a = m a" unfolding m2_def using a by (intro below_byte) simp
  also have "\<dots> = mem s a" unfolding m_def called_memory_def using a by (intro stack_words_byte) simp
  finally show "mem t a = mem s a" by (simp add: r(2))
qed

end

lemma timer_mem: "timer_handler ctx s = Return t \<Longrightarrow> mem t = mem s"
  by (auto dest!: timer_handler_only)

lemma run_handler_mem: "run_handler h ctx s = Return t \<Longrightarrow> mem t = mem s"
  by (cases h) (auto simp: divide_error_handler_def page_fault_handler_def general_protection_fault_handler_def
      keyboard_handler_def inb_def Let_def dest!: timer_handler_only keyboard_interrupt_only)

interpretation irq_dispatch: neutral_dispatcher "irq_handler run_handler"
  by unfold_locales (auto simp: irq_handler_def send_eoi_def outb_def Let_def dest!: run_handler_mem split: if_splits option.splits)

interpretation isr_dispatch: neutral_dispatcher "isr_handler run_handler"
  by unfold_locales (auto simp: isr_handler_def print_interrupt_info_def Let_def dest!: run_handler_mem split: if_splits option.splits)

section \<open>The system call entry and its summary\<close>

definition regs_of :: "cpu \<Rightarrow> syscall_params" where
  "regs_of c = \<lparr>eax = r_eax c, ebx = r_ebx c, ecx = r_ecx c, edx = r_edx c, esi = r_esi c, edi = r_edi c\<rparr>"

definition syscall_words :: "cpu \<Rightarrow> u32 list" where
  "syscall_words c = [r_eflags c, ucast (r_cs c), r_eip c, r_eax c, r_ebx c, r_ecx c, r_edx c, r_esi c, r_edi c, r_ebp c,
     ucast (r_ds c), ucast (r_es c), r_edi c, r_esi c, r_edx c, r_ecx c, r_ebx c, (r_eax c AND 0xFFFF0000) OR 0x10,
     r_esp c - 72]"

definition syscall_memory :: "u32 \<Rightarrow> cpu \<Rightarrow> bytes \<Rightarrow> bytes" where
  "syscall_memory ret c m = stack_words (r_esp c) (syscall_words c @ [ret]) m"

lemma syscall_call_state:
  assumes "(c', m') = push ret (syscall_enter (interrupt None (c, m)))"
  shows "m' = syscall_memory ret c m" "r_esp c' = r_esp c - 80" "r_fs c' = r_fs c" "r_gs c' = r_gs c"
  using assms by (simp_all add: core_defs syscall_enter_def syscall_memory_def syscall_words_def Let_def)

lemma syscall_memory_holds: "holds (r_esp c) (syscall_words c) (syscall_memory ret c m)"
  unfolding syscall_memory_def by (rule holds_stack) (simp add: syscall_words_def)

lemma syscall_params_read:
  assumes "holds (r_esp c) (syscall_words c) m"
  shows "read_params m (read32 m (r_esp c - 76)) = (regs_of c)\<lparr>eax := (r_eax c AND 0xFFFF0000) OR 0x10\<rparr>"
proof -
  note slot = holdsD [OF assms]
  show ?thesis
    using slot [of 12] slot [of 13] slot [of 14] slot [of 15] slot [of 16] slot [of 17] slot [of 18]
    by (simp add: syscall_words_def read_params_def regs_of_def)
qed

lemma syscall_leave_frame:
  assumes "holds (r_esp c) (syscall_words c) m" "r_esp d = r_esp c - 76" "r_eax d = v" "r_fs d = r_fs c" "r_gs d = r_gs c"
  shows "syscall_leave (d, m) = (c\<lparr>r_eax := v\<rparr>, write32 (r_esp c - 16) v m)"
proof -
  let ?m = "write32 (r_esp c - 16) v m"
  have ws: "holds (r_esp c) ((syscall_words c)[3 := v]) ?m"
    using holds_write [OF assms(1), of 3 v] by (simp add: syscall_words_def)
  note slot = holdsD [OF ws]
  have u: "(ucast (ucast w :: u32) :: u16) = w" for w using low_half(1) [of 0 w] by simp
  have r: "read32 ?m (r_esp c - 4) = r_eflags c" "read32 ?m (r_esp c - 8) = ucast (r_cs c)" "read32 ?m (r_esp c - 12) = r_eip c"
      "read32 ?m (r_esp c - 20) = r_ebx c" "read32 ?m (r_esp c - 24) = r_ecx c" "read32 ?m (r_esp c - 28) = r_edx c"
    using slot [of 0] slot [of 1] slot [of 2] slot [of 4] slot [of 5] slot [of 6] by (simp_all add: syscall_words_def)
  have r': "read32 ?m (r_esp c - 32) = r_esi c" "read32 ?m (r_esp c - 36) = r_edi c" "read32 ?m (r_esp c - 40) = r_ebp c"
      "read32 ?m (r_esp c - 44) = ucast (r_ds c)" "read32 ?m (r_esp c - 48) = ucast (r_es c)"
    using slot [of 7] slot [of 8] slot [of 9] slot [of 10] slot [of 11] by (simp_all add: syscall_words_def)
  show ?thesis
    using assms(2-) unfolding syscall_leave_def leave_defs by (simp add: r r' u)
qed

lemma syscall_stub_eq:
  fixes s :: "'a kernel_scheme"
  assumes entry: "(c1, m1) = interrupt None (c, mem s)" and small: "frame_size f + 84 < 4294967296"
    and m: "m = syscall_memory ret c (mem s)"
    and call: "syscall_entry (regs_of c) (s\<lparr>mem := m\<rparr>) = (result, t)" and neutral: "mem t = m"
  shows "\<exists>m'. syscall_stub f ret (c1, s\<lparr>mem := m1\<rparr>) = (c\<lparr>r_eax := result\<rparr>, t\<lparr>mem := m'\<rparr>)
    \<and> (\<forall>a. unat (a - r_esp c) + 80 + frame_size f < 4294967296 \<longrightarrow> m' a = mem s a)"
proof -
  obtain c' m'' where x: "(c', m'') = push ret (syscall_enter (interrupt None (c, mem s)))" by (metis surj_pair)
  note st = syscall_call_state [OF x]
  have m'': "m'' = m" using st(1) m by simp
  have held: "holds (r_esp c) (syscall_words c) m" unfolding m by (rule syscall_memory_holds)
  obtain r where r: "handle_syscall (read_params m (read32 m (r_esp c - 76))) (s\<lparr>mem := m\<rparr>) = (r, t)" "result = word_of_int r"
    using call unfolding syscall_entry_def Let_def syscall_params_read [OF held]
    by (auto simp: regs_of_def split: prod.splits)
  define b where "b = below (frame_size f) (frame_bytes f) (r_esp c - 80) m"
  define d where "d = c'\<lparr>r_eax := word_of_int r, r_ecx := left_ecx f, r_edx := left_edx f, r_esp := r_esp c - 76\<rparr>"
  have hb: "holds (r_esp c) (syscall_words c) b"
    using holds_below [OF held, of 20 "frame_size f" "frame_bytes f"] small unfolding b_def by (simp add: syscall_words_def)
  have dw: "drop_words 1 (upd (\<lambda>c. c\<lparr>r_eax := word_of_int r\<rparr>) (after_call f (c', m))) = (d, b)"
    using st(2) by (simp add: drop_words_def upd_def after_call_def d_def b_def)
  have leave: "syscall_leave (d, b) = (c\<lparr>r_eax := result\<rparr>, write32 (r_esp c - 16) result b)"
    using st(3,4) r(2) by (intro syscall_leave_frame [OF hb]) (simp_all add: d_def)
  have px: "push ret (syscall_enter (c1, m1)) = (c', m)" using x entry m'' by simp
  have esp: "r_esp c' + 4 = r_esp c - 76" using st(2) by simp
  have "syscall_stub f ret (c1, s\<lparr>mem := m1\<rparr>) = (c\<lparr>r_eax := result\<rparr>, t\<lparr>mem := write32 (r_esp c - 16) result b\<rparr>)"
    using dw leave r(1) by (simp add: syscall_stub_def px esp neutral)
  moreover have "write32 (r_esp c - 16) result b a = mem s a" if a: "unat (a - r_esp c) + 80 + frame_size f < 4294967296" for a
  proof -
    have "unat (a - (r_esp c - 80)) = unat (a - r_esp c) + 80" "unat (a - (r_esp c - 16)) = unat (a - r_esp c) + 16"
      using unat_add_small [of "a - r_esp c" 80] unat_add_small [of "a - r_esp c" 16] a by (simp_all add: algebra_simps)
    then have "write32 (r_esp c - 16) result b a = b a" "b a = m a"
      unfolding b_def using a by (auto intro!: write32_far below_byte)
    moreover have "m a = mem s a" unfolding m syscall_memory_def using a by (intro stack_words_byte) (simp add: syscall_words_def)
    ultimately show ?thesis by simp
  qed
  ultimately show ?thesis by blast
qed

section \<open>Properties of the entry code\<close>

definition idle_cpu :: cpu where
  "idle_cpu = \<lparr>r_eax = 0, r_ebx = 0, r_ecx = 0, r_edx = 0, r_esi = 0, r_edi = 0, r_ebp = 0, r_esp = 0x90000,
     r_eip = 0x1000, r_eflags = 0x202, r_cs = 8, r_ds = 0x10, r_es = 0x10, r_fs = 0x10, r_gs = 0x10\<rparr>"

definition empty_frame :: c_frame where
  "empty_frame = \<lparr>left_eax = 0, left_ecx = 0, left_edx = 0, frame_size = 0, frame_bytes = (\<lambda>a. 0)\<rparr>"

text \<open>
  C14: the stubs build a correct frame. Below the pushed selector word the stack holds exactly an
  \<open>interrupt_context_t\<close> of the interrupted program: all general registers, the vector number, the
  error code (0 for a vector without one), the return address, the code segment and the flags.
\<close>

theorem interrupt_frame_layout:
  assumes "n \<in> set gate_vectors" "code = (if error_code_vector n then Some e else None)"
    and "entry_stub n = Some stub" "(c', m') = common_enter (stub (interrupt code (c, m)))"
  shows "read_context m' (r_esp c' + 4) = \<lparr>ctx_edi = r_edi c, ctx_esi = r_esi c, ctx_ebp = r_ebp c, ctx_esp = r_esp c - 20,
     ctx_ebx = r_ebx c, ctx_edx = r_edx c, ctx_ecx = r_ecx c, ctx_eax = r_eax c, int_no = ucast n,
     err_code = (if error_code_vector n then e else 0), ctx_eip = r_eip c, ctx_cs = ucast (r_cs c),
     ctx_eflags = r_eflags c, ctx_useresp = read32 m (r_esp c), ctx_ss = read32 m (r_esp c + 4)\<rparr>"
proof -
  have "stub (interrupt code (c, m)) = vector_entry code n (c, m)" using entry_stub_gate [OF assms(1,2)] assms(3) by auto
  then have x: "common_enter (vector_entry code n (c, m)) = (c', m')" using assms(4) by simp
  have m': "m' = stack_words (r_esp c) (frame_words code n c) m" using enter_memory [of code n c m] x by simp
  have esp: "r_esp c' = r_esp c - 56"
    using enter_registers [of code n c m] x by (simp add: set_segments_def mov_ax_def cli_flag_def)
  have "holds_frame code n c m'" unfolding m' using holds_stack [of "frame_words code n c" "[]"] by simp
  note slots = frame_slots [OF this]
  have above: "read32 m' (r_esp c) = read32 m (r_esp c)" "read32 m' (r_esp c + 4) = read32 m (r_esp c + 4)"
    unfolding m' by (rule stack_words_above, simp)+
  have "(scast n :: u32) = ucast n" using assms(1) by (auto simp: gate_vectors_def)
  then show ?thesis by (simp add: read_context_def esp slots above add.commute [of 4] assms(2))
qed

theorem interrupt_frame_layout_witness:
  "int_no (read_context (snd (common_enter (ISR_ERRCODE 14 (interrupt (Some 2) (idle_cpu, \<lambda>a. 0))))) (0x90000 - 52)) = 14"
  (is "int_no (read_context (snd (common_enter (ISR_ERRCODE 14 (interrupt (Some 2) (?c, ?m))))) _) = 14")
proof -
  have "(14 :: u8) \<in> set gate_vectors" by (simp add: gate_vectors_def)
  moreover have "Some (2 :: u32) = (if error_code_vector 14 then Some 2 else None)" by (simp add: error_code_vector_def)
  moreover have "entry_stub 14 = Some (ISR_ERRCODE 14)" by (simp add: entry_stub_def)
  moreover have "r_esp (fst (common_enter (ISR_ERRCODE 14 (interrupt (Some 2) (?c, ?m))))) = 0x90000 - 56"
    using enter_registers [of "Some 2" 14 ?c ?m] by (simp add: vector_entry_def set_segments_def mov_ax_def cli_flag_def idle_cpu_def)
  ultimately show ?thesis
    using interrupt_frame_layout [of 14 "Some 2" 2 "ISR_ERRCODE 14" "fst (common_enter (ISR_ERRCODE 14 (interrupt (Some 2) (?c, ?m))))"
        "snd (common_enter (ISR_ERRCODE 14 (interrupt (Some 2) (?c, ?m))))" ?c ?m] by simp
qed

text \<open>
  C16: but the C dispatcher does not get it. The stubs push no pointer, so what \<open>irq_handler\<close> takes for
  its argument is the pushed selector word: the data segment selector under the high half of the
  interrupted \<open>eax\<close>. It is not the address of the frame unless their low halves agree, and the
  vector number the dispatcher reads is whatever word lies 32 bytes behind it, whichever
  interrupt arrived; when that word is no vector, the handler table is read out of bounds.
\<close>

theorem irq_context_pointer:
  fixes s :: "'a kernel_scheme"
  assumes "(c1, m1) = IRQ n (interrupt None (c, mem s))"
    and "p = (r_eax c AND 0xFFFF0000) OR ucast (r_ds c)"
    and "ucast (r_esp c - 52) \<noteq> r_ds c"
    and "unat (p + 32 - r_esp c) + 63 < 4294967296" "256 \<le> unat (read32 (mem s) (p + 32))"
  shows "p \<noteq> r_esp c - 52 \<and> irq_common_stub f ret (c1, s\<lparr>mem := m1\<rparr>) = Undefined"
proof -
  define m where "m = called_memory ret None n c (mem s)"
  have p: "selector_word c = p" by (simp add: selector_word_def assms(2))
  have "ucast p = r_ds c" by (simp add: assms(2))
  then have "p \<noteq> r_esp c - 52" using assms(3) by auto
  moreover have "read32 m (p + 32) = read32 (mem s) (p + 32)"
    unfolding m_def called_memory_def using assms(4) by (intro stack_words_above) simp
  then have "irq_handler run_handler (read_context m p) (s\<lparr>mem := m\<rparr>) = Undefined"
    using assms(5) by (simp add: irq_handler_def Let_def read_context_def IDT_SIZE_def)
  moreover have "(c1, m1) = vector_entry None n (c, mem s)" using assms(1) by (simp add: IRQ_eq)
  ultimately show ?thesis using irq_dispatch.stub_call [OF m_def] by (simp add: p irq_common_stub_def)
qed

theorem irq_context_pointer_witness:
  "irq_common_stub empty_frame 0x2000
     (fst (IRQ 32 (interrupt None (idle_cpu, \<lambda>a. 0xFF))),
      (power_on_kernel\<lparr>mem := \<lambda>a. 0xFF\<rparr>)\<lparr>mem := snd (IRQ 32 (interrupt None (idle_cpu, \<lambda>a. 0xFF)))\<rparr>) = Undefined"
proof -
  have "read32 (\<lambda>a. 0xFF) a = 0xFFFFFFFF" for a by (simp add: read32_def)
  then show ?thesis
    using irq_context_pointer [of "fst (IRQ 32 (interrupt None (idle_cpu, \<lambda>a. 0xFF)))" "snd (IRQ 32 (interrupt None (idle_cpu, \<lambda>a. 0xFF)))"
        32 idle_cpu "power_on_kernel\<lparr>mem := \<lambda>a. 0xFF\<rparr>" "0x10" empty_frame "0x2000"]
    by (simp add: idle_cpu_def)
qed

text \<open>
  C13: an interrupt is transparent to the interrupted program. When the dispatcher returns, the stub
  and \<open>iret\<close> give back every general register, the return address, the code segment and the flags,
  for every vector, with or without an error code, wherever the stack lies and whatever the C code
  left in the registers and the stack below; memory at and above the interrupted stack pointer is
  unchanged. Only \<open>es\<close>, \<open>fs\<close> and \<open>gs\<close> are replaced by the saved \<open>ds\<close>.
\<close>

theorem interrupt_transparent:
  fixes s :: "'a kernel_scheme"
  assumes "n \<in> set gate_vectors" "code = (if error_code_vector n then Some e else None)"
    and "entry_stub n = Some stub" "(c1, m1) = stub (interrupt code (c, mem s))"
    and small: "frame_size f + 64 < 4294967296"
    and ret: "irq_common_stub f ret (c1, s\<lparr>mem := m1\<rparr>) = Return (d, t)
      \<or> isr_common_stub f ret (c1, s\<lparr>mem := m1\<rparr>) = Return (d, t)"
  shows "d = c\<lparr>r_es := r_ds c, r_fs := r_ds c, r_gs := r_ds c\<rparr>
    \<and> (\<forall>a. unat (a - r_esp c) + 60 + frame_size f < 4294967296 \<longrightarrow> mem t a = mem s a)"
proof -
  have x: "(c1, m1) = vector_entry code n (c, mem s)" using entry_stub_gate [OF assms(1,2)] assms(3,4) by auto
  show ?thesis using ret unfolding irq_common_stub_def isr_common_stub_def
    using irq_dispatch.stub_returns [OF x small] isr_dispatch.stub_returns [OF x small] by blast
qed

theorem interrupt_transparent_witness:
  "\<exists>t. irq_common_stub empty_frame 0x2000
     (fst (IRQ 32 (interrupt None (idle_cpu, \<lambda>a. 0))), (power_on_kernel\<lparr>mem := \<lambda>a. 0\<rparr>)\<lparr>mem := snd (IRQ 32 (interrupt None (idle_cpu, \<lambda>a. 0)))\<rparr>)
     = Return (idle_cpu, t)"
proof -
  let ?x = "IRQ 32 (interrupt None (idle_cpu, \<lambda>a. 0))" and ?s = "power_on_kernel\<lparr>mem := \<lambda>a. 0\<rparr>"
  let ?m = "called_memory 0x2000 None 32 idle_cpu (\<lambda>a. 0)"
  have x: "(fst ?x, snd ?x) = IRQ 32 (interrupt None (idle_cpu, mem ?s))" by simp
  then have v: "(fst ?x, snd ?x) = vector_entry None 32 (idle_cpu, mem ?s)" by (simp add: IRQ_eq)
  have "read32 ?m 0x30 = 0" 
    unfolding called_memory_def using stack_words_above [of "0x30" "r_esp idle_cpu" "frame_words None 32 idle_cpu @ [0x2000]" "\<lambda>a. 0"]
    by (simp add: idle_cpu_def read32_def)
  then have "int_no (read_context ?m 0x10) = 0" by (simp add: read_context_def)
  moreover have "interrupt_handlers power_on_kernel = replicate 256 None" by (simp add: power_on_defs)
  ultimately have "\<exists>t. irq_handler run_handler (read_context ?m 0x10) (?s\<lparr>mem := ?m\<rparr>) = Return t"
    by (simp add: irq_handler_def send_eoi_def Let_def IDT_SIZE_def)
  moreover have "selector_word idle_cpu = 0x10" by (simp add: selector_word_def idle_cpu_def)
  ultimately obtain d t where "irq_common_stub empty_frame 0x2000 (fst ?x, ?s\<lparr>mem := snd ?x\<rparr>) = Return (d, t)"
    using irq_dispatch.stub_call [OF refl v, of empty_frame "0x2000"] by (auto simp: irq_common_stub_def split: prod.splits)
  moreover have "(32 :: u8) \<in> set gate_vectors" "entry_stub 32 = Some (IRQ 32)" "None = (if error_code_vector 32 then Some (0 :: u32) else None)"
    by (simp_all add: gate_vectors_def entry_stub_def error_code_vector_def)
  ultimately show ?thesis using interrupt_transparent [of 32 None 0 "IRQ 32", OF _ _ _ x, of empty_frame "0x2000" d t]
    by (auto simp: empty_frame_def idle_cpu_def)
qed

end
