(* ===== verification/User.thy ===== *)
theory User
  imports Entry
begin

text \<open>
  The calling side of the system calls: the macros \<open>SYSCALL0\<close> to \<open>SYSCALL3\<close> and the inline functions
  of \<open>kernel/syscall.h\<close>, and what the instruction \<open>int 0x80\<close> they consist of does with the
  descriptor table of the kernel.
\<close>

section \<open>The instruction\<close>

text \<open>
  The processor looks at descriptor 0x80. An entry that is no gate raises a general protection
  fault with the error code of that descriptor, a gate that is not present raises vector 11, and
  a present gate is entered at its offset: the instructions of \<open>syscall_entry\<close> when that is the address
  \<open>entry\<close> the linker gave them, and otherwise code outside the model. All of the kernel runs at
  privilege level 0, so the gate's privilege level plays no role. The processor finds the table
  through its register IDTR, which is taken to hold the address of the kernel's table.
\<close>

definition is_gate :: "idt_entry \<Rightarrow> bool" where
  "is_gate e \<longleftrightarrow> type_attr e AND 0x0F = 0x0E \<or> type_attr e AND 0x0F = 0x0F"

definition fault :: "u8 \<Rightarrow> u32 \<Rightarrow> c_frame \<Rightarrow> u32 \<Rightarrow> cpu \<times> 'a kernel_scheme \<Rightarrow> (cpu \<times> 'a kernel_scheme) outcome" where
  "fault n code f ret = (\<lambda>(c, s).
     let (c, m) = vector_entry (Some code) n (c, mem s)
     in isr_common_stub f ret (c, s\<lparr>mem := m\<rparr>))"

definition int80 :: "u32 \<Rightarrow> c_frame \<Rightarrow> u32 \<Rightarrow> cpu \<times> 'a kernel_scheme \<Rightarrow> (cpu \<times> 'a kernel_scheme) outcome" where
  "int80 entry f ret = (\<lambda>(c, s).
     let gate = idt s ! 0x80
     in if \<not> is_gate gate then fault 13 0x402 f ret (c, s)
        else if \<not> gate_present gate then fault 11 0x402 f ret (c, s)
        else if gate_offset gate \<noteq> entry then Undefined
        else let (c, m) = interrupt None (c, mem s)
             in Return (syscall_stub f ret (c, s\<lparr>mem := m\<rparr>)))"

section \<open>The macros and the wrappers\<close>

text \<open>
  A macro loads its arguments into the registers its assembly constraints name and executes the
  instruction, which is an argument here; its value is \<open>eax\<close> afterwards.
\<close>

type_synonym 'a trap = "cpu \<times> 'a kernel_scheme \<Rightarrow> (cpu \<times> 'a kernel_scheme) outcome"

definition SYSCALL0 :: "'a trap \<Rightarrow> int \<Rightarrow> 'a trap" where
  "SYSCALL0 trap num = (\<lambda>(c, s). trap (c\<lparr>r_eax := of_int num\<rparr>, s))"

definition SYSCALL1 :: "'a trap \<Rightarrow> int \<Rightarrow> u32 \<Rightarrow> 'a trap" where
  "SYSCALL1 trap num arg1 = (\<lambda>(c, s). trap (c\<lparr>r_eax := of_int num, r_ebx := arg1\<rparr>, s))"

definition SYSCALL2 :: "'a trap \<Rightarrow> int \<Rightarrow> u32 \<Rightarrow> u32 \<Rightarrow> 'a trap" where
  "SYSCALL2 trap num arg1 arg2 = (\<lambda>(c, s). trap (c\<lparr>r_eax := of_int num, r_ebx := arg1, r_ecx := arg2\<rparr>, s))"

definition SYSCALL3 :: "'a trap \<Rightarrow> int \<Rightarrow> u32 \<Rightarrow> u32 \<Rightarrow> u32 \<Rightarrow> 'a trap" where
  "SYSCALL3 trap num arg1 arg2 arg3 =
     (\<lambda>(c, s). trap (c\<lparr>r_eax := of_int num, r_ebx := arg1, r_ecx := arg2, r_edx := arg3\<rparr>, s))"

definition getpid :: "'a trap \<Rightarrow> 'a trap" where
  "getpid trap = SYSCALL0 trap SYS_GETPID"

definition getuid :: "'a trap \<Rightarrow> 'a trap" where
  "getuid trap = SYSCALL0 trap SYS_GETUID"

definition exit :: "'a trap \<Rightarrow> int \<Rightarrow> 'a trap" where
  "exit trap status = SYSCALL1 trap SYS_EXIT (of_int status)"

definition fork :: "'a trap \<Rightarrow> 'a trap" where
  "fork trap = SYSCALL0 trap SYS_FORK"

definition user_write :: "'a trap \<Rightarrow> int \<Rightarrow> u32 \<Rightarrow> int \<Rightarrow> 'a trap" where
  "user_write trap fd buf cnt = SYSCALL3 trap SYS_WRITE (of_int fd) buf (of_int cnt)"

definition user_read :: "'a trap \<Rightarrow> int \<Rightarrow> u32 \<Rightarrow> int \<Rightarrow> 'a trap" where
  "user_read trap fd buf cnt = SYSCALL3 trap SYS_READ (of_int fd) buf (of_int cnt)"

section \<open>The routines in assembly\<close>

text \<open>
  \<open>test_syscalls\<close> and \<open>syscall_print\<close> of \<open>kernel/syscall_asm.s\<close>, entered by \<open>call\<close>: the return address
  is on top of the stack, the argument of \<open>syscall_print\<close> above it. \<open>count_loop\<close> ends at a zero byte
  and does not return if there is none.
\<close>

definition call_frame :: "core \<Rightarrow> core" where
  "call_frame x = upd (\<lambda>c. c\<lparr>r_ebp := r_esp c\<rparr>) (push (r_ebp (fst x)) x)"

definition call_return :: "core \<Rightarrow> core" where
  "call_return x =
     (let x = upd (\<lambda>c. c\<lparr>r_esp := r_ebp c\<rparr>) x;
          x = pop_to (\<lambda>v c. c\<lparr>r_ebp := v\<rparr>) x
      in pop_to (\<lambda>v c. c\<lparr>r_eip := v\<rparr>) x)"

definition test_syscalls :: "'a trap \<Rightarrow> 'a trap" where
  "test_syscalls trap = (\<lambda>(c, s).
     let (c, m) = call_frame (c, mem s)
     in bind_outcome (trap (c\<lparr>r_eax := 20\<rparr>, s\<lparr>mem := m\<rparr>)) (\<lambda>(c, s).
        bind_outcome (trap (c\<lparr>r_eax := 24\<rparr>, s)) (\<lambda>(c, s).
        bind_outcome (trap (c\<lparr>r_eax := 13, r_ebx := 0\<rparr>, s)) (\<lambda>(c, s).
        let (c, m) = call_return (c, mem s) in Return (c, s\<lparr>mem := m\<rparr>)))))"

partial_function (option) count_loop :: "bytes \<Rightarrow> u32 \<Rightarrow> u32 \<Rightarrow> u32 option" where
  "count_loop m msg n = (if m (msg + n) = 0 then Some n else count_loop m msg (n + 1))"

definition syscall_print :: "'a trap \<Rightarrow> 'a trap" where
  "syscall_print trap = (\<lambda>(c, s).
     let x = call_frame (c, mem s);
         x = push (r_esi (fst x)) x;
         (c, m) = push (r_edi (fst x)) x;
         c = c\<lparr>r_esi := read32 m (r_ebp c + 8)\<rparr>
     in case count_loop m (r_esi c) 0 of
          None \<Rightarrow> Diverges
        | Some n \<Rightarrow>
            let c = c\<lparr>r_edi := n, r_eax := 4, r_ebx := 1, r_ecx := read32 m (r_ebp c + 8), r_edx := n\<rparr>
            in bind_outcome (trap (c, s\<lparr>mem := m\<rparr>)) (\<lambda>(c, s).
                 let x = pop_to (\<lambda>v c. c\<lparr>r_edi := v\<rparr>) (c, mem s);
                     x = pop_to (\<lambda>v c. c\<lparr>r_esi := v\<rparr>) x;
                     (c, m) = call_return x
                 in Return (c, s\<lparr>mem := m\<rparr>)))"

lemmas wrapper_defs = getpid_def getuid_def exit_def fork_def user_write_def user_read_def
  SYSCALL0_def SYSCALL1_def SYSCALL2_def SYSCALL3_def

lemmas number_defs = SYS_EXIT_def SYS_FORK_def SYS_READ_def SYS_WRITE_def SYS_GETPID_def SYS_GETUID_def

section \<open>Calls through the gate\<close>

text \<open>Two memories that agree on every byte at or above an address, up to the last \<open>n\<close> before the wrap-around.\<close>

definition same_above :: "nat \<Rightarrow> u32 \<Rightarrow> bytes \<Rightarrow> bytes \<Rightarrow> bool" where
  "same_above n sp m m' \<longleftrightarrow> (\<forall>a. unat (a - sp) + n < 4294967296 \<longrightarrow> m' a = m a)"

lemma same_above_read:
  assumes "same_above n sp m m'" "unat (a - sp) + n + 3 < 4294967296"
  shows "read32 m' a = read32 m a"
proof (rule read32_ext)
  fix i :: nat assume "i < 4"
  then have "unat (a - sp + of_nat i) = unat (a - sp) + i" using assms(2) by (intro unat_add_small) simp
  then show "m' (a + of_nat i) = m (a + of_nat i)"
    using assms \<open>i < 4\<close> by (simp add: same_above_def algebra_simps)
qed

definition count_failed :: "nat \<Rightarrow> 'a kernel_scheme \<Rightarrow> 'a kernel_scheme" where
  "count_failed k s = s\<lparr>sys_stats := (sys_stats s)\<lparr>total_calls := total_calls (sys_stats s) + of_nat k,
      failed_calls := failed_calls (sys_stats s) + of_nat k\<rparr>\<rparr>"

lemma count_failed_simps [simp]:
  "mem (count_failed k s) = mem s" "idt (count_failed k s) = idt s" "syscall_table (count_failed k s) = syscall_table s"
  "count_failed 0 s = s" "count_failed k (count_failed j s) = count_failed (j + k) s"
  "count_failed k (s\<lparr>mem := m\<rparr>) = (count_failed k s)\<lparr>mem := m\<rparr>"
  by (simp_all add: count_failed_def algebra_simps)

text \<open>A gate to \<open>syscall_entry\<close> is installed for vector 0x80, and the table has no handler for number 16.\<close>

definition gate_installed :: "u32 \<Rightarrow> c_frame \<Rightarrow> 'a kernel_scheme \<Rightarrow> bool" where
  "gate_installed entry f s \<longleftrightarrow> is_gate (idt s ! 0x80) \<and> gate_present (idt s ! 0x80)
     \<and> gate_offset (idt s ! 0x80) = entry \<and> syscall_table s ! 16 = None
     \<and> frame_size f + 100 < 4294967296"

lemma gate_installed_cong [simp]:
  "gate_installed entry f (s\<lparr>mem := m\<rparr>) = gate_installed entry f s" "gate_installed entry f (count_failed k s) = gate_installed entry f s"
  by (simp_all add: gate_installed_def)

lemma int80_fails:
  fixes s :: "'a kernel_scheme"
  assumes "is_gate (idt s ! 0x80)" "gate_present (idt s ! 0x80)" "gate_offset (idt s ! 0x80) = entry"
    "syscall_table s ! 16 = None" "frame_size f + 84 < 4294967296"
  shows "\<exists>m. int80 entry f ret (c, s) = Return (c\<lparr>r_eax := -1\<rparr>, (count_failed 1 s)\<lparr>mem := m\<rparr>)
    \<and> same_above (80 + frame_size f) (r_esp c) (mem s) m"
proof -
  obtain c1 m1 where x: "(c1, m1) = interrupt None (c, mem s)" by (metis surj_pair)
  define m where "m = syscall_memory ret c (mem s)"
  define t where "t = count_failed 1 (s\<lparr>mem := m\<rparr>)"
  have call: "syscall_entry (regs_of c) (s\<lparr>mem := m\<rparr>) = (-1, t)"
    using syscall_entry_fails [of "s\<lparr>mem := m\<rparr>"] assms(4) by (simp add: t_def count_failed_def)
  have "mem t = m" by (simp add: t_def)
  from syscall_stub_eq [OF x assms(5) m_def call this] obtain m' where
    m': "syscall_stub f ret (c1, s\<lparr>mem := m1\<rparr>) = (c\<lparr>r_eax := -1\<rparr>, t\<lparr>mem := m'\<rparr>)"
      "same_above (80 + frame_size f) (r_esp c) (mem s) m'" by (auto simp: same_above_def ac_simps)
  then have "int80 entry f ret (c, s) = Return (c\<lparr>r_eax := -1\<rparr>, t\<lparr>mem := m'\<rparr>)"
    using assms(1-3) by (simp add: int80_def x [symmetric])
  then show ?thesis using m'(2) by (intro exI [of _ m']) (simp add: t_def)
qed

lemma trap_fails:
  fixes s :: "'a kernel_scheme"
  assumes "gate_installed entry f s"
  obtains m where "int80 entry f ret (c, (count_failed k s)\<lparr>mem := m0\<rparr>) = Return (c\<lparr>r_eax := -1\<rparr>, (count_failed (Suc k) s)\<lparr>mem := m\<rparr>)"
    "same_above (80 + frame_size f) (r_esp c) m0 m"
  using int80_fails [of "(count_failed k s)\<lparr>mem := m0\<rparr>" entry f ret c] assms by (auto simp: gate_installed_def)

text \<open>
  C17: the assembly entry implements its summary. Entered by \<open>int 0x80\<close> with the registers \<open>c\<close>, the
  instructions of \<open>syscall_entry\<close> call \<open>handle_syscall\<close> with a parameter block on the stack that
  holds the registers as the summary \<open>syscall_entry\<close> passes them, return its result in \<open>eax\<close>, restore
  every other register, the flags and the return address, and leave memory at and above the
  caller's stack pointer as the call left it.
\<close>

theorem syscall_stub_refines:
  fixes s :: "'a kernel_scheme"
  assumes "(c1, m1) = interrupt None (c, mem s)" "frame_size f + 84 < 4294967296"
    and "m = syscall_memory ret c (mem s)"
    and "syscall_entry (regs_of c) (s\<lparr>mem := m\<rparr>) = (result, t)" "mem t = m"
  shows "\<exists>m'. syscall_stub f ret (c1, s\<lparr>mem := m1\<rparr>) = (c\<lparr>r_eax := result\<rparr>, t\<lparr>mem := m'\<rparr>)
    \<and> (\<forall>a. unat (a - r_esp c) + 80 + frame_size f < 4294967296 \<longrightarrow> m' a = mem s a)"
  by (rule syscall_stub_eq [OF assms])

theorem syscall_stub_refines_witness:
  "\<exists>t. syscall_stub empty_frame 0x2000 (fst (interrupt None (idle_cpu, \<lambda>a. 0)),
      (power_on_kernel\<lparr>mem := \<lambda>a. 0\<rparr>)\<lparr>mem := snd (interrupt None (idle_cpu, \<lambda>a. 0))\<rparr>) = (idle_cpu\<lparr>r_eax := -1\<rparr>, t)"
proof -
  let ?x = "interrupt None (idle_cpu, \<lambda>a. 0)" and ?s = "power_on_kernel\<lparr>mem := \<lambda>a. 0\<rparr>"
  let ?m = "syscall_memory 0x2000 idle_cpu (\<lambda>a. 0)"
  have x: "(fst ?x, snd ?x) = interrupt None (idle_cpu, mem ?s)" by simp
  have "syscall_table (?s\<lparr>mem := ?m\<rparr>) ! 16 = None" by simp
  note fails = syscall_entry_fails [OF this, of "regs_of idle_cpu"]
  show ?thesis
    using syscall_stub_refines [OF x _ _ fails, of empty_frame "0x2000"] by (auto simp: empty_frame_def)
qed

text \<open>
  Descriptor 0x80 stays as \<open>init_idt\<close> cleared it, and the handlers the dispatcher of faults can run make
  no system call.
\<close>

lemma no_gate_reachable:
  fixes s :: "'a kernel_scheme"
  assumes "zeroed_image s" "reachable l s (p, t)"
  shows "idt t ! 0x80 = clear_idt_entry 0x80"
proof -
  have "no_syscall_gate u" if "kernel_boot l s = Some u" for u
    using kernel_boot_ok [OF assms(1), of l] that by auto
  from gate_part.keep_reachable [OF this assms(2)] show ?thesis by (simp add: no_syscall_gate_def)
qed

lemma int80_cleared: "idt t ! 0x80 = clear_idt_entry 0x80 \<Longrightarrow> int80 entry f ret (c, t) = fault 13 0x402 f ret (c, t)"
  by (simp add: int80_def is_gate_def clear_idt_entry_def)

lemma run_handler_calls: "run_handler h ctx s = Return t \<Longrightarrow> sys_stats t = sys_stats s"
  by (cases h) (auto simp: divide_error_handler_def page_fault_handler_def general_protection_fault_handler_def
      keyboard_handler_def inb_def Let_def dest!: timer_handler_only keyboard_interrupt_only)

lemma isr_handler_calls: "isr_handler run_handler ctx s = Return t \<Longrightarrow> sys_stats t = sys_stats s"
  by (auto simp: isr_handler_def print_interrupt_info_def Let_def dest!: run_handler_calls split: if_splits option.splits)

lemma fault_returns:
  fixes s :: "'a kernel_scheme"
  assumes "fault n code f ret (c, s) = Return (d, t)" "frame_size f + 64 < 4294967296"
  shows "d = c\<lparr>r_es := r_ds c, r_fs := r_ds c, r_gs := r_ds c\<rparr>" "sys_stats t = sys_stats s"
proof -
  obtain c1 m1 where x: "(c1, m1) = vector_entry (Some code) n (c, mem s)" by (metis surj_pair)
  then have r: "common_stub (isr_handler run_handler) f ret (c1, s\<lparr>mem := m1\<rparr>) = Return (d, t)"
    using assms(1) by (simp add: fault_def isr_common_stub_def x [symmetric])
  then show "d = c\<lparr>r_es := r_ds c, r_fs := r_ds c, r_gs := r_ds c\<rparr>" by (rule isr_dispatch.stub_returns [OF x assms(2)])
  show "sys_stats t = sys_stats s"
    using r by (auto simp: common_stub_def Let_def dest!: isr_handler_calls split: prod.splits outcome.splits)
qed

text \<open>
  C18: a system call of a C program. In every state the booted kernel can reach, each of the six
  inline functions of \<open>kernel/syscall.h\<close> loads the number of its call into \<open>eax\<close> and its arguments, in
  order, into \<open>ebx\<close>, \<open>ecx\<close> and \<open>edx\<close>, and its \<open>int 0x80\<close> raises a general protection fault with
  these registers. If the handler of the fault returns, the program is back at the instruction
  that failed, with the registers it had loaded (\<open>eax\<close> holds the number of the call, and no result)
  except that \<open>es\<close>, \<open>fs\<close> and \<open>gs\<close> are those of \<open>ds\<close>, and no system call has been counted.
\<close>

theorem wrappers_fault:
  fixes s :: "'a kernel_scheme"
  assumes "zeroed_image s" "reachable l s (p, t)" "frame_size f + 64 < 4294967296"
    and "trap = int80 entry f ret"
    and "(w, d) \<in> {(getpid trap, c\<lparr>r_eax := 20\<rparr>), (getuid trap, c\<lparr>r_eax := 24\<rparr>),
      (exit trap status, c\<lparr>r_eax := 1, r_ebx := of_int status\<rparr>), (fork trap, c\<lparr>r_eax := 2\<rparr>),
      (user_write trap fd buf cnt, c\<lparr>r_eax := 4, r_ebx := of_int fd, r_ecx := buf, r_edx := of_int cnt\<rparr>),
      (user_read trap fd buf cnt, c\<lparr>r_eax := 3, r_ebx := of_int fd, r_ecx := buf, r_edx := of_int cnt\<rparr>)}"
  shows "w (c, t) = fault 13 0x402 f ret (d, t)
    \<and> (\<forall>e u. w (c, t) = Return (e, u) \<longrightarrow>
        e = d\<lparr>r_es := r_ds c, r_fs := r_ds c, r_gs := r_ds c\<rparr> \<and> sys_stats u = sys_stats t)"
proof -
  have "w (c, t) = trap (d, t)" "r_ds d = r_ds c"
    using assms(5) by (auto simp: wrapper_defs number_defs)
  then have w: "w (c, t) = fault 13 0x402 f ret (d, t)" "r_ds d = r_ds c"
    using int80_cleared [OF no_gate_reachable [OF assms(1,2)]] assms(4) by simp_all
  show ?thesis using fault_returns [OF _ assms(3), of 13 "0x402" ret d t, folded w(1)] unfolding w(2) by (intro conjI allI impI w(1))
qed

theorem wrappers_fault_witness:
  "\<exists>t. kernel_boot zero_link power_on_kernel = Some t
    \<and> user_write (int80 0x2100 empty_frame 0x2000) 1 0x5000 5 (idle_cpu, t)
      = fault 13 0x402 empty_frame 0x2000 (idle_cpu\<lparr>r_eax := 4, r_ebx := 1, r_ecx := 0x5000, r_edx := 5\<rparr>, t)"
proof -
  obtain t where t: "kernel_boot zero_link power_on_kernel = Some t" using kernel_boot_ok [OF power_on_zeroed] by blast
  from wrappers_fault [OF power_on_zeroed reachable.boot [OF t] _ refl, of empty_frame
      "user_write (int80 0x2100 empty_frame 0x2000) 1 0x5000 5" _ "0x2100" "0x2000" idle_cpu 0 1 "0x5000" 5] t
  show ?thesis by (auto simp: empty_frame_def)
qed

text \<open>
  C19: the gate is missing. In every state the booted kernel can reach, descriptor 0x80 is the
  cleared one, so \<open>int 0x80\<close> raises a general protection fault and never enters \<open>syscall_entry\<close>.
\<close>

theorem int80_faults:
  fixes s :: "'a kernel_scheme"
  assumes "zeroed_image s" "reachable l s (p, t)"
  shows "int80 entry f ret (c, t) = fault 13 0x402 f ret (c, t)"
  by (rule int80_cleared [OF no_gate_reachable [OF assms]])

theorem int80_faults_witness:
  "\<exists>t. kernel_boot zero_link power_on_kernel = Some t
    \<and> int80 0x2100 empty_frame 0x2000 (idle_cpu, t) = fault 13 0x402 empty_frame 0x2000 (idle_cpu, t)"
proof -
  obtain t where t: "kernel_boot zero_link power_on_kernel = Some t" using kernel_boot_ok [OF power_on_zeroed] by blast
  from int80_faults [OF power_on_zeroed reachable.boot [OF t]] t show ?thesis by blast
qed

section \<open>Calls with a gate\<close>

text \<open>
  What a gate alone would change: the six functions would return -1 whatever their arguments, because
  \<open>syscall_entry\<close> overwrites the number of the call, and change no state but two counters and stack memory.
\<close>

theorem wrappers_fail:
  fixes s :: "'a kernel_scheme"
  assumes "is_gate (idt s ! 0x80)" "gate_present (idt s ! 0x80)" "gate_offset (idt s ! 0x80) = entry"
    "syscall_table s ! 16 = None" "frame_size f + 84 < 4294967296"
    and "w \<in> {getpid (int80 entry f ret), getuid (int80 entry f ret), exit (int80 entry f ret) status, fork (int80 entry f ret),
      user_write (int80 entry f ret) fd buf cnt, user_read (int80 entry f ret) fd buf cnt}"
  shows "\<exists>d m. w (c, s) = Return (d, (count_failed 1 s)\<lparr>mem := m\<rparr>) \<and> sint (r_eax d) = -1"
proof -
  obtain e where "w (c, s) = int80 entry f ret (e, s)" using assms(6) by (auto simp: wrapper_defs)
  moreover obtain m where "int80 entry f ret (e, s) = Return (e\<lparr>r_eax := -1\<rparr>, (count_failed 1 s)\<lparr>mem := m\<rparr>)"
    using int80_fails [OF assms(1-5)] by blast
  ultimately show ?thesis by (intro exI [of _ "e\<lparr>r_eax := -1\<rparr>"] exI [of _ m]) simp
qed

definition gated_kernel :: kernel where
  "gated_kernel = init_syscalls (power_on_kernel\<lparr>idt := (idt power_on_kernel)[0x80 := gate_to 0x2100]\<rparr>)"

lemma gated_kernel_gate:
  "is_gate (idt gated_kernel ! 0x80)" "gate_present (idt gated_kernel ! 0x80)" "gate_offset (idt gated_kernel ! 0x80) = 0x2100"
  "syscall_table gated_kernel ! 16 = None"
proof -
  have "idt (init_syscalls s) = idt s" for s :: kernel using init_syscalls_only [of s] by auto
  moreover have "length (idt power_on_kernel) = 256" by (simp add: power_on_defs)
  ultimately have "idt gated_kernel ! 0x80 = gate_to 0x2100" by (simp add: gated_kernel_def)
  then show "is_gate (idt gated_kernel ! 0x80)" "gate_present (idt gated_kernel ! 0x80)" "gate_offset (idt gated_kernel ! 0x80) = 0x2100"
    by (simp_all add: is_gate_def) (simp add: gate_to_def INTERRUPT_GATE_def)
  show "syscall_table gated_kernel ! 16 = None" unfolding gated_kernel_def by (rule init_syscalls_16) simp
qed

section \<open>Calls from the assembly routines\<close>

lemma call_frame_eq [simp]:
  "call_frame (c, m) = (c\<lparr>r_esp := r_esp c - 4, r_ebp := r_esp c - 4\<rparr>, write32 (r_esp c - 4) (r_ebp c) m)"
  by (simp add: call_frame_def push_def)

lemma call_return_eq [simp]:
  "call_return (c, m) = (c\<lparr>r_esp := r_ebp c + 8, r_ebp := read32 m (r_ebp c), r_eip := read32 m (r_ebp c + 4)\<rparr>, m)"
  by (simp add: call_return_def Let_def)

text \<open>
  \<open>test_syscalls\<close> with a gate: its three calls fail, it returns to its caller, and of the registers it
  leaves -1 in \<open>eax\<close> and 0 in \<open>ebx\<close>. The C calling convention wants \<open>ebx\<close> kept.
\<close>

theorem test_syscalls_effect:
  fixes s :: "'a kernel_scheme"
  assumes "gate_installed entry f s"
  shows "\<exists>m. test_syscalls (int80 entry f ret) (c, s) =
    Return (c\<lparr>r_eax := -1, r_ebx := 0, r_esp := r_esp c + 4, r_eip := read32 (mem s) (r_esp c)\<rparr>, (count_failed 3 s)\<lparr>mem := m\<rparr>)"
proof -
  define m0 where "m0 = write32 (r_esp c - 4) (r_ebp c) (mem s)"
  define d where "d = c\<lparr>r_esp := r_esp c - 4, r_ebp := r_esp c - 4\<rparr>"
  let ?n = "80 + frame_size f"
  obtain m1 where 1: "int80 entry f ret (d\<lparr>r_eax := 20\<rparr>, (count_failed 0 s)\<lparr>mem := m0\<rparr>) =
        Return (d\<lparr>r_eax := 20\<rparr>\<lparr>r_eax := -1\<rparr>, (count_failed 1 s)\<lparr>mem := m1\<rparr>)"
      "same_above ?n (r_esp (d\<lparr>r_eax := 20\<rparr>)) m0 m1"
    unfolding One_nat_def by (rule trap_fails [OF assms])
  obtain m2 where 2: "int80 entry f ret (d\<lparr>r_eax := 24\<rparr>, (count_failed 1 s)\<lparr>mem := m1\<rparr>) =
        Return (d\<lparr>r_eax := 24\<rparr>\<lparr>r_eax := -1\<rparr>, (count_failed 2 s)\<lparr>mem := m2\<rparr>)"
      "same_above ?n (r_esp (d\<lparr>r_eax := 24\<rparr>)) m1 m2"
    unfolding Suc_1 [symmetric] by (rule trap_fails [OF assms])
  have three: "count_failed 3 s = count_failed (Suc 2) s" by simp
  let ?c = "d\<lparr>r_eax := 13, r_ebx := 0\<rparr>"
  obtain m3 where 3: "int80 entry f ret (?c, (count_failed 2 s)\<lparr>mem := m2\<rparr>) =
        Return (?c\<lparr>r_eax := -1\<rparr>, (count_failed 3 s)\<lparr>mem := m3\<rparr>)" "same_above ?n (r_esp ?c) m2 m3"
    unfolding three by (rule trap_fails [OF assms])
  have "same_above ?n (r_esp c - 4) m0 m3"
    using 1(2) 2(2) 3(2) by (simp add: d_def same_above_def)
  note kept = same_above_read [OF this]
  have "read32 m3 (r_esp c - 4) = r_ebp c" "read32 m3 (r_esp c) = read32 m0 (r_esp c)"
    using kept [of "r_esp c - 4"] kept [of "r_esp c"] assms by (simp_all add: m0_def gate_installed_def)
  moreover have "read32 m0 (r_esp c) = read32 (mem s) (r_esp c)"
    unfolding m0_def using stack_words_above [of "r_esp c" "r_esp c" "[r_ebp c]"] by simp
  ultimately show ?thesis
    using 1(1) 2(1) 3(1) by (intro exI [of _ m3]) (simp add: test_syscalls_def m0_def d_def)
qed

text \<open>The length loop ends at the first zero byte.\<close>

lemma count_loop_from:
  assumes "\<forall>i < k. m (msg + n + of_nat i) \<noteq> 0" "m (msg + n + of_nat k) = 0"
  shows "count_loop m msg n = Some (n + of_nat k)"
  using assms
proof (induction k arbitrary: n)
  case 0
  then show ?case by (simp add: count_loop.simps)
next
  case (Suc k)
  have "m (msg + n) \<noteq> 0" using Suc.prems(1) by force
  moreover have "\<forall>i < k. m (msg + (n + 1) + of_nat i) \<noteq> 0"
  proof (intro allI impI)
    fix i assume "i < k"
    then show "m (msg + (n + 1) + of_nat i) \<noteq> 0" using Suc.prems(1) [rule_format, of "Suc i"] by (simp add: algebra_simps)
  qed
  then have "count_loop m msg (n + 1) = Some (n + of_nat (Suc k))"
    using Suc.IH [of "n + 1"] Suc.prems(2) by (simp add: algebra_simps)
  ultimately show ?case by (simp add: count_loop.simps [of m msg n])
qed

text \<open>
  \<open>syscall_print\<close> with a gate: for a string that lies clear of the stack it computes the length and
  asks for \<open>SYS_WRITE\<close> with it, the call fails, nothing is printed, and \<open>ebx\<close> is left at 1.
\<close>

theorem syscall_print_effect:
  fixes s :: "'a kernel_scheme"
  assumes "gate_installed entry f s" "msg = read32 (mem s) (r_esp c + 4)"
    and "\<forall>i < k. mem s (msg + of_nat i) \<noteq> 0" "mem s (msg + of_nat k) = 0"
    and "\<forall>i \<le> k. unat (msg + of_nat i - r_esp c) + 12 < 4294967296"
  shows "\<exists>m. syscall_print (int80 entry f ret) (c, s) =
    Return (c\<lparr>r_eax := -1, r_ebx := 1, r_ecx := msg, r_edx := of_nat k, r_esp := r_esp c + 4, r_eip := read32 (mem s) (r_esp c)\<rparr>,
      (count_failed 1 s)\<lparr>mem := m\<rparr>)"
proof -
  let ?e = "r_esp c" and ?ws = "[r_ebp c, r_esi c, r_edi c]"
  define m0 where "m0 = stack_words ?e ?ws (mem s)"
  have byte: "m0 (msg + of_nat i) = mem s (msg + of_nat i)" if "i \<le> k" for i
    unfolding m0_def using assms(5) that by (intro stack_words_byte) simp
  have word: "read32 m0 ?e = read32 (mem s) ?e" "read32 m0 (?e + 4) = msg"
    unfolding m0_def using assms(2) stack_words_above [of ?e ?e ?ws] stack_words_above [of "?e + 4" ?e ?ws] by simp_all
  have len: "count_loop m0 msg 0 = Some (of_nat k)"
    using count_loop_from [of k m0 msg 0] assms(3,4) byte by simp
  define d where "d = c\<lparr>r_ebp := ?e - 4, r_esp := ?e - 12, r_esi := msg, r_edi := of_nat k, r_eax := 4, r_ebx := 1,
      r_ecx := msg, r_edx := of_nat k\<rparr>"
  have start: "write32 (?e - 12) (r_edi c) (write32 (?e - 8) (r_esi c) (write32 (?e - 4) (r_ebp c) (mem s))) = m0"
    by (simp add: m0_def)
  obtain m1 where 1: "int80 entry f ret (d, (count_failed 0 s)\<lparr>mem := m0\<rparr>) = Return (d\<lparr>r_eax := -1\<rparr>, (count_failed 1 s)\<lparr>mem := m1\<rparr>)"
      "same_above (80 + frame_size f) (r_esp d) m0 m1"
    unfolding One_nat_def by (rule trap_fails [OF assms(1)])
  then have "same_above (80 + frame_size f) (?e - 12) m0 m1" by (simp add: d_def)
  note kept = same_above_read [OF this] and slot = stack_words_nth [of _ ?ws ?e "mem s", folded m0_def]
  have "read32 m1 (?e - 12) = r_edi c" "read32 m1 (?e - 8) = r_esi c" "read32 m1 (?e - 4) = r_ebp c" "read32 m1 ?e = read32 (mem s) ?e"
    using kept [of "?e - 12"] kept [of "?e - 8"] kept [of "?e - 4"] kept [of ?e] slot [of 0] slot [of 1] slot [of 2] word(1) assms(1)
    by (simp_all add: gate_installed_def)
  moreover have "read32 m0 (4 + ?e) = msg" using word(2) by (simp add: add.commute)
  ultimately show ?thesis
    using 1(1) len by (intro exI [of _ m1]) (simp add: syscall_print_def push_def start d_def)
qed

text \<open>Both effects happen: with the gate of \<open>gated_kernel\<close>, the routines return with -1.\<close>

lemma gated_kernel_installed: "gate_installed 0x2100 empty_frame gated_kernel"
  using gated_kernel_gate by (simp add: gate_installed_def empty_frame_def)

theorem routines_fail:
  "\<exists>c t. test_syscalls (int80 0x2100 empty_frame 0x2000) (idle_cpu, gated_kernel) = Return (c, t) \<and> sint (r_eax c) = -1"
  "\<exists>c t. syscall_print (int80 0x2100 empty_frame 0x2000) (idle_cpu, gated_kernel\<lparr>mem := \<lambda>a. 0\<rparr>) = Return (c, t) \<and> sint (r_eax c) = -1"
proof -
  show "\<exists>c t. test_syscalls (int80 0x2100 empty_frame 0x2000) (idle_cpu, gated_kernel) = Return (c, t) \<and> sint (r_eax c) = -1"
    using test_syscalls_effect [OF gated_kernel_installed, of "0x2000" idle_cpu] by auto
  have "gate_installed 0x2100 empty_frame (gated_kernel\<lparr>mem := \<lambda>a. 0\<rparr>)" using gated_kernel_installed by simp
  from syscall_print_effect [OF this, of 0 idle_cpu 0 "0x2000"]
  show "\<exists>c t. syscall_print (int80 0x2100 empty_frame 0x2000) (idle_cpu, gated_kernel\<lparr>mem := \<lambda>a. 0\<rparr>) = Return (c, t) \<and> sint (r_eax c) = -1"
    by (auto simp: read32_def idle_cpu_def)
qed

end
