(* ===== verification/Resume.thy ===== *)
theory Resume
  imports Prelude
begin

text \<open>
  Programs that can be interrupted. A program is a tree of atomic actions on a shared state: an
  action yields the new state and the rest of the program, or \<open>None\<close> when it does not return.
  Between two actions an environment may change the state. \<open>run\<close> executes a program alone,
  \<open>interleave\<close> in an environment, and \<open>sat\<close> is a rely-guarantee judgement: every assertion of its
  proof outline is stable under the environment, implies an invariant that holds at all times,
  and every action from a state that satisfies its assertion returns.
\<close>

section \<open>Programs\<close>

datatype ('s, 'a) prog = Ret 'a | Act "'s \<Rightarrow> ('s \<times> ('s, 'a) prog) option"

primrec seq :: "('s, 'a) prog \<Rightarrow> ('a \<Rightarrow> ('s, 'b) prog) \<Rightarrow> ('s, 'b) prog" where
  "seq (Ret a) k = k a"
| "seq (Act f) k = Act (\<lambda>s. map_option (map_prod id (\<lambda>p. seq p k)) (f s))"

primrec run :: "('s, 'a) prog \<Rightarrow> 's \<Rightarrow> ('a \<times> 's) option" where
  "run (Ret a) = (\<lambda>s. Some (a, s))"
| "run (Act f) = (\<lambda>s. case map_option (map_prod id run) (f s) of None \<Rightarrow> None | Some (t, g) \<Rightarrow> g t)"

text \<open>Reading, writing, and an operation that is not split further.\<close>

definition load :: "('s \<Rightarrow> 'a) \<Rightarrow> ('s, 'a) prog" where
  "load f = Act (\<lambda>s. Some (s, Ret (f s)))"

definition update :: "('s \<Rightarrow> 's) \<Rightarrow> ('s, unit) prog" where
  "update f = Act (\<lambda>s. Some (f s, Ret ()))"

definition attempt :: "('s \<Rightarrow> ('a \<times> 's) option) \<Rightarrow> ('s, 'a) prog" where
  "attempt f = Act (\<lambda>s. map_option (\<lambda>(a, t). (t, Ret a)) (f s))"

fun each :: "('b \<Rightarrow> ('s, unit) prog) \<Rightarrow> 'b list \<Rightarrow> ('s, unit) prog" where
  "each g [] = Ret ()"
| "each g (x # xs) = seq (g x) (\<lambda>_. each g xs)"

lemma run_seq: "run (seq p k) s = Option.bind (run p s) (\<lambda>(a, t). run (k a) t)"
proof (induction p arbitrary: s)
  case (Act f)
  show ?case
  proof (cases "f s")
    case (Some x)
    then show ?thesis using Act [of "Some x" x "snd x"] rangeI [of f s] by (cases x) auto
  qed simp
qed simp

lemma run_basic [simp]:
  "run (load f) s = Some (f s, s)"
  "run (update g) s = Some ((), g s)"
  "run (attempt h) s = h s"
  by (auto simp: load_def update_def attempt_def map_option_case split: option.splits)

lemma run_each:
  assumes "\<And>x s. run (g x) s = Some ((), h x s)"
  shows "run (each g xs) s = Some ((), fold h xs s)"
  using assms by (induction xs arbitrary: s) (simp_all add: run_seq)

section \<open>Interference\<close>

inductive interleave :: "('s \<Rightarrow> 's \<Rightarrow> bool) \<Rightarrow> ('s, 'a) prog \<times> 's \<Rightarrow> ('s, 'a) prog \<times> 's \<Rightarrow> bool" for E where
  own: "f s = Some (t, p) \<Longrightarrow> interleave E (Act f, s) (p, t)"
| env: "E s t \<Longrightarrow> interleave E (p, s) (p, t)"

inductive_cases interleaveE: "interleave E (p, s) (q, t)"

definition stable_under :: "('s \<Rightarrow> 's \<Rightarrow> bool) \<Rightarrow> ('s \<Rightarrow> bool) \<Rightarrow> bool" where
  "stable_under E P \<longleftrightarrow> (\<forall>s t. P s \<longrightarrow> E s t \<longrightarrow> P t)"

lemma stableI: "(\<And>s t. P s \<Longrightarrow> E s t \<Longrightarrow> P t) \<Longrightarrow> stable_under E P"
  by (auto simp: stable_under_def)

lemma stableD: "stable_under E P \<Longrightarrow> P s \<Longrightarrow> E s t \<Longrightarrow> P t"
  by (auto simp: stable_under_def)

lemma stable_conj: "stable_under E P \<Longrightarrow> stable_under E Q \<Longrightarrow> stable_under E (\<lambda>s. P s \<and> Q s)"
  by (auto simp: stable_under_def)

lemma stable_const [simp]: "stable_under E (\<lambda>s. c)"
  by (simp add: stable_under_def)

inductive sat :: "('s \<Rightarrow> 's \<Rightarrow> bool) \<Rightarrow> ('s \<Rightarrow> bool) \<Rightarrow> ('a \<Rightarrow> 's \<Rightarrow> bool) \<Rightarrow> ('s \<Rightarrow> bool) \<Rightarrow> ('s, 'a) prog \<Rightarrow> bool"
  for E J and Q :: "'a \<Rightarrow> 's \<Rightarrow> bool" where
  ret: "stable_under E P \<Longrightarrow> (\<And>s. P s \<Longrightarrow> J s) \<Longrightarrow> (\<And>s. P s \<Longrightarrow> Q a s) \<Longrightarrow> sat E J Q P (Ret a)"
| act: "stable_under E P \<Longrightarrow> (\<And>s. P s \<Longrightarrow> J s) \<Longrightarrow> (\<And>s. P s \<Longrightarrow> \<exists>t p R. f s = Some (t, p) \<and> R t \<and> sat E J Q R p)
    \<Longrightarrow> sat E J Q P (Act f)"

inductive_cases sat_RetE: "sat E J Q P (Ret a)"
inductive_cases sat_ActE: "sat E J Q P (Act f)"

lemma sat_stable: "sat E J Q P p \<Longrightarrow> stable_under E P"
  by (auto elim: sat.cases)

lemma sat_inv: "sat E J Q P p \<Longrightarrow> P s \<Longrightarrow> J s"
  by (auto elim: sat.cases)

lemma sat_pre:
  assumes "sat E J Q R p" "stable_under E P" "\<And>s. P s \<Longrightarrow> R s"
  shows "sat E J Q P p"
  using assms by (cases rule: sat.cases) (auto intro!: sat.intros)

lemma sat_post:
  assumes "sat E J R P p" "\<And>a s. R a s \<Longrightarrow> Q a s"
  shows "sat E J Q P p"
  using assms(1) by (induction rule: sat.induct) (fastforce intro: sat.intros assms(2))+

lemma sat_seq:
  assumes "sat E J R P p" "\<And>a. sat E J Q (R a) (k a)"
  shows "sat E J Q P (seq p k)"
  using assms(1)
proof (induction rule: sat.induct)
  case (ret P a)
  then show ?case using sat_pre [OF assms(2)] by simp
next
  case (act P f)
  then show ?case by (fastforce intro!: sat.act)
qed

lemma sat_load:
  assumes "stable_under E P" "\<And>s. P s \<Longrightarrow> J s" "\<And>a. stable_under E (\<lambda>s. Q a s)" "\<And>a s. Q a s \<Longrightarrow> J s" "\<And>s. P s \<Longrightarrow> Q (f s) s"
  shows "sat E J Q P (load f)"
  unfolding load_def
proof (rule sat.act)
  fix s assume "P s"
  then show "\<exists>t p R. Some (s, Ret (f s)) = Some (t, p) \<and> R t \<and> sat E J Q R p"
    using assms(3-5) by (intro exI [of _ s] exI [of _ "Ret (f s)"] exI [of _ "Q (f s)"]) (auto intro: sat.ret)
qed (use assms in auto)

lemma sat_attempt:
  assumes "stable_under E P" "\<And>s. P s \<Longrightarrow> J s" "\<And>a. stable_under E (\<lambda>s. Q a s)" "\<And>a s. Q a s \<Longrightarrow> J s"
    "\<And>s. P s \<Longrightarrow> \<exists>a t. h s = Some (a, t) \<and> Q a t"
  shows "sat E J Q P (attempt h)"
  unfolding attempt_def
proof (rule sat.act)
  fix s assume "P s"
  then obtain a t where "h s = Some (a, t)" "Q a t" using assms(5) by blast
  then show "\<exists>t p R. map_option (\<lambda>(a, t). (t, Ret a)) (h s) = Some (t, p) \<and> R t \<and> sat E J Q R p"
    using assms(3,4) by (intro exI [of _ t] exI [of _ "Ret a"] exI [of _ "Q a"]) (auto intro: sat.ret)
qed (use assms in auto)

lemma sat_update:
  assumes "stable_under E P" "\<And>s. P s \<Longrightarrow> J s" "stable_under E Q" "\<And>s. Q s \<Longrightarrow> J s" "\<And>s. P s \<Longrightarrow> Q (g s)"
  shows "sat E J (\<lambda>_. Q) P (update g)"
proof -
  have "update g = attempt (\<lambda>s. Some ((), g s))" by (simp add: update_def attempt_def)
  then show ?thesis using sat_attempt [of E P J "\<lambda>_. Q" "\<lambda>s. Some ((), g s)"] assms by simp
qed

lemma sat_Ret: "stable_under E P \<Longrightarrow> (\<And>s. P s \<Longrightarrow> J s) \<Longrightarrow> (\<And>s. P s \<Longrightarrow> Q a s) \<Longrightarrow> sat E J Q P (Ret a)"
  by (rule sat.ret)

lemma sat_False [simp]: "sat E J Q (\<lambda>s. False) p"
  by (cases p) (auto intro: sat.intros)

lemma sat_Ex:
  assumes "\<And>x. sat E J Q (P x) p"
  shows "sat E J Q (\<lambda>s. \<exists>x. P x s) p"
proof -
  have st: "stable_under E (\<lambda>s. \<exists>x. P x s)" using sat_stable [OF assms] by (auto simp: stable_under_def)
  show ?thesis
  proof (cases p)
    case (Ret a)
    then show ?thesis using assms st by (auto intro!: sat.ret elim: sat_RetE)
  next
    case (Act f)
    have step: "\<exists>t q R. f s = Some (t, q) \<and> R t \<and> sat E J Q R q" if "P x s" for x s
      using assms [of x, unfolded Act]
    proof cases
      case act
      then show ?thesis using that by blast
    qed
    show ?thesis unfolding Act
    proof (rule sat.act [OF st])
      show "J s" if "\<exists>x. P x s" for s using sat_inv [OF assms] that by blast
      show "\<exists>t q R. f s = Some (t, q) \<and> R t \<and> sat E J Q R q" if "\<exists>x. P x s" for s using step that by blast
    qed
  qed
qed

lemma sat_each:
  assumes "stable_under E P" "\<And>s. P s \<Longrightarrow> J s" "\<And>x. x \<in> set xs \<Longrightarrow> sat E J (\<lambda>_. P) P (g x)"
  shows "sat E J (\<lambda>_. P) P (each g xs)"
  using assms(3)
proof (induction xs)
  case Nil
  then show ?case using assms(1,2) by (simp add: sat_Ret)
next
  case (Cons x xs)
  then show ?case using sat_seq [of E J "\<lambda>_. P" P "g x"] by simp
qed

section \<open>Soundness\<close>

text \<open>A configuration is fit when an outline of its program has an assertion the state satisfies.\<close>

definition fit :: "('s \<Rightarrow> 's \<Rightarrow> bool) \<Rightarrow> ('s \<Rightarrow> bool) \<Rightarrow> ('a \<Rightarrow> 's \<Rightarrow> bool) \<Rightarrow> ('s, 'a) prog \<times> 's \<Rightarrow> bool" where
  "fit E J Q = (\<lambda>(p, s). \<exists>P. sat E J Q P p \<and> P s)"

lemma fit_step: "interleave E x y \<Longrightarrow> fit E J Q x \<Longrightarrow> fit E J Q y"
proof (induction rule: interleave.induct)
  case (own f s t p)
  then show ?case by (fastforce simp: fit_def elim: sat_ActE)
next
  case (env s t p)
  then show ?case using sat_stable stableD unfolding fit_def by fastforce
qed

lemma fit_steps: "(interleave E)\<^sup>*\<^sup>* x y \<Longrightarrow> fit E J Q x \<Longrightarrow> fit E J Q y"
  by (induction rule: rtranclp_induct) (auto intro: fit_step)

lemma fit_inv: "fit E J Q (p, s) \<Longrightarrow> J s"
  by (auto simp: fit_def dest: sat_inv)

lemma fit_Ret: "fit E J Q (Ret a, s) \<Longrightarrow> Q a s"
  by (auto simp: fit_def elim: sat_RetE)

lemma fit_Act: "fit E J Q (Act f, s) \<Longrightarrow> \<exists>t p. f s = Some (t, p)"
  by (fastforce simp: fit_def elim: sat_ActE)

lemma fit_run:
  assumes "fit E J Q (p, s)"
  shows "\<exists>a t. run p s = Some (a, t) \<and> Q a t"
  using assms
proof (induction p arbitrary: s)
  case (Ret a)
  then show ?case using fit_Ret by fastforce
next
  case (Act f)
  from fit_Act [OF Act.prems] obtain t p where f: "f s = Some (t, p)" by blast
  then have "fit E J Q (p, t)" using fit_step [OF interleave.own Act.prems] by blast
  then show ?case using Act.IH [of "Some (t, p)" "(t, p)" p t] f by (auto simp: rangeI [of f s, unfolded f])
qed

text \<open>Without interference it takes its own actions one after the other.\<close>

lemma run_steps: "run p s = Some (a, t) \<Longrightarrow> (interleave E)\<^sup>*\<^sup>* (p, s) (Ret a, t)"
proof (induction p arbitrary: s)
  case (Act f)
  then obtain u q where f: "f s = Some (u, q)" and q: "run q u = Some (a, t)" by (auto split: option.splits)
  have "(interleave E)\<^sup>*\<^sup>* (q, u) (Ret a, t)"
    using Act.IH [of "f s" "(u, q)" q u] rangeI [of f s] f q by simp
  then show ?case using interleave.own [of f s u q E] f by (meson converse_rtranclp_into_rtranclp)
qed simp

lemma seq_step:
  assumes "interleave E (p, s) (q, t)"
  shows "interleave E (seq p k, s) (seq q k, t)"
  using assms by (elim interleaveE) (auto intro: interleave.intros)

lemma seq_steps:
  assumes "(interleave E)\<^sup>*\<^sup>* (p, s) (q, t)"
  shows "(interleave E)\<^sup>*\<^sup>* (seq p k, s) (seq q k, t)"
  using assms
proof (induction "(q, t)" arbitrary: q t rule: rtranclp_induct)
  case (step y)
  obtain r u where y: "y = (r, u)" by (cases y)
  from step(3) [OF y] seq_step [OF step(2) [unfolded y]] show ?case by (rule rtranclp.rtrancl_into_rtrancl)
qed simp

lemma seq_run:
  assumes "run p s = Some (a, t)"
  shows "(interleave E)\<^sup>*\<^sup>* (seq p k, s) (k a, t)"
  using seq_steps [OF run_steps [OF assms]] by simp

text \<open>A program has finitely many actions of its own, however it is interrupted.\<close>

lemma own_actions_end: "wf {(q, p :: ('s, 'a) prog). \<exists>f s t. p = Act f \<and> f s = Some (t, q)}"
proof (rule wfUNIVI)
  fix A :: "('s, 'a) prog \<Rightarrow> bool" and p
  assume step: "\<forall>p. (\<forall>q. (q, p) \<in> {(q, p). \<exists>f s t. p = Act f \<and> f s = Some (t, q)} \<longrightarrow> A q) \<longrightarrow> A p"
  show "A p"
  proof (induction p)
    case (Ret a)
    show ?case by (rule step [rule_format]) auto
  next
    case (Act f)
    have sub: "A q" if "f s = Some (t, q)" for s t q
      using Act [of "f s" "(t, q)" q] that rangeI [of f s] by simp
    show ?case by (rule step [rule_format]) (auto dest: sub)
  qed
qed

end
