(* ===== verification/Preempt.thy ===== *)
theory Preempt
  imports History Resume
begin

text \<open>
  The main program with interrupts between any two accesses to shared variables. The functions
  \<open>kernel_main\<close> calls after \<open>enable_interrupts()\<close> are given again as programs of theory \<open>Resume\<close>, one
  action per read or write of a variable an interrupt handler also uses; \<open>x++\<close> is a read and a
  write, as the compiler translates it without optimisation. The heap functions are one action
  each, because no handler touches the heap. Every program, run alone, is the function of the
  earlier theories.
\<close>

section \<open>Statements of the console\<close>

definition block :: "('s, unit) prog list \<Rightarrow> ('s, unit) prog" where
  "block ps = each id ps"

definition copy_cell_prog :: "nat \<Rightarrow> nat \<Rightarrow> ('a console_scheme, unit) prog" where
  "copy_cell_prog row col =
     seq (load (\<lambda>s. vga_buffer s ! nat (int row * VGA_WIDTH + int col))) (\<lambda>v.
     update (vga_store ((int row - 1) * VGA_WIDTH + int col) v))"

definition blank_cell_prog :: "nat \<Rightarrow> ('a console_scheme, unit) prog" where
  "blank_cell_prog col = update (vga_store ((VGA_HEIGHT - 1) * VGA_WIDTH + int col) (0x20 OR push_bit 8 7))"

definition scroll_screen_prog :: "('a console_scheme, unit) prog" where
  "scroll_screen_prog = block
     [each (\<lambda>row. each (copy_cell_prog row) [0..<nat VGA_WIDTH]) [1..<nat VGA_HEIGHT],
      each blank_cell_prog [0..<nat VGA_WIDTH],
      update (\<lambda>s. s\<lparr>cursor_y := VGA_HEIGHT - 1\<rparr>),
      update (\<lambda>s. s\<lparr>cursor_x := 0\<rparr>)]"

definition new_line_prog :: "('a console_scheme, unit) prog" where
  "new_line_prog = block
     [update (\<lambda>s. s\<lparr>cursor_x := 0\<rparr>),
      seq (load cursor_y) (\<lambda>y. update (\<lambda>s. s\<lparr>cursor_y := y + 1\<rparr>)),
      seq (load cursor_y) (\<lambda>y.
        if y \<ge> VGA_HEIGHT then block [update (\<lambda>s. s\<lparr>cursor_y := VGA_HEIGHT - 1\<rparr>), scroll_screen_prog]
        else Ret ())]"

definition print_char_prog :: "u8 \<Rightarrow> ('a console_scheme, unit) prog" where
  "print_char_prog c =
     (if c = 0x0A then new_line_prog
      else block
        [seq (load cursor_y) (\<lambda>y. seq (load cursor_x) (\<lambda>x.
           update (vga_store (y * VGA_WIDTH + x) (vga_cell c)))),
         seq (load cursor_x) (\<lambda>x. update (\<lambda>s. s\<lparr>cursor_x := x + 1\<rparr>)),
         seq (load cursor_x) (\<lambda>x. if x \<ge> VGA_WIDTH then new_line_prog else Ret ())])"

definition print_string_prog :: "cstring \<Rightarrow> ('a console_scheme, unit) prog" where
  "print_string_prog str = each print_char_prog (until_nul str)"

definition print_number_prog :: "u32 \<Rightarrow> ('a console_scheme, unit) prog" where
  "print_number_prog num =
     (if num = 0 then print_char_prog 0x30 else each print_char_prog (rev (number_digits num)))"

definition print_hex_prog :: "u32 \<Rightarrow> ('a console_scheme, unit) prog" where
  "print_hex_prog value = block [print_string_prog (cstr ''0x''), print_string_prog (hex_buffer value)]"

section \<open>Statements of the keyboard\<close>

text \<open>
  \<open>atomic\<close> says whether \<open>count--\<close> is one instruction or, as in the code without optimisation, a
  load and a store.
\<close>

definition decrement_count :: "bool \<Rightarrow> ('a keyboard_scheme, unit) prog" where
  "decrement_count atomic =
     (if atomic then update (\<lambda>s. s\<lparr>kb_buffer := (kb_buffer s)\<lparr>count := count (kb_buffer s) - 1\<rparr>\<rparr>)
      else seq (load (\<lambda>s. count (kb_buffer s))) (\<lambda>n.
           update (\<lambda>s. s\<lparr>kb_buffer := (kb_buffer s)\<lparr>count := n - 1\<rparr>\<rparr>)))"

definition keyboard_buffer_get_prog :: "bool \<Rightarrow> ('a keyboard_scheme, u8) prog" where
  "keyboard_buffer_get_prog atomic =
     seq (load keyboard_buffer_is_empty) (\<lambda>empty.
     if empty then Ret 0
     else seq (load (\<lambda>s. buffer (kb_buffer s) ! unat (tail (kb_buffer s)))) (\<lambda>c.
          seq (seq (load (\<lambda>s. tail (kb_buffer s))) (\<lambda>t.
            update (\<lambda>s. s\<lparr>kb_buffer := (kb_buffer s)\<lparr>tail := (t + 1) mod KEYBOARD_BUFFER_SIZE\<rparr>\<rparr>))) (\<lambda>_.
          seq (decrement_count atomic) (\<lambda>_. Ret c))))"

text \<open>\<open>keyboard_getchar\<close> waits while the buffer is empty; no action means that it is waiting.\<close>

definition keyboard_getchar_prog :: "bool \<Rightarrow> ('a keyboard_scheme, u8) prog" where
  "keyboard_getchar_prog atomic =
     seq (attempt (\<lambda>s. if keyboard_buffer_is_empty s then None else Some ((), s))) (\<lambda>_.
     keyboard_buffer_get_prog atomic)"

definition set_kb_state :: "(keyboard_state \<Rightarrow> keyboard_state) \<Rightarrow> ('a keyboard_scheme, unit) prog" where
  "set_kb_state f = update (\<lambda>s. s\<lparr>kb_state := f (kb_state s)\<rparr>)"

definition set_kb_buffer :: "(keyboard_buffer \<Rightarrow> keyboard_buffer) \<Rightarrow> ('a keyboard_scheme, unit) prog" where
  "set_kb_buffer f = update (\<lambda>s. s\<lparr>kb_buffer := f (kb_buffer s)\<rparr>)"

definition set_kb_stats :: "(keyboard_stats \<Rightarrow> keyboard_stats) \<Rightarrow> ('a keyboard_scheme, unit) prog" where
  "set_kb_stats f = update (\<lambda>s. s\<lparr>kb_stats := f (kb_stats s)\<rparr>)"

definition init_keyboard_prog :: "('a keyboard_scheme, unit) prog" where
  "init_keyboard_prog = block
     [set_kb_state (\<lambda>k. k\<lparr>shift_pressed := False\<rparr>), set_kb_state (\<lambda>k. k\<lparr>ctrl_pressed := False\<rparr>),
      set_kb_state (\<lambda>k. k\<lparr>alt_pressed := False\<rparr>), set_kb_state (\<lambda>k. k\<lparr>caps_lock := False\<rparr>),
      set_kb_state (\<lambda>k. k\<lparr>num_lock := False\<rparr>), set_kb_state (\<lambda>k. k\<lparr>scroll_lock := False\<rparr>),
      set_kb_buffer (\<lambda>b. b\<lparr>head := 0\<rparr>), set_kb_buffer (\<lambda>b. b\<lparr>tail := 0\<rparr>), set_kb_buffer (\<lambda>b. b\<lparr>count := 0\<rparr>),
      set_kb_stats (\<lambda>k. k\<lparr>total_keypresses := 0\<rparr>), set_kb_stats (\<lambda>k. k\<lparr>total_releases := 0\<rparr>),
      set_kb_stats (\<lambda>k. k\<lparr>special_keys := 0\<rparr>), set_kb_stats (\<lambda>k. k\<lparr>buffer_overflows := 0\<rparr>),
      set_kb_stats (\<lambda>k. k\<lparr>invalid_scancodes := 0\<rparr>),
      update (register_interrupt_handler 33 Keyboard_interrupt_handler),
      print_string_prog (cstr ''[KEYBOARD] Keyboard initialized'' @ [0x0A])]"

definition show_number :: "('a console_scheme \<Rightarrow> u32) \<Rightarrow> ('a console_scheme, unit) prog" where
  "show_number f = seq (load f) print_number_prog"

definition show_hex :: "('a console_scheme \<Rightarrow> u32) \<Rightarrow> ('a console_scheme, unit) prog" where
  "show_hex f = seq (load f) print_hex_prog"

definition show_flag :: "('a console_scheme \<Rightarrow> bool) \<Rightarrow> ('a console_scheme, unit) prog" where
  "show_flag f = seq (load f) (\<lambda>b. print_string_prog (on_off b))"

definition print_keyboard_stats_prog :: "('a keyboard_scheme, unit) prog" where
  "print_keyboard_stats_prog = block
     [print_string_prog (0x0A # cstr ''=== Keyboard Statistics ==='' @ [0x0A]),
      print_string_prog (cstr ''Total keypresses: ''), show_number (\<lambda>s. total_keypresses (kb_stats s)),
      print_string_prog (0x0A # cstr ''Total releases: ''), show_number (\<lambda>s. total_releases (kb_stats s)),
      print_string_prog (0x0A # cstr ''Special keys: ''), show_number (\<lambda>s. special_keys (kb_stats s)),
      print_string_prog (0x0A # cstr ''Buffer overflows: ''), show_number (\<lambda>s. buffer_overflows (kb_stats s)),
      print_string_prog (0x0A # cstr ''Invalid scancodes: ''), show_number (\<lambda>s. invalid_scancodes (kb_stats s)),
      print_string_prog (0x0A # cstr ''Buffer count: ''), show_number (\<lambda>s. count (kb_buffer s)),
      print_string_prog ([0x0A, 0x0A] @ cstr ''Keyboard state:'' @ [0x0A]),
      print_string_prog (cstr ''Shift: ''), show_flag (\<lambda>s. shift_pressed (kb_state s)),
      print_string_prog (cstr '' | Ctrl: ''), show_flag (\<lambda>s. ctrl_pressed (kb_state s)),
      print_string_prog (cstr '' | Alt: ''), show_flag (\<lambda>s. alt_pressed (kb_state s)),
      print_string_prog (0x0A # cstr ''Caps: ''), show_flag (\<lambda>s. caps_lock (kb_state s)),
      print_string_prog [0x0A]]"

section \<open>Statements of the main program\<close>

definition print_memory_info_prog :: "('a memory_scheme, unit) prog" where
  "print_memory_info_prog = block
     [print_string_prog (0x0A # cstr ''=== Memory Information ==='' @ [0x0A]),
      print_string_prog (cstr ''Total Memory: ''), show_hex (\<lambda>s. total_memory (manager s)),
      print_string_prog (cstr '' bytes'' @ [0x0A]),
      print_string_prog (cstr ''Free Memory: ''), show_hex (\<lambda>s. free_memory (manager s)),
      print_string_prog (cstr '' bytes'' @ [0x0A]),
      print_string_prog (cstr ''Used Memory: ''), show_hex (\<lambda>s. total_memory (manager s) - free_memory (manager s)),
      print_string_prog (cstr '' bytes'' @ [0x0A]),
      print_string_prog (cstr ''Total Pages: ''), show_hex (\<lambda>s. total_pages (manager s)), print_string_prog [0x0A],
      print_string_prog (cstr ''Free Pages: ''), show_hex (\<lambda>s. free_pages (manager s)), print_string_prog [0x0A],
      print_string_prog (cstr ''Used Pages: ''), show_hex (\<lambda>s. used_pages (manager s)), print_string_prog [0x0A],
      print_string_prog (cstr ''Allocations: ''), show_hex (\<lambda>s. total_allocations (mstats s)), print_string_prog [0x0A],
      print_string_prog (cstr ''Frees: ''), show_hex (\<lambda>s. total_frees (mstats s)), print_string_prog [0x0A]]"

definition heap_test_prog :: "('a kernel_scheme, u32) prog" where
  "heap_test_prog =
     seq (block [print_string_prog msg_kernel_145, print_string_prog (cstr ''hi'' @ [0x0A]),
        print_string_prog msg_kernel_147, print_string_prog msg_kernel_148, print_string_prog msg_kernel_151]) (\<lambda>_.
     seq (attempt (kmalloc 1024)) (\<lambda>ptr1.
     seq (attempt (kmalloc 2048)) (\<lambda>ptr2.
     seq (attempt (kmalloc 512)) (\<lambda>ptr3.
     seq (block [print_string_prog msg_kernel_158, print_memory_info_prog]) (\<lambda>_. Ret ptr2)))))"

definition heap_release_prog :: "u32 \<Rightarrow> ('a kernel_scheme, unit) prog" where
  "heap_release_prog ptr2 = block
     [attempt (\<lambda>s. map_option (Pair ()) (kfree ptr2 s)), print_string_prog msg_kernel_163, print_memory_info_prog]"

definition keyboard_setup_prog :: "('a kernel_scheme, unit) prog" where
  "keyboard_setup_prog = block
     [init_keyboard_prog, print_string_prog (0x0A # cstr ''=== Keyboard Test ==='' @ [0x0A]),
      print_string_prog (cstr ''Type some characters (press any key to continue):'' @ [0x0A])]"

definition echo_key_prog :: "bool \<Rightarrow> cstring \<Rightarrow> ('a kernel_scheme, unit) prog" where
  "echo_key_prog atomic label =
     seq (keyboard_getchar_prog atomic) (\<lambda>c.
     block [print_string_prog label, print_char_prog c, print_string_prog [0x0A]])"

definition keyboard_test_prog :: "bool \<Rightarrow> ('a kernel_scheme, unit) prog" where
  "keyboard_test_prog atomic =
     seq (load keyboard_has_input) (\<lambda>input.
     if input then echo_key_prog atomic (cstr ''You pressed: '')
     else print_string_prog (cstr ''Waiting for input...'' @ [0x0A]))"

definition statistics_prog :: "('a kernel_scheme, unit) prog" where
  "statistics_prog = block
     [print_keyboard_stats_prog, print_string_prog (0x0A # cstr ''=== System Ready ==='' @ [0x0A]),
      print_string_prog (cstr ''All Linux 0.01 inspired features initialized!'' @ [0x0A]),
      print_string_prog (cstr ''[DEBUG] Entering main loop...'' @ [0x0A])]"

text \<open>An iteration of the endless loop, up to its \<open>hlt\<close>; the instruction itself is the step from \<open>Main_hlt\<close> on.\<close>

definition main_loop_prog :: "bool \<Rightarrow> ('a kernel_scheme, unit) prog" where
  "main_loop_prog atomic =
     seq (load keyboard_has_input) (\<lambda>input. if input then echo_key_prog atomic (cstr ''Input: '') else Ret ())"

fun step_prog :: "bool \<Rightarrow> position \<Rightarrow> ('a kernel_scheme, position) prog" where
  "step_prog atomic Heap_test = seq heap_test_prog (\<lambda>p. Ret (Heap_release p))"
| "step_prog atomic (Heap_release p) = seq (heap_release_prog p) (\<lambda>_. Ret Keyboard_setup)"
| "step_prog atomic Keyboard_setup = seq keyboard_setup_prog (\<lambda>_. Ret (Keyboard_test 0))"
| "step_prog atomic (Keyboard_test i) =
     (if i < 5 then seq (keyboard_test_prog atomic) (\<lambda>_. Ret (Keyboard_test (i + 1))) else Ret Statistics)"
| "step_prog atomic Statistics = seq statistics_prog (\<lambda>_. Ret Main_loop)"
| "step_prog atomic Main_loop = seq (main_loop_prog atomic) (\<lambda>_. Ret Main_hlt)"
| "step_prog atomic Main_hlt = Ret Main_waiting"
| "step_prog atomic Main_waiting = Ret Main_waiting"

section \<open>Run alone, the programs are the functions\<close>

lemma run_block [simp]:
  "run (block []) s = Some ((), s)"
  "run (block (p # ps)) s = Option.bind (run p s) (\<lambda>(_, t). run (block ps) t)"
  by (simp_all add: block_def run_seq)

lemma run_scroll: "run scroll_screen_prog s = Some ((), scroll_screen s)"
proof -
  have cell: "run (copy_cell_prog row col) t = Some ((), copy_cell row col t)" "run (blank_cell_prog col) t = Some ((), blank_cell col t)"
    for row col and t :: "'a console_scheme"
    by (simp_all add: copy_cell_prog_def copy_cell_def blank_cell_prog_def blank_cell_def run_seq)
  have row: "run (each (copy_cell_prog row) [0..<nat VGA_WIDTH]) t = Some ((), copy_row row t)" for row and t :: "'a console_scheme"
    using run_each [of "copy_cell_prog row" "copy_cell row", OF cell(1)] by (simp add: copy_row_def)
  show ?thesis
    using run_each [of "\<lambda>row. each (copy_cell_prog row) [0..<nat VGA_WIDTH]" copy_row, OF row] run_each [of blank_cell_prog blank_cell, OF cell(2)]
    by (simp add: scroll_screen_prog_def scroll_screen_def Let_def)
qed

lemma run_new_line: "run new_line_prog s = Some ((), new_line s)"
  by (simp add: new_line_prog_def new_line_def run_seq run_scroll Let_def)

lemma run_print_char [simp]: "run (print_char_prog c) s = Some ((), print_char c s)"
  by (simp add: print_char_prog_def print_char_def run_seq run_new_line Let_def cell_index_def)

lemma run_print_chars [simp]: "run (each print_char_prog cs) s = Some ((), print_chars cs s)"
  using run_each [of print_char_prog print_char] by (simp add: print_chars_def)

lemma run_print [simp]:
  "run (print_string_prog str) s = Some ((), print_string str s)"
  "run (print_number_prog n) s = Some ((), print_number n s)"
  "run (print_hex_prog n) s = Some ((), print_hex n s)"
  by (simp_all add: print_string_prog_def print_string_def print_number_prog_def print_number_def print_hex_prog_def
      print_hex_def Let_def)

lemma run_show [simp]:
  "run (show_number f) s = Some ((), print_number (f s) s)"
  "run (show_hex f) s = Some ((), print_hex (f s) s)"
  "run (show_flag b) s = Some ((), print_string (on_off (b s)) s)"
  by (simp_all add: show_number_def show_hex_def show_flag_def run_seq)

lemma run_reports [simp]:
  "run print_keyboard_stats_prog s = Some ((), print_keyboard_stats s)"
  "run print_memory_info_prog t = Some ((), print_memory_info t)"
  by (simp_all add: print_keyboard_stats_prog_def print_keyboard_stats_def print_memory_info_prog_def print_memory_info_def
      Let_def)

lemma run_get [simp]: "run (keyboard_buffer_get_prog atomic) s = Some (keyboard_buffer_get s)"
  by (simp add: keyboard_buffer_get_prog_def keyboard_buffer_get_def decrement_count_def run_seq Let_def)

lemma run_getchar [simp]: "run (keyboard_getchar_prog atomic) s = keyboard_getchar s"
  by (simp add: keyboard_getchar_prog_def keyboard_getchar_def run_seq)

lemma run_init_keyboard [simp]: "run init_keyboard_prog s = Some ((), init_keyboard s)"
proof -
  have state: "k\<lparr>shift_pressed := False, ctrl_pressed := False, alt_pressed := False, caps_lock := False, num_lock := False,
      scroll_lock := False\<rparr> = \<lparr>shift_pressed = False, ctrl_pressed = False, alt_pressed = False, caps_lock = False,
      num_lock = False, scroll_lock = False\<rparr>" for k :: keyboard_state by (cases k) simp
  have stats: "k\<lparr>total_keypresses := 0, total_releases := 0, special_keys := 0, buffer_overflows := 0, invalid_scancodes := 0\<rparr>
      = \<lparr>total_keypresses = 0, total_releases = 0, special_keys = 0, buffer_overflows = 0, invalid_scancodes = 0\<rparr>"
    for k :: keyboard_stats by (cases k) simp
  show ?thesis
    by (simp add: state stats init_keyboard_prog_def init_keyboard_def set_kb_state_def set_kb_buffer_def set_kb_stats_def Let_def)
qed

lemma run_echo_key [simp]: "run (echo_key_prog atomic label) s = map_option (Pair ()) (echo_key label s)"
  by (simp add: echo_key_prog_def echo_key_def run_seq Let_def split: option.splits)

lemmas main_prog_defs = heap_test_prog_def heap_release_prog_def keyboard_setup_prog_def keyboard_test_prog_def
  statistics_prog_def main_loop_prog_def

lemma run_step_prog: "run (step_prog atomic p) s = main_step p s"
proof (cases p)
  case Heap_test
  then show ?thesis by (simp add: heap_test_prog_def heap_test_def run_seq Let_def map_option_bind o_def split_beta)
next
  case (Heap_release a)
  then show ?thesis by (cases "kfree a s") (simp_all add: heap_release_prog_def heap_release_def run_seq Let_def)
next
  case (Keyboard_test i)
  then show ?thesis
    by (cases "echo_key (cstr ''You pressed: '') s") (simp_all add: keyboard_test_prog_def keyboard_test_def run_seq)
next
  case Main_loop
  then show ?thesis
    by (cases "echo_key (cstr ''Input: '') s") (simp_all add: main_loop_prog_def main_loop_def run_seq)
qed (simp_all add: keyboard_setup_prog_def keyboard_setup_def statistics_prog_def statistics_def run_seq Let_def)

end
