(* ===== verification/Interference.thy ===== *)
theory Interference
  imports Preempt
begin

text \<open>
  What interrupts can do to the main program. The environment of the programs of theory \<open>Preempt\<close> is
  a hardware interrupt with any context. The assertions of the outlines are stable under it: the
  cursor stays within one column and one row of the screen while a character is printed, the
  ring buffer keeps the characters it holds while one is taken out, and no other invariant is
  ever suspended.
\<close>

section \<open>The environment\<close>

definition irq_env :: "'a kernel_scheme \<Rightarrow> 'a kernel_scheme \<Rightarrow> bool" where
  "irq_env s t \<longleftrightarrow> interrupt_flag s \<and> (\<exists>ctx. irq_handler run_handler ctx s = Return t)"

context interrupt_part
begin

lemma stable_irq: "stable_under irq_env I"
  by (rule stableI) (auto simp: irq_env_def intro: keep_irq_handler)

end

text \<open>Assertions about the screen, and about the ring buffer.\<close>

locale screen_part =
  fixes I :: "'a kernel_scheme \<Rightarrow> bool"
  assumes screen_only: "\<And>s t. vga_buffer s = vga_buffer t \<Longrightarrow> cursor_x s = cursor_x t \<Longrightarrow> cursor_y s = cursor_y t
      \<Longrightarrow> stray_stores s = stray_stores t \<Longrightarrow> I s \<Longrightarrow> I t"
    and print_keeps: "\<And>s c. I s \<Longrightarrow> I (print_char c s)"

sublocale screen_part \<subseteq> interrupt_part I
proof
  fix s t :: "'a kernel_scheme" and ctx
  assume I: "I s"
  show "I (print_char c s)" for c by (rule print_keeps [OF I])
  show "I (outb p v s)" for p v by (rule screen_only [OF _ _ _ _ I]) (simp_all add: outb_def)
  show "I (s\<lparr>interrupt_count := v\<rparr>)" "I (s\<lparr>port_reads := w\<rparr>)" for v w by (rule screen_only [OF _ _ _ _ I]; simp)+
  show "I t" if timer: "timer_handler ctx s = Return t"
  proof -
    let ?s = "s\<lparr>tick_count := tick_count s + 1\<rparr>"
    have "I ?s" by (rule screen_only [OF _ _ _ _ I]) simp_all
    then have "I (print_char 0x2E ?s)" by (rule print_keeps)
    moreover obtain u ts c where t: "t = u\<lparr>tasks := ts, current_task := c\<rparr>" and "u = ?s \<or> u = print_char 0x2E ?s"
      using timer_handler_only [OF timer] by blast
    ultimately have "I u" using \<open>I ?s\<close> by blast
    then show ?thesis unfolding t by (rule screen_only [rotated 4]) simp_all
  qed
  show "I t" if "keyboard_interrupt_handler ctx s = Return t"
    using keyboard_interrupt_only [OF that] by (auto intro: screen_only [OF _ _ _ _ I])
qed

locale ring_part =
  fixes I :: "'a kernel_scheme \<Rightarrow> bool"
  assumes ring_only: "\<And>s t. kb_buffer s = kb_buffer t \<Longrightarrow> I s \<Longrightarrow> I t"
    and put_keeps: "\<And>s c. I s \<Longrightarrow> I (snd (keyboard_buffer_put c s))"
begin

lemma ring_kmalloc: "I s \<Longrightarrow> kmalloc n s = Some (p, t) \<Longrightarrow> I t"
  by (rule ring_only [rotated], assumption) (auto dest!: kmalloc_same simp: same_but_heap_def)

lemma ring_kfree: "I s \<Longrightarrow> kfree p s = Some t \<Longrightarrow> I t"
  by (rule ring_only [rotated], assumption) (auto dest!: kfree_same simp: same_but_heap_def)

lemma press_keeps: "I s \<Longrightarrow> I (handle_key_press sc s)"
proof -
  assume I: "I s"
  have "\<exists>c. kb_buffer (handle_key_press sc s) = kb_buffer (snd (keyboard_buffer_put c s))
      \<or> kb_buffer (handle_key_press sc s) = kb_buffer s"
    by (intro exI [of _ "scancode_to_ascii sc s"])
       (auto simp: handle_key_press_def handle_special_key_def Let_def split: prod.split)
  then show ?thesis using ring_only put_keeps [OF I] I by metis
qed

end

sublocale ring_part \<subseteq> interrupt_part I
proof
  fix s t :: "'a kernel_scheme" and ctx
  assume I: "I s"
  show "I (print_char c s)" for c by (rule ring_only [OF _ I]) simp
  show "I (outb p v s)" for p v by (rule ring_only [OF _ I]) simp
  show "I (s\<lparr>interrupt_count := v\<rparr>)" "I (s\<lparr>port_reads := w\<rparr>)" for v w by (rule ring_only [OF _ I]; simp)+
  show "I t" if "timer_handler ctx s = Return t"
    using timer_handler_only [OF that] by (auto intro!: ring_only [OF _ I])
  show "I t" if "keyboard_interrupt_handler ctx s = Return t"
  proof -
    let ?r = "snd (read_keyboard_data s)" and ?c = "fst (read_keyboard_data s) AND 0x7F"
    have r: "I (?r\<lparr>kb_stats := v\<rparr>)" for v by (rule ring_only [OF _ I]) (simp add: read_data_eq)
    have "I (handle_key_release ?c (?r\<lparr>kb_stats := v\<rparr>))" for v
      by (rule ring_only [OF _ r [of v]]) (simp add: handle_key_release_def Let_def)
    moreover have "I (outb p v u)" if "I u" for p v u by (rule ring_only [OF _ that]) simp
    ultimately show ?thesis
      using that press_keeps [OF r] by (auto simp: keyboard_interrupt_handler_def Let_def split_beta)
  qed
qed

section \<open>The cursor\<close>

text \<open>
  The cursor lies in a rectangle, the screen or one row or column more, and what has been stored outside the
  screen went to the 80 cells behind it.
\<close>

definition screen_bounds :: "int \<Rightarrow> int \<Rightarrow> 'a console_scheme \<Rightarrow> bool" where
  "screen_bounds right bottom s \<longleftrightarrow> length (vga_buffer s) = 2000
     \<and> list_all (\<lambda>(i, v). 2000 \<le> i \<and> i \<le> 2079) (stray_stores s)
     \<and> 0 \<le> cursor_x s \<and> cursor_x s \<le> right \<and> 0 \<le> cursor_y s \<and> cursor_y s \<le> bottom"

lemma console_inv_bounds: "console_inv s \<Longrightarrow> screen_bounds 79 24 s"
  by (simp add: console_inv_def screen_bounds_def)

lemma store_bounds: "screen_bounds r b s \<Longrightarrow> 0 \<le> i \<Longrightarrow> i \<le> 2079 \<Longrightarrow> screen_bounds r b (vga_store i v s)"
  by (auto simp: screen_bounds_def vga_store_def)

lemma new_line_bounds:
  "screen_bounds right 25 s \<Longrightarrow> screen_bounds 79 24 (new_line s)"
  by (simp add: screen_bounds_def new_line_def Let_def VGA_HEIGHT_def scroll_screen_eq)

text \<open>Where the cursor may be between two actions.\<close>

definition area :: "int \<Rightarrow> int \<Rightarrow> bool" where
  "area right bottom \<longleftrightarrow> (right, bottom) \<in> {(79, 24), (79, 25), (80, 24)}"

lemma area_simps [simp]: "area 79 24" "area 79 25" "area 80 24"
  by (simp_all add: area_def)

lemma area_cell: "area r b \<Longrightarrow> screen_bounds r b s \<Longrightarrow> 0 \<le> cell_index s \<and> cell_index s \<le> 2079"
  by (auto simp: area_def screen_bounds_def cell_index_def VGA_WIDTH_def)

lemma print_char_bounds:
  assumes "screen_bounds right bottom s" "area right bottom"
  shows "screen_bounds right bottom (print_char c s)"
proof -
  have nl: "screen_bounds right bottom (new_line t)" if "screen_bounds 81 25 t" for t :: "'a console_scheme"
    using new_line_bounds [OF that] assms(2) by (auto simp: screen_bounds_def area_def)
  have store: "screen_bounds right bottom (vga_store (cell_index s) (vga_cell c) s)"
    using area_cell [OF assms(2,1)] by (intro store_bounds [OF assms(1)]) simp_all
  show ?thesis
    using assms store nl [of s] nl [of "(vga_store (cell_index s) (vga_cell c) s)\<lparr>cursor_x := cursor_x s + 1\<rparr>"]
    by (auto simp: print_char_def Let_def VGA_WIDTH_def area_def screen_bounds_def)
qed

interpretation home_part: screen_part "screen_bounds 79 24"
  by unfold_locales (simp add: screen_bounds_def, rule print_char_bounds, simp_all)

interpretation wide_part: screen_part "screen_bounds 79 25"
  by unfold_locales (simp add: screen_bounds_def, rule print_char_bounds, simp_all)

interpretation long_part: screen_part "screen_bounds 80 24"
  by unfold_locales (simp add: screen_bounds_def, rule print_char_bounds, simp_all)

section \<open>The ring buffer\<close>

text \<open>All indices within the buffer.\<close>

definition kb_safe :: "'a keyboard_scheme \<Rightarrow> bool" where
  "kb_safe s \<longleftrightarrow> (let b = kb_buffer s in length (buffer b) = 256 \<and> unat (head b) < 256 \<and> unat (tail b) < 256
     \<and> unat (count b) \<le> 256)"

text \<open>The buffer begins with the given characters.\<close>

definition kb_front :: "u8 list \<Rightarrow> 'a keyboard_scheme \<Rightarrow> bool" where
  "kb_front xs s \<longleftrightarrow> (\<exists>ys. kb_rep s (xs @ ys))"

text \<open>As it is between the advance of \<open>tail\<close> and the decrement of \<open>count\<close>.\<close>

definition kb_mid :: "u8 list \<Rightarrow> 'a keyboard_scheme \<Rightarrow> bool" where
  "kb_mid xs s \<longleftrightarrow> count (kb_buffer s) \<noteq> 0 \<and> unat (count (kb_buffer s)) \<le> 256
     \<and> kb_front xs (s\<lparr>kb_buffer := (kb_buffer s)\<lparr>count := count (kb_buffer s) - 1\<rparr>\<rparr>)"

lemma kb_rep_safe: "kb_rep s xs \<Longrightarrow> kb_safe s"
  by (auto simp: kb_rep_def kb_safe_def Let_def)

lemma kb_front_safe: "kb_front xs s \<Longrightarrow> kb_safe s"
  by (auto simp: kb_front_def dest: kb_rep_safe)

lemma kb_mid_safe: "kb_mid xs s \<Longrightarrow> kb_safe s"
  using kb_front_safe [of xs "s\<lparr>kb_buffer := (kb_buffer s)\<lparr>count := count (kb_buffer s) - 1\<rparr>\<rparr>"]
  by (auto simp: kb_mid_def kb_safe_def Let_def)

lemma put_count:
  assumes "unat (count (kb_buffer s)) \<le> 256"
  shows "unat (count (kb_buffer (snd (keyboard_buffer_put c s)))) \<le> 256"
    "unat (count (kb_buffer s)) \<le> unat (count (kb_buffer (snd (keyboard_buffer_put c s))))"
  using assms by (auto simp: keyboard_buffer_put_def keyboard_buffer_is_full_def Let_def KEYBOARD_BUFFER_SIZE_def
      unat_word_ariths word_le_nat_alt)

lemma put_tail: "tail (kb_buffer (snd (keyboard_buffer_put c s))) = tail (kb_buffer s)"
  by (simp add: keyboard_buffer_put_def Let_def)

lemma put_safe: "kb_safe s \<Longrightarrow> kb_safe (snd (keyboard_buffer_put c s))"
  using put_count [of s c] put_tail [of c s] unat_advance [of "head (kb_buffer s)"]
  by (auto simp: kb_safe_def Let_def) (auto simp: keyboard_buffer_put_def Let_def)

lemma put_front:
  assumes "kb_front xs s"
  shows "kb_front xs (snd (keyboard_buffer_put c s))"
proof -
  obtain ys where rep: "kb_rep s (xs @ ys)" using assms by (auto simp: kb_front_def)
  have "length xs \<le> 256" using keyboard_queue.rep_cap [OF rep] by simp
  then show ?thesis using keyboard_queue.put_all_rep [OF rep, of "[c]"] by (auto simp: kb_front_def take_append)
qed

lemma put_mid:
  assumes "kb_mid xs s"
  shows "kb_mid xs (snd (keyboard_buffer_put c s))"
proof (cases "keyboard_buffer_is_full s")
  case True
  then show ?thesis using assms by (simp add: keyboard_buffer_put_def)
next
  case False
  let ?b = "kb_buffer s"
  let ?s = "s\<lparr>kb_buffer := ?b\<lparr>count := count ?b - 1\<rparr>\<rparr>"
  have n: "count ?b \<noteq> 0" "unat (count ?b) < 256"
    using assms False by (simp_all add: kb_mid_def keyboard_buffer_is_full_def KEYBOARD_BUFFER_SIZE_def word_le_nat_alt)
  then have "unat (count ?b - 1) < 256" by (simp add: unat_minus_one)
  then have "\<not> keyboard_buffer_is_full ?s"
    by (simp add: keyboard_buffer_is_full_def KEYBOARD_BUFFER_SIZE_def word_le_nat_alt)
  moreover have "kb_front xs (snd (keyboard_buffer_put c ?s))" using assms by (intro put_front) (simp add: kb_mid_def)
  ultimately have "kb_front xs (s\<lparr>kb_buffer := ?b\<lparr>buffer := (buffer ?b)[unat (head ?b) := c],
      head := (head ?b + 1) mod KEYBOARD_BUFFER_SIZE, count := count ?b\<rparr>\<rparr>)"
    by (simp add: keyboard_buffer_put_def Let_def)
  moreover have "unat (count ?b + 1) = unat (count ?b) + 1" using n by (simp add: unat_word_ariths)
  moreover from this have "count ?b + 1 \<noteq> 0" by (metis unat_0 add_is_0 one_neq_zero)
  ultimately show ?thesis using False n by (simp add: kb_mid_def keyboard_buffer_put_def Let_def)
qed

lemma kb_front_cong: "kb_buffer s = kb_buffer t \<Longrightarrow> kb_front xs s = kb_front xs t"
  using kb_rep_cong [of s t] by (simp add: kb_front_def)

interpretation safe_part: ring_part kb_safe
  by unfold_locales (simp add: kb_safe_def, rule put_safe)

interpretation front_part: ring_part "kb_front xs"
  by unfold_locales (use kb_front_cong in blast, rule put_front)

interpretation mid_part: ring_part "kb_mid xs"
proof
  fix s t :: "'a kernel_scheme"
  let ?less = "\<lambda>s. s\<lparr>kb_buffer := (kb_buffer s)\<lparr>count := count (kb_buffer s) - 1\<rparr>\<rparr>"
  assume eq: "kb_buffer s = kb_buffer t" and "kb_mid xs s"
  moreover have "kb_front xs (?less s) = kb_front xs (?less t)" by (rule kb_front_cong) (simp add: eq)
  ultimately show "kb_mid xs t" by (simp add: kb_mid_def)
qed (rule put_mid)

interpretation tail_part: ring_part "\<lambda>s. tail (kb_buffer s) = t"
  by unfold_locales (simp_all add: put_tail)

text \<open>The number of characters, at least: interrupts only add.\<close>

interpretation count_part: ring_part "\<lambda>s. kb_safe s \<and> n \<le> unat (count (kb_buffer s))"
proof
  fix s :: "'a kernel_scheme" and c
  assume s: "kb_safe s \<and> n \<le> unat (count (kb_buffer s))"
  then have "unat (count (kb_buffer s)) \<le> 256" by (simp add: kb_safe_def Let_def)
  then show "kb_safe (snd (keyboard_buffer_put c s)) \<and> n \<le> unat (count (kb_buffer (snd (keyboard_buffer_put c s))))"
    using s put_safe [of s c] put_count(2) [of s c] by simp
qed (auto simp: kb_safe_def)

section \<open>Printing under interrupts\<close>

text \<open>The invariants no action of the main program suspends, and what holds at all times.\<close>

definition calm :: "'a kernel_scheme \<Rightarrow> bool" where
  "calm s \<longleftrightarrow> heap_ok s \<and> pages_ok s \<and> tasks_ok s \<and> handlers_ok s \<and> interrupt_flag s"

definition always_ok :: "'a kernel_scheme \<Rightarrow> bool" where
  "always_ok s \<longleftrightarrow> (screen_bounds 79 25 s \<or> screen_bounds 80 24 s) \<and> calm s \<and> kb_safe s"

lemma calm_stable: "stable_under irq_env calm"
  unfolding calm_def
  by (intro stable_conj heap_part.stable_irq pages_part.stable_irq tasks_part.stable_irq handlers_part.stable_irq
      interrupts_part.stable_irq)

lemma area_stable: "area right bottom \<Longrightarrow> stable_under irq_env (screen_bounds right bottom)"
  using wide_part.stable_irq long_part.stable_irq home_part.stable_irq by (auto simp: area_def)

lemma area_ok: "area right bottom \<Longrightarrow> screen_bounds right bottom s \<Longrightarrow> screen_bounds 79 25 s \<or> screen_bounds 80 24 s"
  by (auto simp: area_def screen_bounds_def)

lemma sat_block:
  assumes "sat E J (\<lambda>_. R) P p" "sat E J Q R (block ps)"
  shows "sat E J Q P (block (p # ps))"
  using sat_seq [OF assms] by (simp add: block_def)

text \<open>
  Printing in the presence of interrupts, next to any assertion \<open>F\<close> that interrupts keep, that
  does not look at the screen and that implies the invariants.
\<close>

locale background = console_frame F for F :: "'a kernel_scheme \<Rightarrow> bool" +
  assumes F_stable: "stable_under irq_env F" and F_ok: "\<And>s. F s \<Longrightarrow> calm s \<and> kb_safe s"
begin

abbreviation within :: "int \<Rightarrow> int \<Rightarrow> 'a kernel_scheme \<Rightarrow> bool" where
  "within right bottom s \<equiv> screen_bounds right bottom s \<and> F s"

lemma within_stable: "area right bottom \<Longrightarrow> stable_under irq_env (within right bottom)"
  by (intro stable_conj area_stable F_stable)

lemma within_ok: "area right bottom \<Longrightarrow> within right bottom s \<Longrightarrow> always_ok s"
  using area_ok [of right bottom s] F_ok [of s] by (auto simp: always_ok_def)

lemma home_ok: "screen_bounds 79 24 s \<Longrightarrow> F s \<Longrightarrow> always_ok s"
  using within_ok [of 79 24] by simp

lemma home_stable: "stable_under irq_env (within 79 24)"
  by (rule within_stable) simp

lemma sat_cursor:
  assumes "area r b" "area r' b'" "\<And>s. within r b s \<Longrightarrow> within r' b' (g s)"
  shows "sat irq_env always_ok (\<lambda>_. within r' b') (within r b) (update g)"
  using assms by (intro sat_update within_stable) (auto intro: within_ok)

lemma sat_store:
  assumes "area r b" "area r' b'" "\<And>s. C \<Longrightarrow> within r b s \<Longrightarrow> within r' b' (g s)"
  shows "sat irq_env always_ok (\<lambda>_. within r' b') (\<lambda>s. within r b s \<and> C) (update g)"
  using assms by (intro sat_update within_stable stable_conj stable_const) (auto intro: within_ok)

lemma sat_look:
  assumes "area r b" "\<And>a. area (r' a) (b' a)" "\<And>s. within r b s \<Longrightarrow> within (r' (f s)) (b' (f s)) s \<and> C (f s)"
  shows "sat irq_env always_ok (\<lambda>a s. within (r' a) (b' a) s \<and> C a) (within r b) (load f)"
  using assms by (intro sat_load within_stable stable_conj stable_const) (auto intro: within_ok)

lemma sat_when:
  assumes "C \<Longrightarrow> sat irq_env always_ok Q (within r b) p"
  shows "sat irq_env always_ok Q (\<lambda>s. within r b s \<and> C) p"
  using assms by (cases C) (simp_all add: sat_False)

lemma sat_vga_store:
  "area r b \<Longrightarrow> 0 \<le> i \<Longrightarrow> i \<le> 2079 \<Longrightarrow> sat irq_env always_ok (\<lambda>_. within r b) (within r b) (update (vga_store i v))"
  by (rule sat_cursor) (simp_all add: store_bounds f_vga_store)

lemma sat_read: "area r b \<Longrightarrow> sat irq_env always_ok (\<lambda>_. within r b) (within r b) (load f)"
  using sat_look [of r b "\<lambda>_. r" "\<lambda>_. b" f "\<lambda>_. True"] by simp

lemma sat_branch:
  assumes "area r b" "area r1 b1" "area r2 b2"
    and "\<And>s. within r b s \<Longrightarrow> C (f s) \<Longrightarrow> within r1 b1 s" "\<And>s. within r b s \<Longrightarrow> \<not> C (f s) \<Longrightarrow> within r2 b2 s"
    and "sat irq_env always_ok Q (within r1 b1) p" "sat irq_env always_ok Q (within r2 b2) q"
  shows "sat irq_env always_ok Q (within r b) (seq (load f) (\<lambda>a. if C a then p else q))"
proof (rule sat_seq [OF sat_look])
  show "sat irq_env always_ok Q (\<lambda>s. within (if C a then r1 else r2) (if C a then b1 else b2) s \<and> True) (if C a then p else q)" for a
    using assms(6,7) by simp
qed (use assms(1-5) in simp_all)

lemma sat_skip: "area r b \<Longrightarrow> sat irq_env always_ok (\<lambda>_. within r b) (within r b) (Ret ())"
  using within_ok by (intro sat_Ret within_stable) blast

lemma sat_done: "area r b \<Longrightarrow> sat irq_env always_ok (\<lambda>_. within r b) (within r b) (block [])"
  using sat_skip by (simp add: block_def)

lemma sat_all:
  assumes "area r b" "\<And>p. p \<in> set ps \<Longrightarrow> sat irq_env always_ok (\<lambda>_. within r b) (within r b) p"
  shows "sat irq_env always_ok (\<lambda>_. within r b) (within r b) (block ps)"
  unfolding block_def using assms by (intro sat_each within_stable) (auto intro: within_ok)

lemma sat_for:
  assumes "area r b" "\<And>x. x \<in> set xs \<Longrightarrow> sat irq_env always_ok (\<lambda>_. within r b) (within r b) (g x)"
  shows "sat irq_env always_ok (\<lambda>_. within r b) (within r b) (each g xs)"
  using assms by (intro sat_each within_stable) (auto intro: within_ok)

lemma sat_scroll: "sat irq_env always_ok (\<lambda>_. within 79 24) (within 79 24) scroll_screen_prog"
proof -
  have cell: "sat irq_env always_ok (\<lambda>_. within 79 24) (within 79 24) (copy_cell_prog row col)"
    if "1 \<le> row" "row < 25" "col < 80" for row col
    unfolding copy_cell_prog_def VGA_WIDTH_def by (rule sat_seq [OF sat_read], simp, rule sat_vga_store) (use that in simp_all)
  have blank: "sat irq_env always_ok (\<lambda>_. within 79 24) (within 79 24) (blank_cell_prog col)" if "col < 80" for col
    unfolding blank_cell_prog_def vga_consts by (rule sat_vga_store) (use that in simp_all)
  have loops: "sat irq_env always_ok (\<lambda>_. within 79 24) (within 79 24) (each (\<lambda>row. each (copy_cell_prog row) [0..<nat VGA_WIDTH]) [1..<nat VGA_HEIGHT])"
    "sat irq_env always_ok (\<lambda>_. within 79 24) (within 79 24) (each blank_cell_prog [0..<nat VGA_WIDTH])"
    by (intro sat_for cell blank; simp add: vga_consts)+
  have "sat irq_env always_ok (\<lambda>_. within 79 24) (within 79 24) (update (\<lambda>s. s\<lparr>cursor_y := VGA_HEIGHT - 1\<rparr>))"
    "sat irq_env always_ok (\<lambda>_. within 79 24) (within 79 24) (update (\<lambda>s. s\<lparr>cursor_x := 0\<rparr>))"
    by (rule sat_cursor; simp add: screen_bounds_def f_cursor_x f_cursor_y VGA_HEIGHT_def)+
  with loops show ?thesis
    unfolding scroll_screen_prog_def by (intro sat_all) auto
qed

lemma sat_new_line: "sat irq_env always_ok (\<lambda>_. within 79 24) (within 80 24) new_line_prog"
proof -
  have first: "sat irq_env always_ok (\<lambda>_. within 79 24) (within 80 24) (update (\<lambda>s. s\<lparr>cursor_x := 0\<rparr>))"
    by (rule sat_cursor) (simp_all add: screen_bounds_def f_cursor_x)
  have step: "sat irq_env always_ok (\<lambda>_. within 79 25) (\<lambda>s. within 79 24 s \<and> 0 \<le> y \<and> y \<le> 24)
      (update (\<lambda>s. s\<lparr>cursor_y := y + 1\<rparr>))" for y
    using sat_store [of 79 24 79 25 "0 \<le> y \<and> y \<le> 24" "\<lambda>s. s\<lparr>cursor_y := y + 1\<rparr>"] by (simp add: screen_bounds_def f_cursor_y)
  have second: "sat irq_env always_ok (\<lambda>_. within 79 25) (within 79 24)
      (seq (load cursor_y) (\<lambda>y. update (\<lambda>s. s\<lparr>cursor_y := y + 1\<rparr>)))"
    by (rule sat_seq [OF sat_look step]) (simp_all add: screen_bounds_def)
  have reset: "sat irq_env always_ok (\<lambda>_. within 79 24) (within 79 25) (update (\<lambda>s. s\<lparr>cursor_y := VGA_HEIGHT - 1\<rparr>))"
    by (rule sat_cursor) (simp_all add: screen_bounds_def f_cursor_y VGA_HEIGHT_def)
  have scroll: "sat irq_env always_ok (\<lambda>_. within 79 24) (within 79 25)
      (block [update (\<lambda>s. s\<lparr>cursor_y := VGA_HEIGHT - 1\<rparr>), scroll_screen_prog])"
    by (rule sat_block [OF reset sat_block [OF sat_scroll sat_done]]) simp
  have third: "sat irq_env always_ok (\<lambda>_. within 79 24) (within 79 25)
      (seq (load cursor_y) (\<lambda>y. if y \<ge> VGA_HEIGHT
        then block [update (\<lambda>s. s\<lparr>cursor_y := VGA_HEIGHT - 1\<rparr>), scroll_screen_prog] else Ret ()))"
    by (rule sat_branch [OF _ _ _ _ _ scroll sat_skip]) (simp_all add: screen_bounds_def VGA_HEIGHT_def)
  show ?thesis
    unfolding new_line_prog_def by (rule sat_block [OF first sat_block [OF second sat_block [OF third sat_done]]]) simp
qed

lemma sat_print_char: "sat irq_env always_ok (\<lambda>_. within 79 24) (within 79 24) (print_char_prog c)"
proof (cases "c = 0x0A")
  case True
  then show ?thesis
    using sat_pre [OF sat_new_line within_stable [of 79 24]] by (simp add: print_char_prog_def screen_bounds_def)
next
  case False
  have x: "sat irq_env always_ok (\<lambda>_. within 79 24) (within 79 24) (seq (load cursor_x) (\<lambda>x. update (vga_store (y * VGA_WIDTH + x) (vga_cell c))))"
    if "0 \<le> y" "y \<le> 24" for y
    by (rule sat_seq [OF sat_look [where C = "\<lambda>x. 0 \<le> x \<and> x \<le> 79"] sat_when [OF sat_vga_store]])
       (use that in \<open>auto simp: screen_bounds_def VGA_WIDTH_def\<close>)
  have cell: "sat irq_env always_ok (\<lambda>_. within 79 24) (within 79 24) (seq (load cursor_y) (\<lambda>y. seq (load cursor_x) (\<lambda>x.
      update (vga_store (y * VGA_WIDTH + x) (vga_cell c)))))"
    by (rule sat_seq [OF sat_look [where C = "\<lambda>y. 0 \<le> y \<and> y \<le> 24"] sat_when [OF x]]) (auto simp: screen_bounds_def)
  have "sat irq_env always_ok (\<lambda>_. within 80 24) (\<lambda>s. within 79 24 s \<and> 0 \<le> x \<and> x \<le> 79) (update (\<lambda>s. s\<lparr>cursor_x := x + 1\<rparr>))" for x
    using sat_store [of 79 24 80 24 "0 \<le> x \<and> x \<le> 79" "\<lambda>s. s\<lparr>cursor_x := x + 1\<rparr>"] by (simp add: screen_bounds_def f_cursor_x)
  then have step: "sat irq_env always_ok (\<lambda>_. within 80 24) (within 79 24)
      (seq (load cursor_x) (\<lambda>x. update (\<lambda>s. s\<lparr>cursor_x := x + 1\<rparr>)))"
    by (rule sat_seq [OF sat_look, rotated -1]) (simp_all add: screen_bounds_def)
  have "sat irq_env always_ok (\<lambda>_. within 79 24) (within 80 24)
      (seq (load cursor_x) (\<lambda>x. if x \<ge> VGA_WIDTH then new_line_prog else Ret ()))"
    by (rule sat_branch [OF _ _ _ _ _ sat_new_line sat_skip]) (simp_all add: screen_bounds_def VGA_WIDTH_def)
  from sat_block [OF cell sat_block [OF step sat_block [OF this sat_done]]] False show ?thesis
    by (simp add: print_char_prog_def)
qed

lemma sat_print:
  "sat irq_env always_ok (\<lambda>_. within 79 24) (within 79 24) (print_string_prog str)"
  "sat irq_env always_ok (\<lambda>_. within 79 24) (within 79 24) (print_number_prog n)"
  "sat irq_env always_ok (\<lambda>_. within 79 24) (within 79 24) (print_hex_prog n)"
proof -
  show str: "sat irq_env always_ok (\<lambda>_. within 79 24) (within 79 24) (print_string_prog str)" for str
    unfolding print_string_prog_def by (intro sat_for sat_print_char) simp
  show "sat irq_env always_ok (\<lambda>_. within 79 24) (within 79 24) (print_number_prog n)"
    unfolding print_number_prog_def by (auto intro: sat_for sat_print_char)
  show "sat irq_env always_ok (\<lambda>_. within 79 24) (within 79 24) (print_hex_prog n)"
    unfolding print_hex_prog_def by (intro sat_all) (auto intro: str)
qed

lemma sat_show:
  "sat irq_env always_ok (\<lambda>_. within 79 24) (within 79 24) (show_number f)"
  "sat irq_env always_ok (\<lambda>_. within 79 24) (within 79 24) (show_hex f)"
  "sat irq_env always_ok (\<lambda>_. within 79 24) (within 79 24) (show_flag g)"
  unfolding show_number_def show_hex_def show_flag_def by (rule sat_seq [OF sat_read], simp, rule sat_print)+

lemma sat_reports:
  "sat irq_env always_ok (\<lambda>_. within 79 24) (within 79 24) print_memory_info_prog"
  "sat irq_env always_ok (\<lambda>_. within 79 24) (within 79 24) print_keyboard_stats_prog"
  unfolding print_memory_info_prog_def print_keyboard_stats_prog_def
  by (rule sat_all, simp, auto intro: sat_print sat_show)+

lemma sat_statistics: "sat irq_env always_ok (\<lambda>_. within 79 24) (within 79 24) statistics_prog"
  unfolding statistics_prog_def by (rule sat_all) (auto intro: sat_print sat_reports)

end

end
