(* ===== verification/Concurrent.thy ===== *)
theory Concurrent
  imports Interference
begin

text \<open>
  The main program under interrupts at any point: proof outlines for the heap test, the keyboard
  and the whole of \<open>kernel_main\<close> after \<open>enable_interrupts()\<close>, and what follows for the running system.
\<close>

section \<open>The heap\<close>

locale heap_background = background F for F :: "'a kernel_scheme \<Rightarrow> bool" +
  assumes F_kmalloc: "\<And>s n p t. F s \<Longrightarrow> kmalloc n s = Some (p, t) \<Longrightarrow> F t"
    and F_kfree: "\<And>s p t. F s \<Longrightarrow> kfree p s = Some t \<Longrightarrow> F t"
begin

lemma sat_kmalloc: "sat irq_env always_ok (\<lambda>_. within 79 24) (within 79 24) (attempt (kmalloc n))"
proof (rule sat_attempt)
  fix s assume s: "within 79 24 s"
  then have "heap_ok s" using F_ok by (simp add: calm_def)
  then obtain p t where t: "kmalloc n s = Some (p, t)" using kernel_heap.alloc_ok by blast
  then show "\<exists>p t. kmalloc n s = Some (p, t) \<and> within 79 24 t"
    using s F_kmalloc kmalloc_same [OF t] by (auto simp: same_but_heap_def screen_bounds_def)
qed (use home_stable in \<open>auto intro: home_ok\<close>)

lemma sat_kfree: "sat irq_env always_ok (\<lambda>_. within 79 24) (within 79 24) (attempt (\<lambda>s. map_option (Pair ()) (kfree p s)))"
proof (rule sat_attempt)
  fix s assume s: "within 79 24 s"
  then have "heap_ok s" using F_ok by (simp add: calm_def)
  then obtain t where t: "kfree p s = Some t" using kfree_ok by blast
  then show "\<exists>u t. map_option (Pair ()) (kfree p s) = Some (u, t) \<and> within 79 24 t"
    using s F_kfree kfree_same [OF t] by (auto simp: same_but_heap_def screen_bounds_def)
qed (use home_stable in \<open>auto intro: home_ok\<close>)

lemma sat_heap_test: "sat irq_env always_ok (\<lambda>_. within 79 24) (within 79 24) heap_test_prog"
  unfolding heap_test_prog_def
  by (intro sat_seq [OF sat_all] sat_seq [OF sat_kmalloc] sat_Ret) (auto intro: sat_print sat_reports home_stable home_ok)

lemma sat_heap_release: "sat irq_env always_ok (\<lambda>_. within 79 24) (within 79 24) (heap_release_prog p)"
  unfolding heap_release_prog_def by (rule sat_all) (auto intro: sat_kfree sat_print sat_reports)

end

section \<open>Taking a character out of the ring buffer\<close>

definition pending :: "'a keyboard_scheme \<Rightarrow> bool" where
  "pending s \<longleftrightarrow> kb_safe s \<and> 1 \<le> unat (count (kb_buffer s))"

lemma pending_stable: "stable_under irq_env pending"
  unfolding pending_def by (rule count_part.stable_irq)

lemma pending_nonempty: "kb_safe s \<Longrightarrow> pending s \<longleftrightarrow> \<not> keyboard_buffer_is_empty s"
  by (auto simp: pending_def keyboard_buffer_is_empty_def word_le_nat_alt Suc_le_eq unat_gt_0)

locale key_reader = background F for F :: "'a kernel_scheme \<Rightarrow> bool" +
  fixes atomic :: bool
  assumes get_ok: "sat irq_env always_ok (\<lambda>_. within 79 24) (\<lambda>s. within 79 24 s \<and> pending s) (keyboard_buffer_get_prog atomic)"
begin

lemma pending_at: "stable_under irq_env (\<lambda>s. within 79 24 s \<and> pending s)"
  by (rule stable_conj [OF home_stable pending_stable])

lemma sat_echo: "sat irq_env always_ok (\<lambda>_. within 79 24) (\<lambda>s. within 79 24 s \<and> pending s) (echo_key_prog atomic label)"
proof -
  have "sat irq_env always_ok (\<lambda>_ s. within 79 24 s \<and> pending s) (\<lambda>s. within 79 24 s \<and> pending s)
      (attempt (\<lambda>s. if keyboard_buffer_is_empty s then None else Some ((), s)))"
    using pending_at by (intro sat_attempt) (auto intro: home_ok simp: pending_nonempty F_ok)
  then show ?thesis
    unfolding echo_key_prog_def keyboard_getchar_prog_def
    by (intro sat_seq [OF sat_seq [OF _ get_ok]] sat_all) (auto intro: sat_print sat_print_char)
qed

lemma sat_has_input:
  "sat irq_env always_ok (\<lambda>input s. within 79 24 s \<and> (input \<longrightarrow> pending s)) (within 79 24) (load keyboard_has_input)"
proof (rule sat_load)
  show "stable_under irq_env (\<lambda>s. within 79 24 s \<and> (input \<longrightarrow> pending s))" for input
    using pending_at home_stable by (cases input) simp_all
qed (use home_stable in \<open>auto intro: home_ok simp: pending_nonempty F_ok keyboard_has_input_def\<close>)

lemma sat_on_input:
  assumes "sat irq_env always_ok (\<lambda>_. within 79 24) (within 79 24) q"
  shows "sat irq_env always_ok (\<lambda>_. within 79 24) (within 79 24)
    (seq (load keyboard_has_input) (\<lambda>input. if input then echo_key_prog atomic label else q))"
  using sat_echo assms by (intro sat_seq [OF sat_has_input]) simp

lemma sat_keyboard_test: "sat irq_env always_ok (\<lambda>_. within 79 24) (within 79 24) (keyboard_test_prog atomic)"
  unfolding keyboard_test_prog_def by (intro sat_on_input sat_print)

lemma sat_main_loop: "sat irq_env always_ok (\<lambda>_. within 79 24) (within 79 24) (main_loop_prog atomic)"
  unfolding main_loop_prog_def by (intro sat_on_input sat_skip) simp

end

section \<open>The two ways to compile the decrement\<close>

lemma calm_screen [simp]:
  "calm (s\<lparr>vga_buffer := b\<rparr>) = calm s" "calm (s\<lparr>cursor_x := x\<rparr>) = calm s" "calm (s\<lparr>cursor_y := y\<rparr>) = calm s"
  "calm (s\<lparr>stray_stores := l\<rparr>) = calm s"
  using heap_ok_cong(2) [of "s\<lparr>vga_buffer := b\<rparr>" s] heap_ok_cong(2) [of "s\<lparr>cursor_x := x\<rparr>" s]
    heap_ok_cong(2) [of "s\<lparr>cursor_y := y\<rparr>" s] heap_ok_cong(2) [of "s\<lparr>stray_stores := l\<rparr>" s]
  by (simp_all add: calm_def pages_ok_def tasks_ok_def task_inv_def handlers_ok_def)

lemma calm_kb [simp]:
  "calm (s\<lparr>kb_buffer := b\<rparr>) = calm s" "calm (s\<lparr>kb_state := k\<rparr>) = calm s" "calm (s\<lparr>kb_stats := st\<rparr>) = calm s"
  by (simp_all add: calm_def heap_part.I_fields pages_part.I_fields tasks_part.I_fields handlers_part.I_fields)

lemma calm_kmalloc: "calm s \<Longrightarrow> kmalloc n s = Some (p, t) \<Longrightarrow> calm t"
  unfolding calm_def
  using heap_part.keep_kmalloc pages_part.keep_kmalloc tasks_part.keep_kmalloc handlers_part.keep_kmalloc
    interrupts_part.keep_kmalloc by blast

lemma calm_kfree: "calm s \<Longrightarrow> kfree p s = Some t \<Longrightarrow> calm t"
  unfolding calm_def
  using heap_part.keep_kfree pages_part.keep_kfree tasks_part.keep_kfree handlers_part.keep_kfree
    interrupts_part.keep_kfree by blast

text \<open>A ring buffer assertion next to the other invariants is a background for printing.\<close>

locale ring_background = ring_part K for K :: "'a kernel_scheme \<Rightarrow> bool" +
  assumes K_safe: "\<And>s. K s \<Longrightarrow> kb_safe s"

sublocale ring_background \<subseteq> bg: heap_background "\<lambda>s. calm s \<and> K s"
proof
  fix s :: "'a kernel_scheme"
  have same: "K t = K s" if "kb_buffer t = kb_buffer s" for t using ring_only [OF that] ring_only [OF that [symmetric]] by blast
  show "(calm (s\<lparr>vga_buffer := b\<rparr>) \<and> K (s\<lparr>vga_buffer := b\<rparr>)) = (calm s \<and> K s)"
    "(calm (s\<lparr>cursor_x := x\<rparr>) \<and> K (s\<lparr>cursor_x := x\<rparr>)) = (calm s \<and> K s)"
    "(calm (s\<lparr>cursor_y := y\<rparr>) \<and> K (s\<lparr>cursor_y := y\<rparr>)) = (calm s \<and> K s)"
    "(calm (s\<lparr>stray_stores := l\<rparr>) \<and> K (s\<lparr>stray_stores := l\<rparr>)) = (calm s \<and> K s)" for b x y l
    by (simp_all add: same [of "s\<lparr>vga_buffer := b\<rparr>"] same [of "s\<lparr>cursor_x := x\<rparr>"] same [of "s\<lparr>cursor_y := y\<rparr>"]
        same [of "s\<lparr>stray_stores := l\<rparr>"])
qed (auto intro: stable_conj calm_stable stable_irq K_safe calm_kmalloc calm_kfree ring_kmalloc ring_kfree)

interpretation front_bg: ring_background "kb_front xs"
  by unfold_locales (rule kb_front_safe)

interpretation mid_bg: ring_background "kb_mid xs"
  by unfold_locales (rule kb_mid_safe)

interpretation safe_bg: ring_background kb_safe
  by unfold_locales

lemma front_first:
  assumes "kb_front (x # xs) s"
  shows "\<not> keyboard_buffer_is_empty s" "buffer (kb_buffer s) ! unat (tail (kb_buffer s)) = x"
    "kb_mid xs (s\<lparr>kb_buffer := (kb_buffer s)\<lparr>tail := (tail (kb_buffer s) + 1) mod KEYBOARD_BUFFER_SIZE\<rparr>\<rparr>)"
proof -
  obtain ys where rep: "kb_rep s (x # xs @ ys)" using assms by (auto simp: kb_front_def)
  show ne: "\<not> keyboard_buffer_is_empty s" using kb_empty [OF rep] by simp
  let ?b = "kb_buffer s"
  have n: "count ?b \<noteq> 0" "unat (count ?b) \<le> 256"
    using ne kb_rep_safe [OF rep] by (auto simp: keyboard_buffer_is_empty_def kb_safe_def Let_def)
  obtain t where t: "keyboard_buffer_get s = (x, t)" "kb_rep t (xs @ ys)" using kb_get_front [OF rep] by blast
  then show "buffer ?b ! unat (tail ?b) = x" using ne by (simp add: keyboard_buffer_get_def Let_def)
  have "t = s\<lparr>kb_buffer := ?b\<lparr>tail := (tail ?b + 1) mod KEYBOARD_BUFFER_SIZE, count := count ?b - 1\<rparr>\<rparr>"
    using t(1) ne by (auto simp: keyboard_buffer_get_def Let_def)
  then show "kb_mid xs (s\<lparr>kb_buffer := ?b\<lparr>tail := (tail ?b + 1) mod KEYBOARD_BUFFER_SIZE\<rparr>\<rparr>)"
    using t(2) n by (auto simp: kb_mid_def kb_front_def)
qed

text \<open>With a decrement in one instruction the first character comes out and the rest stays, whatever is added.\<close>

lemma sat_get_atomic:
  fixes x xs
  defines "G \<equiv> \<lambda>q (s :: 'a kernel_scheme). screen_bounds 79 24 s \<and> calm s \<and> kb_front q s"
  shows "sat irq_env always_ok (\<lambda>c s. G xs s \<and> c = x) (G (x # xs)) (keyboard_buffer_get_prog True)"
proof -
  let ?M = "\<lambda>s :: 'a kernel_scheme. screen_bounds 79 24 s \<and> calm s \<and> kb_mid xs s"
  have st: "stable_under irq_env (G q)" and ok: "G q s \<Longrightarrow> always_ok s" for q s
    using front_bg.bg.home_stable [of q] front_bg.bg.home_ok [of s q] by (simp_all add: G_def)
  have mid: "stable_under irq_env ?M" "?M s \<Longrightarrow> always_ok s" for s
    using mid_bg.bg.home_stable [of xs] mid_bg.bg.home_ok [of s xs] by simp_all
  have empty: "sat irq_env always_ok (\<lambda>e s. G (x # xs) s \<and> \<not> e) (G (x # xs)) (load keyboard_buffer_is_empty)"
    by (intro sat_load stable_conj st) (auto intro: ok simp: G_def front_first(1))
  have char: "sat irq_env always_ok (\<lambda>c s. G (x # xs) s \<and> c = x) (G (x # xs))
      (load (\<lambda>s. buffer (kb_buffer s) ! unat (tail (kb_buffer s))))"
    by (intro sat_load stable_conj st) (auto intro: ok simp: G_def front_first(2))
  have look: "sat irq_env always_ok (\<lambda>t s. G (x # xs) s \<and> tail (kb_buffer s) = t) (G (x # xs)) (load (\<lambda>s. tail (kb_buffer s)))"
    by (intro sat_load stable_conj st tail_part.stable_irq) (auto intro: ok)
  have store: "sat irq_env always_ok (\<lambda>_. ?M) (\<lambda>s. G (x # xs) s \<and> tail (kb_buffer s) = t)
      (update (\<lambda>s. s\<lparr>kb_buffer := (kb_buffer s)\<lparr>tail := (t + 1) mod KEYBOARD_BUFFER_SIZE\<rparr>\<rparr>))" for t
    by (rule sat_update [OF stable_conj [OF st tail_part.stable_irq] _ mid])
       (use front_first(3) ok in \<open>auto simp: G_def screen_bounds_def\<close>)
  have dec: "sat irq_env always_ok (\<lambda>_. G xs) ?M (decrement_count True)"
    unfolding decrement_count_def if_True
    by (rule sat_update [OF mid st ok]) (auto simp: G_def screen_bounds_def kb_mid_def)
  have rest: "sat irq_env always_ok (\<lambda>c s. G xs s \<and> c = x) (\<lambda>s. G (x # xs) s \<and> c = x)
      (seq (seq (load (\<lambda>s. tail (kb_buffer s))) (\<lambda>t.
            update (\<lambda>s. s\<lparr>kb_buffer := (kb_buffer s)\<lparr>tail := (t + 1) mod KEYBOARD_BUFFER_SIZE\<rparr>\<rparr>))) (\<lambda>_.
          seq (decrement_count True) (\<lambda>_. Ret c)))" for c
  proof (cases "c = x")
    case True
    then have "sat irq_env always_ok (\<lambda>c s. G xs s \<and> c = x) (G xs) (Ret c)" by (intro sat_Ret st) (auto intro: ok)
    from sat_seq [OF sat_seq [OF look store] sat_seq [OF dec this]] True show ?thesis by simp
  qed (simp add: sat_False)
  show ?thesis
    unfolding keyboard_buffer_get_prog_def
    by (rule sat_seq [OF empty]) (auto intro: sat_seq [OF char rest] simp: sat_False)
qed

text \<open>With a load and a store all indices stay within the buffer.\<close>

lemma sat_get_split:
  fixes F defines "F \<equiv> \<lambda>s :: 'a kernel_scheme. screen_bounds 79 24 s \<and> calm s \<and> kb_safe s"
  shows "sat irq_env always_ok (\<lambda>_. F) (\<lambda>s. F s \<and> pending s) (keyboard_buffer_get_prog False)"
proof -
  let ?P = "\<lambda>s. F s \<and> pending s"
  have st: "stable_under irq_env F" and ok: "F s \<Longrightarrow> always_ok s" for s
    using safe_bg.bg.home_stable safe_bg.bg.home_ok [of s] by (simp_all add: F_def)
  have sp: "stable_under irq_env (\<lambda>s. ?P s \<and> C)" for C by (intro stable_conj st pending_stable stable_const)
  have read: "sat irq_env always_ok (\<lambda>a s. ?P s \<and> C a) ?P (load f)" if "\<And>s. ?P s \<Longrightarrow> C (f s)" for f and C :: "'b \<Rightarrow> bool"
    by (rule sat_load) (use sp [of True] sp ok that in auto)
  have tail: "sat irq_env always_ok (\<lambda>_. ?P) (\<lambda>s. ?P s \<and> unat t < 256)
      (update (\<lambda>s. s\<lparr>kb_buffer := (kb_buffer s)\<lparr>tail := (t + 1) mod KEYBOARD_BUFFER_SIZE\<rparr>\<rparr>))" for t
    by (rule sat_update) (use sp [of True] sp ok unat_advance [of t] in
        \<open>auto simp: F_def screen_bounds_def pending_def kb_safe_def Let_def\<close>)
  have cnt: "sat irq_env always_ok (\<lambda>_. F) (\<lambda>s. ?P s \<and> 1 \<le> unat n \<and> unat n \<le> 256)
      (update (\<lambda>s. s\<lparr>kb_buffer := (kb_buffer s)\<lparr>count := n - 1\<rparr>\<rparr>))" for n
  proof (rule sat_update)
    fix s assume s: "?P s \<and> 1 \<le> unat n \<and> unat n \<le> 256"
    then have "n \<noteq> 0" by auto
    then show "F (s\<lparr>kb_buffer := (kb_buffer s)\<lparr>count := n - 1\<rparr>\<rparr>)"
      using s by (auto simp: F_def screen_bounds_def kb_safe_def Let_def unat_minus_one)
  qed (use sp st ok in auto)
  have dec: "sat irq_env always_ok (\<lambda>_. F) ?P (decrement_count False)"
    unfolding decrement_count_def if_False
    by (rule sat_seq [OF read cnt]) (auto simp: F_def pending_def kb_safe_def Let_def)
  have advance: "sat irq_env always_ok (\<lambda>_. ?P) ?P (seq (load (\<lambda>s. tail (kb_buffer s))) (\<lambda>t.
      update (\<lambda>s. s\<lparr>kb_buffer := (kb_buffer s)\<lparr>tail := (t + 1) mod KEYBOARD_BUFFER_SIZE\<rparr>\<rparr>)))"
    by (rule sat_seq [OF read tail]) (auto simp: F_def kb_safe_def Let_def)
  have ret: "sat irq_env always_ok (\<lambda>_. F) F (Ret a)" for a by (intro sat_Ret st ok)
  have char: "sat irq_env always_ok (\<lambda>_. ?P) ?P (load (\<lambda>s. buffer (kb_buffer s) ! unat (tail (kb_buffer s))))"
    using read [of "\<lambda>_. True"] by simp
  have "sat irq_env always_ok (\<lambda>e s. ?P s \<and> \<not> e) ?P (load keyboard_buffer_is_empty)"
    by (rule read) (auto simp: F_def pending_nonempty)
  then show ?thesis unfolding keyboard_buffer_get_prog_def
    by (rule sat_seq) (auto intro: sat_seq [OF char sat_seq [OF advance sat_seq [OF dec ret]]])
qed

interpretation split_reader: key_reader "\<lambda>s. calm s \<and> kb_safe s" False
  by unfold_locales (rule sat_get_split)

lemma kb_ok_front: "kb_ok s \<longleftrightarrow> kb_front [] s"
  by (simp add: kb_ok_def kb_front_def)

lemma sat_get_some:
  fixes G defines "G \<equiv> \<lambda>s :: 'a kernel_scheme. screen_bounds 79 24 s \<and> calm s \<and> kb_front [] s"
  shows "sat irq_env always_ok (\<lambda>_. G) (\<lambda>s. G s \<and> pending s) (keyboard_buffer_get_prog True)"
proof -
  have get: "sat irq_env always_ok (\<lambda>_. G) (\<lambda>s. \<exists>x. screen_bounds 79 24 s \<and> calm s \<and> kb_front [x] s)
      (keyboard_buffer_get_prog True)"
    unfolding G_def by (rule sat_Ex, rule sat_post [OF sat_get_atomic]) simp
  have st: "stable_under irq_env (\<lambda>s. G s \<and> pending s)"
    unfolding G_def by (rule stable_conj [OF front_bg.bg.home_stable pending_stable])
  have "\<exists>x. screen_bounds 79 24 s \<and> calm s \<and> kb_front [x] s" if s: "G s \<and> pending s" for s
  proof -
    obtain ys where rep: "kb_rep s ys" using s by (auto simp: G_def kb_front_def)
    then have "ys \<noteq> []" using s kb_empty [OF rep] pending_nonempty [of s] by (auto simp: pending_def)
    then obtain x zs where "ys = [x] @ zs" by (cases ys) auto
    then show ?thesis using s rep unfolding G_def kb_front_def by blast
  qed
  from sat_pre [OF get st this] show ?thesis .
qed

interpretation atomic_reader: key_reader "\<lambda>s. calm s \<and> kb_front [] s" True
  by unfold_locales (rule sat_get_some)

section \<open>Before the keyboard handler is registered\<close>

lemma unhooked_irq:
  assumes "keyboard_unhooked s" "irq_env s t"
  shows "keyboard_unhooked t \<and> kb_buffer t = kb_buffer s"
proof -
  obtain ctx where irq: "irq_handler run_handler ctx s = Return t" using assms(2) by (auto simp: irq_env_def)
  define u where "u = send_eoi (ucast (int_no ctx - 32)) (s\<lparr>interrupt_count := interrupt_count s + 1\<rparr>)"
  have u: "kb_buffer u = kb_buffer s" "interrupt_handlers u = interrupt_handlers s" unfolding u_def by (simp_all add: send_eoi_def Let_def)
  have v: "unat (int_no ctx) < 256" using irq by (auto simp: irq_handler_def Let_def IDT_SIZE_def split: if_splits)
  consider "t = u" | h where "interrupt_handlers s ! unat (int_no ctx) = Some h" "run_handler h ctx u = Return t"
    using irq v u(2) unfolding irq_handler_def Let_def u_def [symmetric] by (auto simp: IDT_SIZE_def split: option.splits)
  then have "kb_buffer t = kb_buffer s"
  proof cases
    case 2
    then have "h \<noteq> Keyboard_interrupt_handler" using assms(1) v by (auto simp: keyboard_unhooked_def)
    then have "h = Timer_handler \<or> h = Keyboard_handler" using 2(2)
      by (cases h) (auto simp: divide_error_handler_def page_fault_handler_def general_protection_fault_handler_def Let_def)
    then show ?thesis
    proof
      assume "h = Timer_handler"
      then show ?thesis using 2(2) u(1) timer_handler_only [of ctx u t] by auto
    next
      assume "h = Keyboard_handler"
      then show ?thesis using 2(2) u(1) by (auto simp: keyboard_handler_def inb_def Let_def)
    qed
  qed (simp add: u)
  then show ?thesis using stableD [OF unhooked_part.stable_irq assms] by simp
qed

text \<open>The buffer while \<open>init_keyboard\<close> clears \<open>head\<close>, \<open>tail\<close> and \<open>count\<close>, as far as it has come.\<close>

definition cleared :: "bool \<Rightarrow> bool \<Rightarrow> bool \<Rightarrow> keyboard_buffer \<Rightarrow> bool" where
  "cleared h t n b \<longleftrightarrow> length (buffer b) = 256 \<and> unat (head b) < 256 \<and> unat (tail b) < 256 \<and> unat (count b) \<le> 256
     \<and> (h \<longrightarrow> head b = 0) \<and> (t \<longrightarrow> tail b = 0) \<and> (n \<longrightarrow> count b = 0)"

lemma cleared_safe: "cleared h t n (kb_buffer s) \<Longrightarrow> kb_safe s" "cleared False False False (kb_buffer s) \<longleftrightarrow> kb_safe s"
  by (auto simp: cleared_def kb_safe_def Let_def)

lemma cleared_empty: "cleared True True True (kb_buffer s) \<Longrightarrow> kb_front [] s"
  by (auto simp: cleared_def kb_front_def kb_rep_def)

definition unhooked :: "bool \<Rightarrow> bool \<Rightarrow> bool \<Rightarrow> 'a kernel_scheme \<Rightarrow> bool" where
  "unhooked h t n s \<longleftrightarrow> calm s \<and> keyboard_unhooked s \<and> cleared h t n (kb_buffer s)"

interpretation unhooked_bg: heap_background "unhooked h t n"
proof
  show "stable_under irq_env (unhooked h t n)"
    using unhooked_irq calm_stable unfolding unhooked_def stable_under_def by metis
  show "unhooked h t n u" if "unhooked h t n s" "kmalloc k s = Some (p, u)" for k p and s u :: "'a kernel_scheme"
    using that calm_kmalloc [of s k p u] kmalloc_same [of k s p u]
    by (auto simp: unhooked_def keyboard_unhooked_def same_but_heap_def)
  show "unhooked h t n u" if "unhooked h t n s" "kfree p s = Some u" for p and s u :: "'a kernel_scheme"
    using that calm_kfree [of s p u] kfree_same [of p s u]
    by (auto simp: unhooked_def keyboard_unhooked_def same_but_heap_def)
qed (auto simp: unhooked_def keyboard_unhooked_def dest: cleared_safe(1))

lemma calm_hook: "calm s \<Longrightarrow> calm (register_interrupt_handler 33 Keyboard_interrupt_handler s)"
  using heap_part.keep_handler [of s] pages_part.keep_handler [of s] tasks_part.keep_handler [of s]
    handlers_part.keep_handler [of s] interrupts_part.keep_handler [of s]
  by (simp add: calm_def register_interrupt_handler_def)

text \<open>\<open>init_keyboard\<close>: no interrupt sees the buffer before the handler is registered, and then it is empty.\<close>

lemma sat_init_keyboard:
  "sat irq_env always_ok (\<lambda>_ s. screen_bounds 79 24 s \<and> calm s \<and> kb_front [] s)
    (\<lambda>s. screen_bounds 79 24 s \<and> unhooked False False False s) init_keyboard_prog"
proof -
  let ?U = "\<lambda>h t n (s :: 'a kernel_scheme). screen_bounds 79 24 s \<and> unhooked h t n s"
  have st: "stable_under irq_env (?U h t n)" and ok: "?U h t n s \<Longrightarrow> always_ok s" for h t n s
    using unhooked_bg.home_stable [of h t n] unhooked_bg.home_ok [of s h t n] by simp_all
  have upd: "sat irq_env always_ok (\<lambda>_. ?U h' t' n') (?U h t n) (update g)" if "\<And>s. ?U h t n s \<Longrightarrow> ?U h' t' n' (g s)" for h t n h' t' n' g
    by (rule sat_update [OF st ok st ok that])
  have state: "sat irq_env always_ok (\<lambda>_. ?U h t n) (?U h t n) (set_kb_state f)" for h t n f
    unfolding set_kb_state_def by (rule upd) (simp add: screen_bounds_def unhooked_def keyboard_unhooked_def)
  have stats: "sat irq_env always_ok (\<lambda>_. ?U h t n) (?U h t n) (set_kb_stats f)" for h t n f
    unfolding set_kb_stats_def by (rule upd) (simp add: screen_bounds_def unhooked_def keyboard_unhooked_def)
  have head: "sat irq_env always_ok (\<lambda>_. ?U True False False) (?U False False False) (set_kb_buffer (\<lambda>b. b\<lparr>head := 0\<rparr>))"
    and tail: "sat irq_env always_ok (\<lambda>_. ?U True True False) (?U True False False) (set_kb_buffer (\<lambda>b. b\<lparr>tail := 0\<rparr>))"
    and count: "sat irq_env always_ok (\<lambda>_. ?U True True True) (?U True True False) (set_kb_buffer (\<lambda>b. b\<lparr>count := 0\<rparr>))"
    unfolding set_kb_buffer_def by (rule upd; simp add: screen_bounds_def unhooked_def keyboard_unhooked_def cleared_def)+
  have hook: "sat irq_env always_ok (\<lambda>_ s. screen_bounds 79 24 s \<and> calm s \<and> kb_front [] s) (?U True True True)
      (update (register_interrupt_handler 33 Keyboard_interrupt_handler))"
  proof (rule sat_update [OF st ok front_bg.bg.home_stable])
    fix s assume s: "?U True True True s"
    then have "kb_front [] s" using cleared_empty by (auto simp: unhooked_def)
    moreover have "kb_buffer (register_interrupt_handler 33 Keyboard_interrupt_handler s) = kb_buffer s"
      by (simp add: register_interrupt_handler_def)
    ultimately have "kb_front [] (register_interrupt_handler 33 Keyboard_interrupt_handler s)" using kb_front_cong by metis
    then show "screen_bounds 79 24 (register_interrupt_handler 33 Keyboard_interrupt_handler s)
        \<and> calm (register_interrupt_handler 33 Keyboard_interrupt_handler s)
        \<and> kb_front [] (register_interrupt_handler 33 Keyboard_interrupt_handler s)"
      using s calm_hook [of s] by (simp add: unhooked_def screen_bounds_def register_interrupt_handler_def)
  qed (auto intro: front_bg.bg.home_ok)
  note first = sat_block [OF state] and last = sat_block [OF stats]
  show ?thesis
    unfolding init_keyboard_prog_def
    by (rule first, rule first, rule first, rule first, rule first, rule first, rule sat_block [OF head],
        rule sat_block [OF tail], rule sat_block [OF count], rule last, rule last, rule last, rule last, rule last,
        rule sat_block [OF hook], rule sat_block [OF front_bg.bg.sat_print(1)], rule front_bg.bg.sat_done) simp
qed

lemma sat_keyboard_setup:
  "sat irq_env always_ok (\<lambda>_ s. screen_bounds 79 24 s \<and> calm s \<and> kb_front [] s)
    (\<lambda>s. screen_bounds 79 24 s \<and> unhooked False False False s) keyboard_setup_prog"
  unfolding keyboard_setup_prog_def
  by (rule sat_block [OF sat_init_keyboard], rule front_bg.bg.sat_all) (auto intro: front_bg.bg.sat_print)

section \<open>The whole main program\<close>

text \<open>What holds when the main program reaches a position.\<close>

definition hooked_ok :: "bool \<Rightarrow> 'a kernel_scheme \<Rightarrow> bool" where
  "hooked_ok atomic s \<longleftrightarrow> screen_bounds 79 24 s \<and> calm s \<and> (if atomic then kb_front [] s else kb_safe s)"

fun position_ok :: "bool \<Rightarrow> position \<Rightarrow> 'a kernel_scheme \<Rightarrow> bool" where
  "position_ok atomic Heap_test = (\<lambda>s. screen_bounds 79 24 s \<and> unhooked False False False s)"
| "position_ok atomic (Heap_release p) = (\<lambda>s. screen_bounds 79 24 s \<and> unhooked False False False s)"
| "position_ok atomic Keyboard_setup = (\<lambda>s. screen_bounds 79 24 s \<and> unhooked False False False s)"
| "position_ok atomic _ = hooked_ok atomic"

lemma sat_then:
  assumes "sat irq_env always_ok (\<lambda>_. R) P p" "\<And>a s. R s \<Longrightarrow> Q (g a) s" "stable_under irq_env R" "\<And>s. R s \<Longrightarrow> always_ok s"
  shows "sat irq_env always_ok Q P (seq p (\<lambda>a. Ret (g a)))"
  using assms by (intro sat_seq [OF assms(1)] sat_Ret)

lemma hooked_background:
  "stable_under irq_env (hooked_ok atomic)" "hooked_ok atomic s \<Longrightarrow> always_ok s"
  "sat irq_env always_ok (\<lambda>_. hooked_ok atomic) (hooked_ok atomic) (keyboard_test_prog atomic)"
  "sat irq_env always_ok (\<lambda>_. hooked_ok atomic) (hooked_ok atomic) statistics_prog"
  "sat irq_env always_ok (\<lambda>_. hooked_ok atomic) (hooked_ok atomic) (main_loop_prog atomic)"
  using front_bg.bg.home_stable [of "[]"] front_bg.bg.home_ok [of s "[]"] safe_bg.bg.home_stable safe_bg.bg.home_ok [of s]
    atomic_reader.sat_keyboard_test split_reader.sat_keyboard_test front_bg.bg.sat_statistics [of "[]"]
    safe_bg.bg.sat_statistics atomic_reader.sat_main_loop split_reader.sat_main_loop
  by (cases atomic; simp add: hooked_ok_def [abs_def])+

lemma position_outline: "sat irq_env always_ok (position_ok atomic) (position_ok atomic p) (step_prog atomic p)"
proof -
  note un = unhooked_bg.home_stable unhooked_bg.home_ok
  show ?thesis
  proof (cases p)
    case Heap_test
    show ?thesis unfolding Heap_test step_prog.simps position_ok.simps
      by (rule sat_then [OF unhooked_bg.sat_heap_test]) (use un in auto)
  next
    case (Heap_release a)
    show ?thesis unfolding Heap_release step_prog.simps position_ok.simps
      by (rule sat_then [OF unhooked_bg.sat_heap_release]) (use un in auto)
  next
    case Keyboard_setup
    have "sat irq_env always_ok (\<lambda>_. hooked_ok atomic) (\<lambda>s. screen_bounds 79 24 s \<and> unhooked False False False s) keyboard_setup_prog"
      by (rule sat_post [OF sat_keyboard_setup]) (auto simp: hooked_ok_def dest: kb_front_safe)
    then show ?thesis unfolding Keyboard_setup step_prog.simps position_ok.simps
      by (rule sat_then) (use hooked_background(1,2) in auto)
  next
    case (Keyboard_test i)
    show ?thesis
    proof (cases "i < 5")
      case True
      show ?thesis unfolding Keyboard_test step_prog.simps position_ok.simps if_P [OF True]
        by (rule sat_then [OF hooked_background(3)]) (use hooked_background(1,2) in auto)
    next
      case False
      show ?thesis unfolding Keyboard_test step_prog.simps position_ok.simps if_not_P [OF False]
        by (rule sat_Ret) (use hooked_background(1,2) in auto)
    qed
  next
    case Statistics
    show ?thesis unfolding Statistics step_prog.simps position_ok.simps
      by (rule sat_then [OF hooked_background(4)]) (use hooked_background(1,2) in auto)
  next
    case Main_loop
    show ?thesis unfolding Main_loop step_prog.simps position_ok.simps
      by (rule sat_then [OF hooked_background(5)]) (use hooked_background(1,2) in auto)
  next
    case Main_hlt
    show ?thesis unfolding Main_hlt step_prog.simps position_ok.simps
      by (rule sat_Ret) (use hooked_background(1,2) in auto)
  next
    case Main_waiting
    show ?thesis unfolding Main_waiting step_prog.simps position_ok.simps
      by (rule sat_Ret) (use hooked_background(1,2) in auto)
  qed
qed

lemma position_stable: "stable_under irq_env (position_ok atomic q)"
  by (cases q; simp only: position_ok.simps; rule hooked_background(1) unhooked_bg.home_stable)

lemma position_always: "position_ok atomic q s \<Longrightarrow> always_ok s"
  by (cases q; simp only: position_ok.simps; (elim conjE)?; (erule (1) unhooked_bg.home_ok | erule hooked_background(2)))

text \<open>
  The system at the level of statements: the next action of the main program, the transition to
  its next part, or an interrupt, which also wakes the processor up when it is halted.
\<close>

fun wake_prog :: "('s, position) prog \<Rightarrow> ('s, position) prog" where
  "wake_prog (Ret q) = Ret (wake q)"
| "wake_prog (Act f) = Act f"

inductive preempt_step ::
  "bool \<Rightarrow> ('a kernel_scheme, position) prog \<times> 'a kernel_scheme \<Rightarrow> ('a kernel_scheme, position) prog \<times> 'a kernel_scheme \<Rightarrow> bool"
  for atomic where
  statement: "f s = Some (t, p) \<Longrightarrow> preempt_step atomic (Act f, s) (p, t)"
| goto: "preempt_step atomic (Ret q, s) (step_prog atomic q, s)"
| interrupt: "irq_env s t \<Longrightarrow> preempt_step atomic (p, s) (wake_prog p, t)"

abbreviation system_fit :: "bool \<Rightarrow> ('a kernel_scheme, position) prog \<times> 'a kernel_scheme \<Rightarrow> bool" where
  "system_fit atomic \<equiv> fit irq_env always_ok (position_ok atomic)"

lemma position_wake: "position_ok atomic (wake q) = position_ok atomic q"
  by (cases q) simp_all

lemma fit_wake:
  assumes "system_fit atomic (p, s)"
  shows "system_fit atomic (wake_prog p, s)"
proof (cases p)
  case (Ret q)
  have "position_ok atomic (wake q) s" using fit_Ret [OF assms [unfolded Ret]] by (simp add: position_wake)
  moreover have "sat irq_env always_ok (position_ok atomic) (position_ok atomic (wake q)) (Ret (wake q))"
    by (rule sat_Ret) (rule position_stable, erule position_always)
  ultimately show ?thesis unfolding Ret fit_def by auto
qed (use assms in simp)

lemma preempt_fit: "preempt_step atomic x y \<Longrightarrow> system_fit atomic x \<Longrightarrow> system_fit atomic y"
proof (induction rule: preempt_step.induct)
  case (goto q s)
  then have "position_ok atomic q s" by (rule fit_Ret)
  then show ?case using position_outline unfolding fit_def by blast
next
  case (interrupt s t p)
  then show ?case by (blast intro: fit_wake fit_step interleave.intros)
qed (blast intro: fit_step interleave.intros)

lemma preempts_fit: "(preempt_step atomic)\<^sup>*\<^sup>* x y \<Longrightarrow> system_fit atomic x \<Longrightarrow> system_fit atomic y"
  by (induction rule: rtranclp_induct) (auto intro: preempt_fit)

lemma boot_fit:
  assumes "zeroed_image s" "kernel_boot l s = Some t"
  shows "system_fit atomic (Ret Heap_test, t)"
proof -
  have "position_ok atomic Heap_test t"
    using kernel_boot_ok [OF assms(1), of l] assms(2) kb_rep_safe [of t]
    by (auto simp: console_inv_bounds unhooked_def calm_def tasks_ok_def kb_ok_def cleared_safe(2))
  moreover have "sat irq_env always_ok (position_ok atomic) (position_ok atomic Heap_test) (Ret Heap_test)"
    using unhooked_bg.home_stable unhooked_bg.home_ok by (intro sat_Ret) auto
  ultimately show ?thesis unfolding fit_def by blast
qed

section \<open>Heap functions and interrupts\<close>

interpretation heap_memory_part: interrupt_part "\<lambda>s. (mem s, manager s, mstats s, memory_initialized s) = h"
proof
  fix s t :: "'a kernel_scheme" and ctx
  assume h: "(mem s, manager s, mstats s, memory_initialized s) = h"
  show "(mem t, manager t, mstats t, memory_initialized t) = h" if "timer_handler ctx s = Return t"
    using timer_handler_only [OF that] h by auto
  show "(mem t, manager t, mstats t, memory_initialized t) = h" if "keyboard_interrupt_handler ctx s = Return t"
    using keyboard_interrupt_only [OF that] h by auto
qed simp_all

text \<open>
  Why the heap functions may be single actions: their results depend on the heap only, and no
  interrupt changes it.
\<close>

lemma heap_functions_local:
  assumes "(mem t, manager t, mstats t, memory_initialized t) = (mem s, manager s, mstats s, memory_initialized s)"
  shows "map_option (\<lambda>(p, u). (p, mem u, manager u, mstats u)) (kmalloc n t) =
      map_option (\<lambda>(p, u). (p, mem u, manager u, mstats u)) (kmalloc n s)"
    and "map_option (\<lambda>u. (mem u, manager u, mstats u)) (kfree q t) = map_option (\<lambda>u. (mem u, manager u, mstats u)) (kfree q s)"
  using assms
  by (auto simp: kmalloc_def kfree_def find_block_def compact_free_blocks_def count_alloc_def count_free_def Let_def option.map_comp o_def
      split: option.splits)

lemma heap_functions_undisturbed:
  assumes "irq_env s t"
  shows "map_option (\<lambda>(p, u). (p, mem u, manager u, mstats u)) (kmalloc n t) =
      map_option (\<lambda>(p, u). (p, mem u, manager u, mstats u)) (kmalloc n s)"
    and "map_option (\<lambda>u. (mem u, manager u, mstats u)) (kfree q t) = map_option (\<lambda>u. (mem u, manager u, mstats u)) (kfree q s)"
  using heap_functions_local [OF stableD [OF heap_memory_part.stable_irq refl assms]] by blast+

section \<open>Properties of the interrupted kernel\<close>

text \<open>A part of the main program that is not interrupted is a sequence of steps of the system.\<close>

lemma lift_steps: "(interleave (\<lambda>_ _. False))\<^sup>*\<^sup>* x y \<Longrightarrow> (preempt_step atomic)\<^sup>*\<^sup>* x y"
proof (induction rule: rtranclp_induct)
  case (step y z)
  have "preempt_step atomic y z" using step(2) by (induction rule: interleave.induct) (auto intro: preempt_step.intros)
  then show ?case using step(3) by (rule rtranclp.rtrancl_into_rtrancl [rotated])
qed simp

text \<open>
  C6: the kernel is safe at every point where it can be interrupted. After the boot from zeroed
  static data, however the actions of the main program and hardware interrupts with any contexts
  alternate, at every moment the heap, the page table, the task table and the handler table are
  well-formed, the ring buffer's indices lie in the buffer, every store of a character so far went to
  the screen or to the 80 cells behind it, the next one will, too, and the next action of the main
  program returns. At the positions between its parts the cursor is on the screen; in the main loop
  the ring buffer is consistent, too, if \<open>count--\<close> is one instruction.
\<close>

theorem preempt_safe:
  assumes "zeroed_image s" "kernel_boot l s = Some t" "(preempt_step atomic)\<^sup>*\<^sup>* (Ret Heap_test, t) (p, u)"
  shows "heap_ok u \<and> pages_ok u \<and> tasks_ok u \<and> handlers_ok u \<and> interrupt_flag u \<and> kb_safe u
    \<and> length (vga_buffer u) = 2000 \<and> 0 \<le> cell_index u \<and> cell_index u \<le> 2079
    \<and> list_all (\<lambda>(i, v). 2000 \<le> i \<and> i \<le> 2079) (stray_stores u)
    \<and> (\<forall>f. p = Act f \<longrightarrow> f u \<noteq> None)
    \<and> (\<forall>q. p = Ret q \<longrightarrow> 0 \<le> cursor_x u \<and> cursor_x u < 80 \<and> 0 \<le> cursor_y u \<and> cursor_y u < 25
        \<and> (in_loop q \<longrightarrow> atomic \<longrightarrow> kb_ok u))"
proof -
  have fit: "system_fit atomic (p, u)" by (rule preempts_fit [OF assms(3) boot_fit [OF assms(1,2)]])
  then have all: "always_ok u" by (rule fit_inv)
  have act: "f u \<noteq> None" if "p = Act f" for f using fit_Act [of irq_env always_ok _ f u] fit that by auto
  have ret: "screen_bounds 79 24 u \<and> (in_loop q \<longrightarrow> atomic \<longrightarrow> kb_ok u)" if "p = Ret q" for q
    using fit_Ret [OF fit [unfolded that]] by (cases q) (auto simp: hooked_ok_def in_loop_def kb_ok_front)
  have "0 \<le> cell_index u \<and> cell_index u \<le> 2079"
    using all area_cell [of 79 25 u] area_cell [of 80 24 u] by (auto simp: always_ok_def)
  moreover have "length (vga_buffer u) = 2000" "list_all (\<lambda>(i, v). 2000 \<le> i \<and> i \<le> 2079) (stray_stores u)"
    using all by (auto simp: always_ok_def screen_bounds_def)
  ultimately show ?thesis using all act ret by (auto simp: always_ok_def calm_def screen_bounds_def)
qed

theorem preempt_safe_witness:
  "\<exists>t q u. kernel_boot zero_link power_on_kernel = Some t \<and> main_step Heap_test t = Some (q, u)
    \<and> (preempt_step False)\<^sup>*\<^sup>* (Ret Heap_test, t) (Ret q, u) \<and> heap_ok u \<and> cursor_x u < 80"
proof -
  obtain t where t: "kernel_boot zero_link power_on_kernel = Some t" and ok: "console_inv t" "heap_ok t"
      "tasks_ok t" "handlers_ok t" "kb_ok t"
    using kernel_boot_ok [OF power_on_zeroed, of zero_link] unfolding tasks_ok_def by blast
  obtain q u where u: "main_step Heap_test t = Some (q, u)" using main_step_progress [of t Heap_test] ok by auto
  then have "run (step_prog False Heap_test) t = Some (q, u)" by (simp only: run_step_prog)
  from converse_rtranclp_into_rtranclp [OF preempt_step.goto lift_steps [OF run_steps [OF this]]]
  have r: "(preempt_step False)\<^sup>*\<^sup>* (Ret Heap_test, t) (Ret q, u)" .
  from preempt_safe [OF power_on_zeroed t r] t u r show ?thesis by blast
qed

text \<open>
  C7: reading a key while keys are typed. With a decrement in one instruction, \<open>keyboard_buffer_get\<close>
  returns the oldest character however it is interrupted, never gets stuck, and what stays in the
  buffer are the other characters followed by what the interrupts added.
\<close>

theorem interrupted_get_fifo:
  assumes "screen_bounds 79 24 s" "calm s" "kb_rep s (x # xs)"
    and "(interleave irq_env)\<^sup>*\<^sup>* (keyboard_buffer_get_prog True, s) (p, t)"
  shows "(\<forall>c. p = Ret c \<longrightarrow> c = x \<and> (\<exists>ys. kb_rep t (xs @ ys))) \<and> (\<forall>f. p = Act f \<longrightarrow> f t \<noteq> None)"
proof -
  let ?Q = "\<lambda>c s. (screen_bounds 79 24 s \<and> calm s \<and> kb_front xs s) \<and> c = x"
  have "kb_front (x # xs) s" using assms(3) unfolding kb_front_def by (intro exI [of _ "[]"]) simp
  then have "fit irq_env always_ok ?Q (keyboard_buffer_get_prog True, s)"
    using sat_get_atomic [of xs x] assms(1,2) unfolding fit_def by blast
  then have fit: "fit irq_env always_ok ?Q (p, t)" by (rule fit_steps [OF assms(4)])
  have "c = x \<and> (\<exists>ys. kb_rep t (xs @ ys))" if "p = Ret c" for c
    using fit_Ret [OF fit [unfolded that]] by (simp add: kb_front_def)
  moreover have "f t \<noteq> None" if "p = Act f" for f using fit_Act [OF fit [unfolded that]] by auto
  ultimately show ?thesis by blast
qed

theorem interrupted_get_fifo_witness:
  "\<exists>t u. kernel_boot zero_link power_on_kernel = Some t
    \<and> (interleave irq_env)\<^sup>*\<^sup>* (keyboard_buffer_get_prog True, snd (keyboard_buffer_put 0x61 (init_keyboard t))) (Ret 0x61, u)"
proof -
  obtain t where t: "kernel_boot zero_link power_on_kernel = Some t" and ok: "console_inv t" "heap_ok t" "pages_ok t"
      "tasks_ok t" "handlers_ok t" "interrupt_flag t" "kb_ok t"
    using kernel_boot_ok [OF power_on_zeroed, of zero_link] unfolding tasks_ok_def by blast
  let ?i = "init_keyboard t"
  have "length (buffer (kb_buffer t)) = 256" using ok(7) by (auto simp: kb_ok_def kb_rep_def Let_def)
  then have rep: "kb_rep ?i []" by (rule init_keyboard_rep)
  obtain u where u: "keyboard_buffer_put 0x61 ?i = (True, u)" "kb_rep u [0x61]" using kb_put_room [OF rep] by fastforce
  have "\<exists>b. u = ?i\<lparr>kb_buffer := b\<rparr>" using u(1) by (auto simp: keyboard_buffer_put_def Let_def split: if_splits)
  then obtain b where b: "u = ?i\<lparr>kb_buffer := b\<rparr>" by blast
  have "calm ?i"
    using heap_part.keep_init_keyboard [OF ok(2)] pages_part.keep_init_keyboard [OF ok(3)]
      tasks_part.keep_init_keyboard [OF ok(4)] handlers_part.keep_init_keyboard [OF ok(5)]
      interrupts_part.keep_init_keyboard [of t] ok(6) by (simp add: calm_def)
  then have "calm u" "screen_bounds 79 24 u"
    using console_part.keep_init_keyboard [OF ok(1)] by (simp_all add: b console_inv_def screen_bounds_def)
  moreover obtain c v where "keyboard_buffer_get u = (c, v)" by fastforce
  then have "(interleave irq_env)\<^sup>*\<^sup>* (keyboard_buffer_get_prog True, u) (Ret c, v)" by (intro run_steps) simp
  ultimately have "c = 0x61" "(interleave irq_env)\<^sup>*\<^sup>* (keyboard_buffer_get_prog True, u) (Ret c, v)"
    using interrupted_get_fifo [of u "0x61" "[]" "Ret c" v] u(2) by blast+
  then show ?thesis using t u(1) by auto
qed

text \<open>The way to the load of \<open>count\<close>, and the key that arrives behind it.\<close>

definition store_count :: "u32 \<Rightarrow> u8 \<Rightarrow> ('a keyboard_scheme, u8) prog" where
  "store_count n c = seq (update (\<lambda>s. s\<lparr>kb_buffer := (kb_buffer s)\<lparr>count := n - 1\<rparr>\<rparr>)) (\<lambda>_. Ret c)"

definition advance_tail :: "'a keyboard_scheme \<Rightarrow> 'a keyboard_scheme" where
  "advance_tail s = s\<lparr>kb_buffer := (kb_buffer s)\<lparr>tail := (tail (kb_buffer s) + 1) mod KEYBOARD_BUFFER_SIZE\<rparr>\<rparr>"

lemma get_until_load:
  assumes "kb_front (x # xs) s"
  shows "(interleave E)\<^sup>*\<^sup>* (keyboard_buffer_get_prog False, s) (store_count (count (kb_buffer s)) x, advance_tail s)"
proof -
  let ?store = "\<lambda>n. update (\<lambda>s. s\<lparr>kb_buffer := (kb_buffer s)\<lparr>count := n - 1\<rparr>\<rparr>)"
  let ?advance = "seq (load (\<lambda>s. tail (kb_buffer s))) (\<lambda>t.
      update (\<lambda>s. s\<lparr>kb_buffer := (kb_buffer s)\<lparr>tail := (t + 1) mod KEYBOARD_BUFFER_SIZE\<rparr>\<rparr>))"
  let ?dec = "\<lambda>c. seq (seq (load (\<lambda>s. count (kb_buffer s))) ?store) (\<lambda>_. Ret c)"
  let ?k = "\<lambda>c. seq ?advance (\<lambda>_. ?dec c)"
  let ?read = "seq (load (\<lambda>s. buffer (kb_buffer s) ! unat (tail (kb_buffer s)))) ?k"
  have "(interleave E)\<^sup>*\<^sup>* (keyboard_buffer_get_prog False, s) (if keyboard_buffer_is_empty s then Ret 0 else ?read, s)"
    unfolding keyboard_buffer_get_prog_def decrement_count_def if_False by (rule seq_run) simp
  then have a: "(interleave E)\<^sup>*\<^sup>* (keyboard_buffer_get_prog False, s) (?read, s)" using front_first(1) [OF assms] by simp
  have b: "(interleave E)\<^sup>*\<^sup>* (?read, s) (?k x, s)" by (rule seq_run) (simp add: front_first(2) [OF assms])
  have c: "(interleave E)\<^sup>*\<^sup>* (?k x, s) (?dec x, advance_tail s)" by (rule seq_run) (simp add: run_seq advance_tail_def)
  have d: "(interleave E)\<^sup>*\<^sup>* (?dec x, advance_tail s) (store_count (count (kb_buffer s)) x, advance_tail s)"
    unfolding store_count_def by (intro seq_steps seq_run) (simp add: advance_tail_def)
  from rtranclp_trans [OF rtranclp_trans [OF rtranclp_trans [OF a b] c] d] show ?thesis .
qed

lemma key_put_irq:
  fixes s :: "'a kernel_scheme"
  assumes "interrupt_flag s" "interrupt_handlers s ! 33 = Some Keyboard_interrupt_handler"
    and key: "port_input s (port_reads s) 0x60 = sc" "sc < 128" "\<not> is_special_key sc" "scancode_to_ascii sc s = c" "c \<noteq> 0"
  obtains t where "irq_env s t" "kb_buffer t = kb_buffer (snd (keyboard_buffer_put c s))"
proof -
  obtain p where irq: "irq_handler run_handler (zero_context 33) s = Return (outb 0x20 0x20 (handle_key_press sc p))"
    and p: "kb_buffer p = kb_buffer s" "kb_state p = kb_state s"
    by (rule key_irq [of s "zero_context 33" sc]) (use assms(2) key(1,2) in \<open>auto simp: zero_context_def\<close>)
  have "kb_buffer (handle_key_press sc p) = kb_buffer (snd (keyboard_buffer_put c s))"
    using key(3-5) p scancode_to_ascii_cong [of p s sc]
    by (auto simp: handle_key_press_def keyboard_buffer_put_def keyboard_buffer_is_full_def Let_def)
  then show thesis using irq assms(1) by (intro that [of "outb 0x20 0x20 (handle_key_press sc p)"]) (auto simp: irq_env_def)
qed

text \<open>
  C15: the decrement as a load and a store loses a key. When a key is pressed between the two, the
  store undoes the handler's increment: the buffer then looks empty although the new character
  lies at its front, and it stays there until a later key is pressed.
\<close>

theorem decrement_loses_key:
  fixes s :: "'a kernel_scheme"
  assumes "interrupt_flag s" "kb_rep s [x]" "interrupt_handlers s ! 33 = Some Keyboard_interrupt_handler"
    and key: "port_input s (port_reads s) 0x60 = sc" "sc < 128" "\<not> is_special_key sc" "scancode_to_ascii sc s = c" "c \<noteq> 0"
  shows "\<exists>t. (interleave irq_env)\<^sup>*\<^sup>* (keyboard_buffer_get_prog False, s) (Ret x, t)
    \<and> \<not> keyboard_has_input t \<and> buffer (kb_buffer t) ! unat (tail (kb_buffer t)) = c
    \<and> head (kb_buffer t) \<noteq> tail (kb_buffer t)"
proof -
  let ?b = "kb_buffer s" and ?s = "advance_tail s"
  have front: "kb_front [x] s" using assms(2) by (auto simp: kb_front_def)
  have "unat (count ?b) = 1" using assms(2) by (simp add: kb_rep_def Let_def)
  then have "of_nat (unat (count ?b)) = (1 :: u32)" by simp
  then have r: "length (buffer ?b) = 256" "count ?b = 1" "unat (head ?b) = (unat (tail ?b) + 1) mod 256" "unat (tail ?b) < 256"
    using assms(2) by (auto simp: kb_rep_def Let_def)
  have tail: "unat ((tail ?b + 1) mod KEYBOARD_BUFFER_SIZE) = unat (head ?b)" using unat_advance [OF r(4)] r(3) by simp
  have "scancode_to_ascii sc ?s = c" using key(4) scancode_to_ascii_cong [of ?s s sc] by (simp add: advance_tail_def)
  then obtain t where irq: "irq_env ?s t" "kb_buffer t = kb_buffer (snd (keyboard_buffer_put c ?s))"
    by (rule key_put_irq [rotated 5]) (use assms(1,3) key in \<open>auto simp: advance_tail_def\<close>)
  have b: "kb_buffer t = ?b\<lparr>buffer := (buffer ?b)[unat (head ?b) := c], tail := (tail ?b + 1) mod KEYBOARD_BUFFER_SIZE,
      head := (head ?b + 1) mod KEYBOARD_BUFFER_SIZE, count := 2\<rparr>"
    using r(2) by (simp add: irq(2) advance_tail_def keyboard_buffer_put_def keyboard_buffer_is_full_def KEYBOARD_BUFFER_SIZE_def
        word_le_nat_alt Let_def)
  let ?t = "t\<lparr>kb_buffer := (kb_buffer t)\<lparr>count := 0\<rparr>\<rparr>"
  have load: "(interleave irq_env)\<^sup>*\<^sup>* (keyboard_buffer_get_prog False, s) (store_count 1 x, ?s)"
    using get_until_load [OF front, of irq_env] r(2) by simp
  have intr: "interleave irq_env (store_count 1 x, ?s) (store_count 1 x, t)" by (rule interleave.env [of irq_env, OF irq(1)])
  have store: "(interleave irq_env)\<^sup>*\<^sup>* (store_count 1 x, t) (Ret x, ?t)" unfolding store_count_def by (rule seq_run) simp
  have h: "unat (head ?b) < 256" using r(3) by simp
  then have "unat (head (kb_buffer t)) \<noteq> unat (tail (kb_buffer t))" using tail unat_advance [OF h] by (simp add: b mod_256)
  then have "head (kb_buffer t) \<noteq> tail (kb_buffer t)" by auto
  then show ?thesis
    using rtranclp_trans [OF rtranclp.rtrancl_into_rtrancl [OF load intr] store] tail r(1) h
    by (intro exI [of _ ?t]) (simp add: keyboard_has_input_def keyboard_buffer_is_empty_def b)
qed

theorem decrement_loses_key_witness:
  "\<exists>s t. (interleave irq_env)\<^sup>*\<^sup>* (keyboard_buffer_get_prog False, (s :: kernel)) (Ret 0x62, t)
    \<and> \<not> keyboard_has_input t \<and> buffer (kb_buffer t) ! unat (tail (kb_buffer t)) = 0x61"
proof -
  let ?i = "init_keyboard (power_on_kernel\<lparr>port_input := \<lambda>k p. 0x1E\<rparr>)\<lparr>interrupt_flag := True\<rparr>"
  have h: "length (interrupt_handlers power_on_kernel) = 256" "length (buffer (kb_buffer power_on_kernel)) = 256"
    by (simp_all add: power_on_defs)
  then have "kb_rep (init_keyboard (power_on_kernel\<lparr>port_input := \<lambda>k p. 0x1E\<rparr>)) []" by (intro init_keyboard_rep) simp
  then have "kb_rep ?i []" using kb_rep_cong [of ?i "init_keyboard (power_on_kernel\<lparr>port_input := \<lambda>k p. 0x1E\<rparr>)"] by simp
  then obtain s where s: "keyboard_buffer_put 0x62 ?i = (True, s)" "kb_rep s [0x62]" using kb_put_room [of ?i "[]" "0x62"] by auto
  then obtain b where b: "s = ?i\<lparr>kb_buffer := b\<rparr>" by (auto simp: keyboard_buffer_put_def Let_def split: if_splits)
  have fields: "interrupt_handlers ?i ! 33 = Some Keyboard_interrupt_handler" "port_input ?i (port_reads ?i) 0x60 = 0x1E"
      "\<not> shift_pressed (kb_state ?i)" "\<not> caps_lock (kb_state ?i)"
    using h by (simp_all add: init_keyboard_def register_interrupt_handler_def Let_def)
  have ascii: "scancode_to_ascii 0x1E s = 0x61"
    using fields(3,4) by (simp add: b scancode_to_ascii_def scancode_to_ascii_table_def Let_def)
  have special: "\<not> is_special_key 0x1E"
    by (simp add: is_special_key_def KEY_LSHIFT_def KEY_RSHIFT_def KEY_CTRL_def KEY_ALT_def KEY_CAPS_def)
  have "interrupt_flag s" "interrupt_handlers s ! 33 = Some Keyboard_interrupt_handler" "port_input s (port_reads s) 0x60 = 0x1E"
    using fields by (simp_all add: b)
  from decrement_loses_key [OF this(1) s(2) this(2,3) _ special ascii] show ?thesis by auto
qed

text \<open>
  A store behind the screen does happen: at the bottom row a newline first advances \<open>cursor_y\<close> and only
  then tests it. When the timer interrupt that prints a dot comes in between, the dot is stored at the
  cell with index 2000, the first one behind the video buffer.
\<close>

lemma newline_off_screen:
  fixes s :: "'a kernel_scheme"
  assumes "cursor_y s = 24"
  shows "\<exists>p. (interleave irq_env)\<^sup>*\<^sup>* (print_char_prog 0x0A, s) (p, s\<lparr>cursor_x := 0, cursor_y := 25\<rparr>)"
proof -
  let ?u = "s\<lparr>cursor_x := 0, cursor_y := 25\<rparr>"
  let ?test = "seq (load cursor_y) (\<lambda>y. if y \<ge> VGA_HEIGHT
      then block [update (\<lambda>s. s\<lparr>cursor_y := VGA_HEIGHT - 1\<rparr>), scroll_screen_prog] else Ret ())"
  let ?next = "seq (load cursor_y) (\<lambda>y. update (\<lambda>s. s\<lparr>cursor_y := y + 1\<rparr>))"
  have first: "(interleave irq_env)\<^sup>*\<^sup>* (print_char_prog 0x0A, s) (block [?next, ?test], s\<lparr>cursor_x := 0\<rparr>)"
    using seq_run [of "update (\<lambda>s. s\<lparr>cursor_x := 0\<rparr>)" s "()" "s\<lparr>cursor_x := 0\<rparr>" irq_env "\<lambda>_. block [?next, ?test]"]
    by (simp add: print_char_prog_def new_line_prog_def block_def)
  have "(interleave irq_env)\<^sup>*\<^sup>* (block [?next, ?test], s\<lparr>cursor_x := 0\<rparr>) (block [?test], ?u)"
    using seq_run [of ?next "s\<lparr>cursor_x := 0\<rparr>" "()" ?u irq_env "\<lambda>_. block [?test]"] assms
    by (simp add: block_def run_seq)
  from rtranclp_trans [OF first this] show ?thesis by blast
qed

lemma dot_printed:
  assumes "timer_handler ctx s = Return t" "(tick_count s + 1) mod 100 = 0"
  shows "stray_stores t = stray_stores (print_char 0x2E (s\<lparr>tick_count := tick_count s + 1\<rparr>))"
proof -
  let ?u = "print_char 0x2E (s\<lparr>tick_count := tick_count s + 1\<rparr>)"
  have "t = ?u \<or> schedule ?u = Some t"
    using assms by (auto simp: timer_handler_def Let_def outcome_of_option_def split: if_splits option.splits)
  then show ?thesis using schedule_only [of ?u t] by auto
qed

theorem dot_behind_screen:
  fixes s :: "'a kernel_scheme"
  assumes "console_inv s" "cursor_y s = 24" "calm s" "interrupt_handlers s ! 32 = Some Timer_handler" "(tick_count s + 1) mod 100 = 0"
  shows "\<exists>p u. (interleave irq_env)\<^sup>*\<^sup>* (print_char_prog 0x0A, s) (p, u) \<and> stray_stores u = [(2000, 0x0F2E)]"
proof -
  let ?u = "s\<lparr>cursor_x := 0, cursor_y := 25\<rparr>" and ?c = "zero_context 32"
  obtain p where p: "(interleave irq_env)\<^sup>*\<^sup>* (print_char_prog 0x0A, s) (p, ?u)" using newline_off_screen [OF assms(2)] by blast
  have "calm ?u" using assms(3) by simp
  then obtain t where t: "irq_handler run_handler ?c ?u = Return t"
    using irq_progress [of ?u ?c] by (auto simp: calm_def zero_context_def)
  then have "irq_env ?u t" using assms(3) by (auto simp: irq_env_def calm_def)
  then have "(interleave irq_env)\<^sup>*\<^sup>* (print_char_prog 0x0A, s) (p, t)"
    using p interleave.env by (metis rtranclp.rtrancl_into_rtrancl)
  moreover have "timer_handler ?c (acknowledged ?u) = Return t"
    using t assms(4) irq_acknowledged [of ?c ?u] by (simp add: zero_context_def)
  from dot_printed [OF this] have "stray_stores t = [(2000, vga_cell 0x2E)]"
    using assms(5) console_invD(1,6) [OF assms(1)]
    by (simp add: acknowledged_def print_char_def vga_store_def cell_index_def VGA_WIDTH_def Let_def)
  moreover have "vga_cell 0x2E = 0x0F2E" by code_simp
  ultimately show ?thesis by auto
qed

text \<open>
  The steps of the coarser system are among the fine ones: a part of the main program without
  interrupts, or one interrupt between two parts.
\<close>

theorem coarse_steps_included:
  assumes "system_step (p, s) (q, t)"
  shows "(preempt_step atomic)\<^sup>*\<^sup>* (Ret p, s) (Ret q, t)"
  using assms
proof cases
  case main
  then have "run (step_prog atomic p) s = Some (q, t)"
    by (simp add: run_step_prog)
  from converse_rtranclp_into_rtranclp [OF preempt_step.goto lift_steps [OF run_steps [OF this]]] show ?thesis .
next
  case (irq ctx)
  then have "irq_env s t" by (auto simp: irq_env_def)
  from preempt_step.interrupt [OF this, of atomic "Ret p"] irq show ?thesis by auto
qed

end
