(* ===== verification/Boot.thy ===== *)
theory Boot
  imports Prelude
begin

text \<open>
  The boot sector \<open>boot/boot.asm\<close>: 512 bytes the firmware loads at 0x7C00 and enters in real mode.
  The code is the list of its instructions at their addresses, a step executes the one at \<open>b_ip\<close>,
  and the firmware's video services (\<open>int 0x10\<close>) are an argument of the boot_step, with what the code
  relies on as the predicate \<open>bios_conforms\<close>.
\<close>

section \<open>The machine\<close>

record boot =
  b_ip :: u16
  b_ax :: u16
  b_si :: u16
  b_sp :: u16
  b_ds :: u16
  b_es :: u16
  b_ss :: u16
  zero_flag :: bool
  direction :: bool
  ram :: "u32 \<Rightarrow> u8"
  bios_calls :: "u16 list"

definition linear :: "u16 \<Rightarrow> u16 \<Rightarrow> u32" where
  "linear seg off = 16 * ucast seg + ucast off"

definition low8 :: "u16 \<Rightarrow> u8" where
  "low8 w = ucast w"

definition set_low :: "u8 \<Rightarrow> u16 \<Rightarrow> u16" where
  "set_low v w = (w AND 0xFF00) OR ucast v"

definition set_high :: "u8 \<Rightarrow> u16 \<Rightarrow> u16" where
  "set_high v w = push_bit 8 (ucast v) OR (w AND 0x00FF)"

definition push16 :: "u16 \<Rightarrow> boot \<Rightarrow> boot" where
  "push16 v s = (let s = s\<lparr>b_sp := b_sp s - 2\<rparr>
     in s\<lparr>ram := (ram s)(linear (b_ss s) (b_sp s) := ucast v, linear (b_ss s) (b_sp s + 1) := ucast (drop_bit 8 v))\<rparr>)"

definition top16 :: "boot \<Rightarrow> u16" where
  "top16 s = ucast (ram s (linear (b_ss s) (b_sp s))) OR push_bit 8 (ucast (ram s (linear (b_ss s) (b_sp s + 1))))"

section \<open>Instructions\<close>

datatype instr =
  Xor_ax_ax | Mov_ds_ax | Mov_es_ax | Mov_ss_ax | Mov_sp u16 | Mov_si u16 | Mov_ah u8 | Mov_al u8
  | Call u16 | Ret_near | Jmp u16 | Jz u16 | Lodsb | Or_al_al | Int10

fun instr_size :: "instr \<Rightarrow> u16" where
  "instr_size (Mov_sp _) = 3"
| "instr_size (Mov_si _) = 3"
| "instr_size (Call _) = 3"
| "instr_size Ret_near = 1"
| "instr_size Lodsb = 1"
| "instr_size _ = 2"

text \<open>The effect of an instruction; \<open>b_ip\<close> already points behind it.\<close>

fun execute :: "(boot \<Rightarrow> boot) \<Rightarrow> instr \<Rightarrow> boot \<Rightarrow> boot" where
  "execute bios Xor_ax_ax s = s\<lparr>b_ax := 0, zero_flag := True\<rparr>"
| "execute bios Mov_ds_ax s = s\<lparr>b_ds := b_ax s\<rparr>"
| "execute bios Mov_es_ax s = s\<lparr>b_es := b_ax s\<rparr>"
| "execute bios Mov_ss_ax s = s\<lparr>b_ss := b_ax s\<rparr>"
| "execute bios (Mov_sp v) s = s\<lparr>b_sp := v\<rparr>"
| "execute bios (Mov_si v) s = s\<lparr>b_si := v\<rparr>"
| "execute bios (Mov_ah v) s = s\<lparr>b_ax := set_high v (b_ax s)\<rparr>"
| "execute bios (Mov_al v) s = s\<lparr>b_ax := set_low v (b_ax s)\<rparr>"
| "execute bios (Call a) s = (push16 (b_ip s) s)\<lparr>b_ip := a\<rparr>"
| "execute bios Ret_near s = s\<lparr>b_ip := top16 s, b_sp := b_sp s + 2\<rparr>"
| "execute bios (Jmp a) s = s\<lparr>b_ip := a\<rparr>"
| "execute bios (Jz a) s = (if zero_flag s then s\<lparr>b_ip := a\<rparr> else s)"
| "execute bios Lodsb s = s\<lparr>b_ax := set_low (ram s (linear (b_ds s) (b_si s))) (b_ax s),
     b_si := (if direction s then b_si s - 1 else b_si s + 1)\<rparr>"
| "execute bios Or_al_al s = s\<lparr>zero_flag := (low8 (b_ax s) = 0)\<rparr>"
| "execute bios Int10 s = bios (s\<lparr>bios_calls := bios_calls s @ [b_ax s]\<rparr>)"

section \<open>The code\<close>

definition clear_screen_label :: u16 where "clear_screen_label = 0x7C16"
definition print_string_label :: u16 where "print_string_label = 0x7C1D"
definition done_label :: u16 where "done_label = 0x7C28"
definition hi_msg_label :: u16 where "hi_msg_label = 0x7C29"

definition boot_code :: "(u16 \<times> instr) list" where
  "boot_code =
     [(0x7C00, Xor_ax_ax), (0x7C02, Mov_ds_ax), (0x7C04, Mov_es_ax), (0x7C06, Mov_ss_ax), (0x7C08, Mov_sp 0x7C00),
      (0x7C0B, Call clear_screen_label), (0x7C0E, Mov_si hi_msg_label), (0x7C11, Call print_string_label), (0x7C14, Jmp 0x7C14),
      (0x7C16, Mov_ah 0x00), (0x7C18, Mov_al 0x03), (0x7C1A, Int10), (0x7C1C, Ret_near),
      (0x7C1D, Lodsb), (0x7C1E, Or_al_al), (0x7C20, Jz done_label), (0x7C22, Mov_ah 0x0E), (0x7C24, Int10),
      (0x7C26, Jmp print_string_label), (0x7C28, Ret_near)]"

definition hi_msg :: "u8 list" where
  "hi_msg = cstr ''hi'' @ [13, 10, 0]"

definition boot_step :: "(boot \<Rightarrow> boot) \<Rightarrow> boot \<Rightarrow> boot option" where
  "boot_step bios s = map_option (\<lambda>i. execute bios i (s\<lparr>b_ip := b_ip s + instr_size i\<rparr>)) (map_of boot_code (b_ip s))"

definition leads :: "(boot \<Rightarrow> boot) \<Rightarrow> boot \<Rightarrow> boot \<Rightarrow> bool" where
  "leads bios = (\<lambda>s t. boot_step bios s = Some t)\<^sup>*\<^sup>*"

text \<open>
  The assembler's layout: an instruction follows the one before it, the text follows the last instruction, and
  what is left of the first 510 bytes is filled with zeros before the signature.
\<close>

fun laid_out :: "u16 \<Rightarrow> (u16 \<times> instr) list \<Rightarrow> u16 option" where
  "laid_out a [] = Some a"
| "laid_out a ((b, i) # cs) = (if a = b then laid_out (a + instr_size i) cs else None)"

definition sector_tail :: "u8 list" where
  "sector_tail = replicate (510 - (unat (hi_msg_label - 0x7C00) + length hi_msg)) 0 @ [0x55, 0xAA]"

lemma boot_layout: "laid_out 0x7C00 boot_code = Some hi_msg_label"
  "unat (hi_msg_label - 0x7C00) + length hi_msg + length sector_tail = 512"
  by code_simp+

section \<open>What the code relies on\<close>

text \<open>
  A video service returns behind the \<open>int\<close> instruction with the segment registers, the stack pointer,
  \<open>b_si\<close> and the direction flag kept, and writes neither to the stack above its own part nor to the
  loaded sector. The list of calls is a record of what was asked for.
\<close>

definition bios_conforms :: "(boot \<Rightarrow> boot) \<Rightarrow> bool" where
  "bios_conforms bios \<longleftrightarrow> (\<forall>s. b_ip (bios s) = b_ip s \<and> b_si (bios s) = b_si s \<and> b_sp (bios s) = b_sp s \<and> b_ds (bios s) = b_ds s
     \<and> b_es (bios s) = b_es s \<and> b_ss (bios s) = b_ss s \<and> direction (bios s) = direction s \<and> bios_calls (bios s) = bios_calls s
     \<and> (\<forall>a. linear (b_ss s) (b_sp s) \<le> a \<longrightarrow> a < 0x7E00 \<longrightarrow> ram (bios s) a = ram s a))"

text \<open>The state in which the firmware enters the sector: its text in memory, forward string operations.\<close>

definition entered :: "boot \<Rightarrow> bool" where
  "entered s \<longleftrightarrow> b_ip s = 0x7C00 \<and> \<not> direction s \<and> map (\<lambda>i. ram s (linear 0 hi_msg_label + of_nat i)) [0..<length hi_msg] = hi_msg"

section \<open>Execution\<close>

lemma leads_refl [simp]: "leads bios s s"
  by (simp add: leads_def)

lemma leads_step: "boot_step bios s = Some t \<Longrightarrow> leads bios t u \<Longrightarrow> leads bios s u"
  unfolding leads_def by (rule converse_rtranclp_into_rtranclp)

lemma leads_trans: "leads bios s t \<Longrightarrow> leads bios t u \<Longrightarrow> leads bios s u"
  unfolding leads_def by (rule rtranclp_trans)

lemma bytes_word: "ucast (ucast v :: u8) OR push_bit 8 (ucast (ucast (drop_bit 8 v) :: u8)) = (v :: u16)"
  by (rule bit_word_eqI) (auto simp: bit_simps)

lemma byte_masks: "(0xFF00 :: u16) = NOT (mask 8)" "(0xFF :: u16) = mask 8"
  by (simp_all add: mask_eq_exp_minus_1)

lemma low_set_low [simp]: "low8 (set_low v w) = v"
  unfolding low8_def set_low_def byte_masks by (rule bit_word_eqI) (auto simp: bit_simps)

lemma set_high_low: "set_high h (set_low v w) = push_bit 8 (ucast h) OR ucast v"
  unfolding set_high_def set_low_def byte_masks
  by (rule bit_word_eqI) (auto simp: bit_simps dest: bit_imp_le_length)

text \<open>One turn of the loop of \<open>print_string\<close>, for a character and for the end of the text.\<close>

definition stack_kept :: "boot \<Rightarrow> boot \<Rightarrow> bool" where
  "stack_kept s t \<longleftrightarrow> b_sp t = b_sp s \<and> b_ds t = b_ds s \<and> b_ss t = b_ss s \<and> direction t = direction s
     \<and> (\<forall>a. linear (b_ss s) (b_sp s) \<le> a \<longrightarrow> a < 0x7E00 \<longrightarrow> ram t a = ram s a)"

lemma keeps_trans: "stack_kept s t \<Longrightarrow> stack_kept t u \<Longrightarrow> stack_kept s u"
  by (auto simp: stack_kept_def)

fun boot_steps :: "(boot \<Rightarrow> boot) \<Rightarrow> nat \<Rightarrow> boot \<Rightarrow> boot option" where
  "boot_steps bios 0 s = Some s"
| "boot_steps bios (Suc n) s = Option.bind (boot_step bios s) (boot_steps bios n)"

lemma steps_numeral: "boot_steps bios (numeral k) s = Option.bind (boot_step bios s) (boot_steps bios (pred_numeral k))"
  by (simp add: numeral_eq_Suc)

lemma fetch:
  "map_of boot_code 0x7C00 = Some Xor_ax_ax" "map_of boot_code 0x7C02 = Some Mov_ds_ax" "map_of boot_code 0x7C04 = Some Mov_es_ax"
  "map_of boot_code 0x7C06 = Some Mov_ss_ax" "map_of boot_code 0x7C08 = Some (Mov_sp 0x7C00)"
  "map_of boot_code 0x7C0B = Some (Call 0x7C16)" "map_of boot_code 0x7C0E = Some (Mov_si 0x7C29)"
  "map_of boot_code 0x7C11 = Some (Call 0x7C1D)" "map_of boot_code 0x7C14 = Some (Jmp 0x7C14)"
  "map_of boot_code 0x7C16 = Some (Mov_ah 0)" "map_of boot_code 0x7C18 = Some (Mov_al 3)" "map_of boot_code 0x7C1A = Some Int10"
  "map_of boot_code 0x7C1C = Some Ret_near" "map_of boot_code 0x7C1D = Some Lodsb" "map_of boot_code 0x7C1E = Some Or_al_al"
  "map_of boot_code 0x7C20 = Some (Jz 0x7C28)" "map_of boot_code 0x7C22 = Some (Mov_ah 0x0E)" "map_of boot_code 0x7C24 = Some Int10"
  "map_of boot_code 0x7C26 = Some (Jmp 0x7C1D)" "map_of boot_code 0x7C28 = Some Ret_near"
  by (simp_all add: boot_code_def clear_screen_label_def print_string_label_def done_label_def hi_msg_label_def)

lemmas code_simps = steps_numeral boot_step_def fetch

lemma steps_leads: "boot_steps bios n s = Some t \<Longrightarrow> leads bios s t"
proof (induction n arbitrary: s)
  case (Suc n)
  then obtain u where "boot_step bios s = Some u" "boot_steps bios n u = Some t" by (auto simp: bind_eq_Some_conv)
  then show ?case using Suc.IH leads_step by blast
qed simp

lemma conforms:
  assumes "bios_conforms bios"
  shows "b_ip (bios s) = b_ip s" "b_si (bios s) = b_si s" "b_sp (bios s) = b_sp s" "b_ds (bios s) = b_ds s" "b_ss (bios s) = b_ss s"
    "direction (bios s) = direction s" "bios_calls (bios s) = bios_calls s"
    "linear (b_ss s) (b_sp s) \<le> a \<Longrightarrow> a < 0x7E00 \<Longrightarrow> ram (bios s) a = ram s a"
  using assms by (simp_all add: bios_conforms_def)

lemma print_turn:
  assumes bios: "bios_conforms bios" and s: "b_ip s = 0x7C1D" "\<not> direction s" "ram s (linear (b_ds s) (b_si s)) = c" "c \<noteq> 0"
  shows "\<exists>t. leads bios s t \<and> b_ip t = 0x7C1D \<and> b_si t = b_si s + 1 \<and> stack_kept s t \<and> bios_calls t = bios_calls s @ [0x0E00 OR ucast c]"
proof -
  let ?s = "s\<lparr>b_si := b_si s + 1, zero_flag := False, b_ax := 0x0E00 OR ucast c, b_ip := 0x7C26,
    bios_calls := bios_calls s @ [0x0E00 OR ucast c]\<rparr>"
  let ?t = "(bios ?s)\<lparr>b_ip := 0x7C1D\<rparr>"
  have "boot_steps bios 6 s = Some ?t"
    using s by (simp add: code_simps set_high_low conforms(1) [OF bios])
  then show ?thesis
    by (intro exI [of _ ?t] conjI steps_leads [of _ 6]) (simp_all add: stack_kept_def conforms [OF bios])
qed

lemma print_end:
  assumes "b_ip s = 0x7C1D" "ram s (linear (b_ds s) (b_si s)) = 0"
  shows "\<exists>t. leads bios s t \<and> b_ip t = 0x7C28 \<and> stack_kept s t \<and> bios_calls t = bios_calls s"
proof -
  let ?t = "s\<lparr>b_ip := 0x7C28, b_ax := set_low 0 (b_ax s), b_si := (if direction s then b_si s - 1 else b_si s + 1), zero_flag := True\<rparr>"
  have "boot_steps bios 3 s = Some ?t"
    using assms by (simp add: code_simps)
  then show ?thesis by (intro exI [of _ ?t] conjI steps_leads [of _ 3]) (simp_all add: stack_kept_def)
qed

text \<open>\<open>print_string\<close> prints the characters up to the terminating zero, in order.\<close>

lemma linear_0: "linear 0 off = of_nat (unat off)"
  by (simp add: linear_def unsigned_ucast_eq of_nat_unat)

lemma print_string_loop:
  assumes "bios_conforms bios" "b_ip s = 0x7C1D" "\<not> direction s" "b_ds s = 0"
    and "\<forall>i < length cs. ram s (of_nat (unat (b_si s) + i)) = cs ! i \<and> cs ! i \<noteq> 0" "ram s (of_nat (unat (b_si s) + length cs)) = 0"
    and "unat (b_si s) + length cs < 0x7E00" "linear (b_ss s) (b_sp s) \<le> of_nat (unat (b_si s))"
  shows "\<exists>t. leads bios s t \<and> b_ip t = 0x7C28 \<and> stack_kept s t \<and> bios_calls t = bios_calls s @ map (\<lambda>c. 0x0E00 OR ucast c) cs"
  using assms(2-)
proof (induction cs arbitrary: s)
  case Nil
  then show ?case using print_end [of s bios] by (simp add: linear_0)
next
  case (Cons c cs)
  have c: "ram s (linear (b_ds s) (b_si s)) = c" "c \<noteq> 0"
    using Cons.prems(4) [rule_format, of 0] Cons.prems(3) by (simp_all add: linear_0)
  obtain u where u: "leads bios s u" "b_ip u = 0x7C1D" "b_si u = b_si s + 1" "stack_kept s u" "bios_calls u = bios_calls s @ [0x0E00 OR ucast c]"
    using print_turn [OF assms(1) Cons.prems(1,2) c] by blast
  have si: "unat (b_si u) = unat (b_si s) + 1" using Cons.prems(6) by (simp add: u(3) unat_word_ariths)
  have le: "linear (b_ss s) (b_sp s) \<le> of_nat (unat (b_si s) + i)" "of_nat (unat (b_si s) + i) < (0x7E00 :: u32)"
    if "i \<le> Suc (length cs)" for i
  proof -
    have "unat (of_nat (unat (b_si s) + i) :: u32) = unat (b_si s) + i" "unat (of_nat (unat (b_si s)) :: u32) = unat (b_si s)"
      using Cons.prems(6) that by (simp_all only: unat_of_nat take_bit_eq_mod) simp_all
    then show "linear (b_ss s) (b_sp s) \<le> of_nat (unat (b_si s) + i)" "of_nat (unat (b_si s) + i) < (0x7E00 :: u32)"
      using Cons.prems(6,7) that by (simp_all only: word_le_nat_alt word_less_nat_alt) simp_all
  qed
  then have ram: "ram u (of_nat (unat (b_si u) + i)) = ram s (of_nat (unat (b_si s) + Suc i))" if "i \<le> length cs" for i
  proof -
    have "unat (b_si u) + i = unat (b_si s) + Suc i" by (simp add: si)
    moreover have "ram u a = ram s a" if "linear (b_ss s) (b_sp s) \<le> a" "a < 0x7E00" for a
      using u(4) that by (simp add: stack_kept_def)
    moreover have "Suc i \<le> Suc (length cs)" using that by simp
    ultimately show ?thesis using le by metis
  qed
  have "\<exists>t. leads bios u t \<and> b_ip t = 0x7C28 \<and> stack_kept u t \<and> bios_calls t = bios_calls u @ map (\<lambda>c. 0x0E00 OR ucast c) cs"
  proof (rule Cons.IH)
    show "\<forall>i < length cs. ram u (of_nat (unat (b_si u) + i)) = cs ! i \<and> cs ! i \<noteq> 0"
      using Cons.prems(4) ram by fastforce
    show "ram u (of_nat (unat (b_si u) + length cs)) = 0" using Cons.prems(5) ram [of "length cs"] by simp
    show "linear (b_ss u) (b_sp u) \<le> of_nat (unat (b_si u))" using u(4) le(1) [of 1] by (simp add: stack_kept_def si)
  qed (use Cons.prems u si in \<open>auto simp: stack_kept_def\<close>)
  then obtain t where t: "leads bios u t" "b_ip t = 0x7C28" "stack_kept u t"
    "bios_calls t = bios_calls u @ map (\<lambda>c. 0x0E00 OR ucast c) cs" by blast
  then show ?case
    by (intro exI [of _ t] conjI leads_trans [OF u(1)] keeps_trans [OF u(4)]) (simp_all add: u(5))
qed

text \<open>A subroutine that stack_kept the stack returns behind its call.\<close>

lemma top16_push16: "b_ss s = 0 \<Longrightarrow> b_sp s = 0x7C00 \<Longrightarrow> top16 (push16 v s) = v"
  by (simp add: top16_def push16_def linear_def bytes_word)

lemma top16_keeps: "stack_kept s t \<Longrightarrow> b_ss s = 0 \<Longrightarrow> b_sp s = 0x7BFE \<Longrightarrow> top16 t = top16 s"
  by (simp add: top16_def stack_kept_def linear_def)

lemma push16_fields [simp]:
  "b_ip (push16 v s) = b_ip s" "b_ax (push16 v s) = b_ax s" "b_si (push16 v s) = b_si s" "b_sp (push16 v s) = b_sp s - 2" "b_ds (push16 v s) = b_ds s"
  "b_ss (push16 v s) = b_ss s" "direction (push16 v s) = direction s" "bios_calls (push16 v s) = bios_calls s"
  by (simp_all add: push16_def Let_def)

lemma push16_ram: "b_ss s = 0 \<Longrightarrow> b_sp s = 0x7C00 \<Longrightarrow> 0x7C00 \<le> a \<Longrightarrow> ram (push16 v s) a = ram s a"
  by (auto simp: push16_def Let_def linear_def)

lemma clear_screen_run:
  assumes bios: "bios_conforms bios" and s: "b_ip s = 0x7C16" "b_ax s = 0"
  shows "\<exists>t. leads bios s t \<and> b_ip t = 0x7C1C \<and> stack_kept s t \<and> bios_calls t = bios_calls s @ [0x0003]"
proof -
  let ?t = "bios (s\<lparr>b_ax := 3, b_ip := 0x7C1C, bios_calls := bios_calls s @ [3]\<rparr>)"
  have "boot_steps bios 3 s = Some ?t"
    using s by (simp add: code_simps set_high_def set_low_def)
  then show ?thesis
    by (intro exI [of _ ?t] conjI steps_leads [of _ 3]) (simp_all add: stack_kept_def conforms [OF bios])
qed

definition sector_kept :: "boot \<Rightarrow> boot \<Rightarrow> bool" where
  "sector_kept s t \<longleftrightarrow> b_sp t = b_sp s \<and> b_ds t = b_ds s \<and> b_ss t = b_ss s \<and> direction t = direction s
     \<and> (\<forall>a. 0x7C00 \<le> a \<longrightarrow> a < 0x7E00 \<longrightarrow> ram t a = ram s a)"

lemma call_returns:
  assumes s: "map_of boot_code (b_ip s) = Some (Call a)" "b_ss s = 0" "b_sp s = 0x7C00"
    and body: "leads bios ((push16 (b_ip s + 3) s)\<lparr>b_ip := a\<rparr>) t" "stack_kept (push16 (b_ip s + 3) s) t" "map_of boot_code (b_ip t) = Some Ret_near"
  shows "\<exists>u. leads bios s u \<and> b_ip u = b_ip s + 3 \<and> sector_kept s u \<and> bios_calls u = bios_calls t"
proof -
  let ?p = "push16 (b_ip s + 3) s" and ?u = "t\<lparr>b_ip := b_ip s + 3, b_sp := 0x7C00\<rparr>"
  have "boot_step bios s = Some (?p\<lparr>b_ip := a\<rparr>)" by (simp add: boot_step_def s(1) push16_def Let_def)
  moreover have "top16 t = b_ip s + 3" "b_sp t = 0x7BFE"
    using top16_keeps [OF body(2)] top16_push16 [OF s(2,3)] s(2,3) body(2) by (simp_all add: stack_kept_def)
  then have "boot_step bios t = Some ?u" by (simp add: boot_step_def body(3) top16_def)
  ultimately have "leads bios s ?u"
    by (intro leads_step [OF _ leads_trans [OF body(1) leads_step [OF _ leads_refl]]])
  moreover have "ram t a = ram s a" if "0x7C00 \<le> a" "a < 0x7E00" for a
  proof -
    have "0x7BFE \<le> a" using that(1) by (rule order.trans [rotated]) simp
    then show ?thesis using body(2) push16_ram [OF s(2,3) that(1)] that s(2,3) by (simp add: stack_kept_def linear_def)
  qed
  ultimately show ?thesis
    using body(2) s(2,3) by (intro exI [of _ ?u]) (simp add: sector_kept_def stack_kept_def)
qed

text \<open>The two calls of \<open>start\<close>, on the stack it sets up.\<close>

lemma clear_screen_call:
  assumes bios: "bios_conforms bios" and s: "b_ip s = 0x7C0B" "b_ax s = 0" "b_ss s = 0" "b_sp s = 0x7C00"
  shows "\<exists>t. leads bios s t \<and> b_ip t = 0x7C0E \<and> sector_kept s t \<and> bios_calls t = bios_calls s @ [0x0003]"
proof -
  let ?c = "(push16 0x7C0E s)\<lparr>b_ip := 0x7C16\<rparr>"
  obtain t where "leads bios ?c t" "b_ip t = 0x7C1C" "stack_kept ?c t" "bios_calls t = bios_calls s @ [3]"
    using clear_screen_run [OF bios, of ?c] s by auto
  then show ?thesis using call_returns [of s "0x7C16" bios t] s by (auto simp: fetch stack_kept_def)
qed

lemma print_string_call:
  assumes bios: "bios_conforms bios" and s: "b_ip s = 0x7C0E" "b_ss s = 0" "b_sp s = 0x7C00" "b_ds s = 0" "\<not> direction s"
    and msg: "ram s 0x7C29 = 0x68" "ram s 0x7C2A = 0x69" "ram s 0x7C2B = 13" "ram s 0x7C2C = 10" "ram s 0x7C2D = 0"
  shows "\<exists>t. leads bios s t \<and> b_ip t = 0x7C14 \<and> b_sp t = 0x7C00 \<and> bios_calls t = bios_calls s @ [0x0E68, 0x0E69, 0x0E0D, 0x0E0A]"
proof -
  let ?s = "s\<lparr>b_ip := 0x7C11, b_si := 0x7C29\<rparr>" and ?cs = "[0x68, 0x69, 13, 10] :: u8 list"
  let ?d = "(push16 0x7C14 ?s)\<lparr>b_ip := 0x7C1D\<rparr>"
  have 1: "leads bios s ?s" using s(1) by (intro steps_leads [of _ 1]) (simp add: boot_step_def fetch)
  have ram: "ram (push16 0x7C14 ?s) a = ram s a" if "0x7C00 \<le> a" for a
    using push16_ram [of ?s a] s that by simp
  have "\<exists>t. leads bios ?d t \<and> b_ip t = 0x7C28 \<and> stack_kept ?d t
    \<and> bios_calls t = bios_calls ?d @ map (\<lambda>c. 0x0E00 OR ucast c) ?cs"
  proof (rule print_string_loop [OF bios])
    show "\<forall>i < length ?cs. ram ?d (of_nat (unat (b_si ?d) + i)) = ?cs ! i \<and> ?cs ! i \<noteq> 0"
      using msg by (auto simp: ram less_Suc_eq)
  qed (use s ram msg in \<open>simp_all add: linear_def\<close>)
  then obtain t where "leads bios ?d t" "b_ip t = 0x7C28" "stack_kept ?d t"
    "bios_calls t = bios_calls s @ [0x0E68, 0x0E69, 0x0E0D, 0x0E0A]" by auto
  then show ?thesis
    using call_returns [of ?s "0x7C1D" bios t] s leads_trans [OF 1] by (auto simp: fetch stack_kept_def sector_kept_def)
qed

text \<open>
  C20: entered by the firmware with conforming video services, the boot sector sets the text mode, prints the
  text \<open>hi\<close> and a line end, one service call per character, and ends in the loop at 0x7C14, which never
  leaves that address: the kernel that the build appends to the image is never loaded nor entered.
\<close>

theorem boot_greeting:
  assumes bios: "bios_conforms bios" and s: "entered s"
  shows "\<exists>t. leads bios s t \<and> b_ip t = 0x7C14 \<and> b_sp t = 0x7C00 \<and> boot_step bios t = Some t
     \<and> bios_calls t = bios_calls s @ [0x0003, 0x0E68, 0x0E69, 0x0E0D, 0x0E0A]"
proof -
  let ?s = "s\<lparr>b_ax := 0, zero_flag := True, b_ds := 0, b_es := 0, b_ss := 0, b_ip := 0x7C0B, b_sp := 0x7C00\<rparr>"
  have ip: "b_ip s = 0x7C00" and dir: "\<not> direction s" using s by (simp_all add: entered_def)
  have msg: "ram s 0x7C29 = 0x68" "ram s 0x7C2A = 0x69" "ram s 0x7C2B = 13" "ram s 0x7C2C = 10" "ram s 0x7C2D = 0"
    using s by (simp_all add: entered_def hi_msg_def cstr_def hi_msg_label_def linear_def upt_rec)
  have 1: "leads bios s ?s"
    using ip by (intro steps_leads [of _ 5]) (simp add: code_simps)
  obtain u where u: "leads bios ?s u" "b_ip u = 0x7C0E" "sector_kept ?s u" "bios_calls u = bios_calls s @ [3]"
    using clear_screen_call [OF bios, of ?s] by auto
  obtain t where t: "leads bios u t" "b_ip t = 0x7C14" "b_sp t = 0x7C00" "bios_calls t = bios_calls u @ [0x0E68, 0x0E69, 0x0E0D, 0x0E0A]"
    using print_string_call [OF bios u(2)] u(3) dir msg by (auto simp: sector_kept_def)
  have "boot_step bios t = Some t" using t(2) by (simp add: boot_step_def fetch)
  then show ?thesis
    using t u(4) by (intro exI [of _ t]) (auto intro: leads_trans [OF 1 leads_trans [OF u(1)]])
qed

definition sector_entry :: boot where
  "sector_entry = \<lparr>b_ip = 0x7C00, b_ax = 0xAA55, b_si = 0, b_sp = 0x6F00, b_ds = 0x40, b_es = 0, b_ss = 0, zero_flag = False, direction = False,
     ram = (\<lambda>a. if linear 0 hi_msg_label \<le> a \<and> a < linear 0 hi_msg_label + 5
                 then hi_msg ! unat (a - linear 0 hi_msg_label) else 0), bios_calls = []\<rparr>"

theorem boot_greeting_witness:
  "bios_conforms (\<lambda>s. s) \<and> entered sector_entry
   \<and> (\<exists>t. leads (\<lambda>s. s) sector_entry t \<and> b_ip t = 0x7C14 \<and> boot_step (\<lambda>s. s) t = Some t
     \<and> bios_calls t = [0x0003, 0x0E68, 0x0E69, 0x0E0D, 0x0E0A])"
proof -
  have 1: "bios_conforms (\<lambda>s. s)" by (simp add: bios_conforms_def)
  have 2: "entered sector_entry" by code_simp
  have "bios_calls sector_entry = []" by (simp add: sector_entry_def)
  with 1 2 boot_greeting [OF 1 2] show ?thesis by auto
qed

end
