(* ===== verification/Codes.thy ===== *)
theory Codes
  imports Entry
begin

text \<open>
  The numbers to which the headers give names without the C code using them: key codes of
  \<open>kernel/keyboard.h\<close>, interrupt vectors of \<open>kernel/interrupt.h\<close>, system call numbers of
  \<open>kernel/syscall.h\<close>. The theorems say what the program does when it meets each of them.
\<close>

section \<open>Key codes\<close>

definition KEY_ESC :: u8 where "KEY_ESC = 0x01"
definition KEY_BACKSPACE :: u8 where "KEY_BACKSPACE = 0x0E"
definition KEY_TAB :: u8 where "KEY_TAB = 0x0F"
definition KEY_ENTER :: u8 where "KEY_ENTER = 0x1C"
definition KEY_SPACE :: u8 where "KEY_SPACE = 0x39"
definition KEY_F1 :: u8 where "KEY_F1 = 0x3B"
definition KEY_F2 :: u8 where "KEY_F2 = 0x3C"
definition KEY_F3 :: u8 where "KEY_F3 = 0x3D"
definition KEY_F4 :: u8 where "KEY_F4 = 0x3E"
definition KEY_F5 :: u8 where "KEY_F5 = 0x3F"
definition KEY_F6 :: u8 where "KEY_F6 = 0x40"
definition KEY_F7 :: u8 where "KEY_F7 = 0x41"
definition KEY_F8 :: u8 where "KEY_F8 = 0x42"
definition KEY_F9 :: u8 where "KEY_F9 = 0x43"
definition KEY_F10 :: u8 where "KEY_F10 = 0x44"
definition KEY_F11 :: u8 where "KEY_F11 = 0x57"
definition KEY_F12 :: u8 where "KEY_F12 = 0x58"
definition KEY_PRESSED :: u8 where "KEY_PRESSED = 0x00"

definition function_keys :: "u8 list" where
  "function_keys = [KEY_F1, KEY_F2, KEY_F3, KEY_F4, KEY_F5, KEY_F6, KEY_F7, KEY_F8, KEY_F9, KEY_F10, KEY_F11, KEY_F12]"

section \<open>Vectors\<close>

definition EXCEPTION_DEBUG :: u8 where "EXCEPTION_DEBUG = 0x01"
definition EXCEPTION_NMI :: u8 where "EXCEPTION_NMI = 0x02"
definition EXCEPTION_BREAKPOINT :: u8 where "EXCEPTION_BREAKPOINT = 0x03"
definition EXCEPTION_OVERFLOW :: u8 where "EXCEPTION_OVERFLOW = 0x04"
definition EXCEPTION_BOUND_RANGE :: u8 where "EXCEPTION_BOUND_RANGE = 0x05"
definition EXCEPTION_INVALID_OPCODE :: u8 where "EXCEPTION_INVALID_OPCODE = 0x06"
definition EXCEPTION_DEVICE_NOT_AVAILABLE :: u8 where "EXCEPTION_DEVICE_NOT_AVAILABLE = 0x07"
definition EXCEPTION_DOUBLE_FAULT :: u8 where "EXCEPTION_DOUBLE_FAULT = 0x08"
definition EXCEPTION_INVALID_TSS :: u8 where "EXCEPTION_INVALID_TSS = 0x0A"
definition EXCEPTION_SEGMENT_NOT_PRESENT :: u8 where "EXCEPTION_SEGMENT_NOT_PRESENT = 0x0B"
definition EXCEPTION_STACK_FAULT :: u8 where "EXCEPTION_STACK_FAULT = 0x0C"
definition IRQ_CASCADE :: u8 where "IRQ_CASCADE = 0x22"
definition IRQ_COM2 :: u8 where "IRQ_COM2 = 0x23"
definition IRQ_COM1 :: u8 where "IRQ_COM1 = 0x24"
definition IRQ_LPT2 :: u8 where "IRQ_LPT2 = 0x25"
definition IRQ_FLOPPY :: u8 where "IRQ_FLOPPY = 0x26"
definition IRQ_LPT1 :: u8 where "IRQ_LPT1 = 0x27"

definition other_exceptions :: "u8 list" where
  "other_exceptions = [EXCEPTION_DEBUG, EXCEPTION_NMI, EXCEPTION_BREAKPOINT, EXCEPTION_OVERFLOW, EXCEPTION_BOUND_RANGE, EXCEPTION_INVALID_OPCODE, EXCEPTION_DEVICE_NOT_AVAILABLE, EXCEPTION_DOUBLE_FAULT, EXCEPTION_INVALID_TSS, EXCEPTION_SEGMENT_NOT_PRESENT, EXCEPTION_STACK_FAULT]"

definition other_irqs :: "u8 list" where
  "other_irqs = [IRQ_CASCADE, IRQ_COM2, IRQ_COM1, IRQ_LPT2, IRQ_FLOPPY, IRQ_LPT1]"

text \<open>The stubs that \<open>interrupt.h\<close> declares, by the three macros.\<close>

datatype stub_kind = Decl_ISR_NOERRCODE | Decl_ISR_ERRCODE | Decl_IRQ

definition declared_stubs :: "(u8 \<times> stub_kind) list" where
  "declared_stubs =
     [(0, Decl_ISR_NOERRCODE), (1, Decl_ISR_NOERRCODE), (2, Decl_ISR_NOERRCODE), (3, Decl_ISR_NOERRCODE),
      (4, Decl_ISR_NOERRCODE), (5, Decl_ISR_NOERRCODE), (6, Decl_ISR_NOERRCODE), (7, Decl_ISR_NOERRCODE),
      (8, Decl_ISR_ERRCODE), (10, Decl_ISR_ERRCODE), (11, Decl_ISR_ERRCODE), (12, Decl_ISR_ERRCODE),
      (13, Decl_ISR_ERRCODE), (14, Decl_ISR_ERRCODE),
      (32, Decl_IRQ), (33, Decl_IRQ), (34, Decl_IRQ), (35, Decl_IRQ),
      (36, Decl_IRQ), (37, Decl_IRQ), (38, Decl_IRQ), (39, Decl_IRQ)]"

section \<open>System call numbers\<close>

definition SYS_OPEN :: int where "SYS_OPEN = 5"
definition SYS_CLOSE :: int where "SYS_CLOSE = 6"
definition SYS_WAITPID :: int where "SYS_WAITPID = 7"
definition SYS_CREAT :: int where "SYS_CREAT = 8"
definition SYS_LINK :: int where "SYS_LINK = 9"
definition SYS_UNLINK :: int where "SYS_UNLINK = 10"
definition SYS_EXECVE :: int where "SYS_EXECVE = 11"
definition SYS_CHDIR :: int where "SYS_CHDIR = 12"
definition SYS_MKNOD :: int where "SYS_MKNOD = 14"
definition SYS_CHMOD :: int where "SYS_CHMOD = 15"
definition SYS_ALARM :: int where "SYS_ALARM = 27"
definition SYS_SYNC :: int where "SYS_SYNC = 36"
definition SYS_MKDIR :: int where "SYS_MKDIR = 39"
definition SYS_RMDIR :: int where "SYS_RMDIR = 40"
definition SYS_PIPE :: int where "SYS_PIPE = 42"
definition SYS_SIGNAL :: int where "SYS_SIGNAL = 48"

definition unimplemented_calls :: "int list" where
  "unimplemented_calls = [SYS_OPEN, SYS_CLOSE, SYS_WAITPID, SYS_CREAT, SYS_LINK, SYS_UNLINK, SYS_EXECVE, SYS_CHDIR, SYS_MKNOD, SYS_CHMOD, SYS_ALARM, SYS_SYNC, SYS_MKDIR, SYS_RMDIR, SYS_PIPE, SYS_SIGNAL]"

section \<open>Properties of the named codes\<close>

lemmas key_codes = KEY_ESC_def KEY_BACKSPACE_def KEY_TAB_def KEY_ENTER_def KEY_SPACE_def
lemmas function_key_codes = KEY_F1_def KEY_F2_def KEY_F3_def KEY_F4_def KEY_F5_def KEY_F6_def KEY_F7_def KEY_F8_def KEY_F9_def KEY_F10_def KEY_F11_def KEY_F12_def
lemmas vector_codes = EXCEPTION_DEBUG_def EXCEPTION_NMI_def EXCEPTION_BREAKPOINT_def EXCEPTION_OVERFLOW_def EXCEPTION_BOUND_RANGE_def EXCEPTION_INVALID_OPCODE_def EXCEPTION_DEVICE_NOT_AVAILABLE_def EXCEPTION_DOUBLE_FAULT_def EXCEPTION_INVALID_TSS_def EXCEPTION_SEGMENT_NOT_PRESENT_def EXCEPTION_STACK_FAULT_def IRQ_CASCADE_def IRQ_COM2_def IRQ_COM1_def IRQ_LPT2_def IRQ_FLOPPY_def IRQ_LPT1_def
lemmas call_codes = SYS_OPEN_def SYS_CLOSE_def SYS_WAITPID_def SYS_CREAT_def SYS_LINK_def SYS_UNLINK_def SYS_EXECVE_def SYS_CHDIR_def SYS_MKNOD_def SYS_CHMOD_def SYS_ALARM_def SYS_SYNC_def SYS_MKDIR_def SYS_RMDIR_def SYS_PIPE_def SYS_SIGNAL_def

text \<open>The vectors that get a handler.\<close>

lemma init_interrupts_claims:
  assumes "length (interrupt_handlers s) = 256" "v < 256" "v \<notin> {0, 13, 14, 32, 33}"
  shows "interrupt_handlers (init_interrupts stub a w s) ! v = None"
  using assms by (simp add: init_interrupts_fields nth_fill_loop IDT_SIZE_def)

text \<open>
  Whatever the modifiers, Escape, Backspace, Tab, Enter and Space give their control characters and the
  blank, and a function key is only counted as an invalid code: its press stores nothing.
\<close>

theorem named_keys:
  assumes "k \<in> set function_keys"
  shows "scancode_to_ascii KEY_ESC s = 0x1B \<and> scancode_to_ascii KEY_BACKSPACE s = 0x08 \<and> scancode_to_ascii KEY_TAB s = 0x09
    \<and> scancode_to_ascii KEY_ENTER s = 0x0A \<and> scancode_to_ascii KEY_SPACE s = 0x20
    \<and> handle_key_press k s = s\<lparr>kb_stats := (kb_stats s)\<lparr>invalid_scancodes := invalid_scancodes (kb_stats s) + 1\<rparr>\<rparr>"
proof -
  have "scancode_to_ascii k s = 0 \<and> \<not> is_special_key k"
    using assms by (auto simp: function_keys_def function_key_codes scancode_to_ascii_def scancode_to_ascii_table_def shifted_chars_def
        is_special_key_def KEY_LSHIFT_def KEY_RSHIFT_def KEY_CTRL_def KEY_ALT_def KEY_CAPS_def)
  then have "handle_key_press k s = s\<lparr>kb_stats := (kb_stats s)\<lparr>invalid_scancodes := invalid_scancodes (kb_stats s) + 1\<rparr>\<rparr>"
    by (simp add: handle_key_press_def)
  then show ?thesis
    by (simp add: key_codes scancode_to_ascii_def scancode_to_ascii_table_def shifted_chars_def word_le_nat_alt)
qed

theorem named_keys_witness:
  "kb_stats (handle_key_press KEY_F11 power_on_keyboard)
     = (kb_stats power_on_keyboard)\<lparr>invalid_scancodes := invalid_scancodes (kb_stats power_on_keyboard) + 1\<rparr>"
  using named_keys [of KEY_F11 power_on_keyboard] by (simp add: function_keys_def)

text \<open>
  The vectors that \<open>interrupt.h\<close> declares are the ones \<open>init_idt\<close> installs and \<open>interrupt_asm.s\<close> defines,
  each declared by the macro that its stub is written with; an error code is expected exactly where the
  processor pushes one. After \<open>init_interrupts\<close> the named vectors other than the five claimed ones have
  no handler: such a device interrupt is acknowledged and counted and has no other effect, while such an
  exception is reported and then returned from, to the instruction that raised it.
\<close>

theorem unclaimed_vectors:
  fixes s :: "'a kernel_scheme"
  assumes "length (interrupt_handlers s) = 256" and t_def: "t = init_interrupts stub a w s"
  shows "map fst declared_stubs = gate_vectors
    \<and> (\<forall>(v, k) \<in> set declared_stubs. entry_stub v = Some (case k of Decl_ISR_NOERRCODE \<Rightarrow> ISR_NOERRCODE v
          | Decl_ISR_ERRCODE \<Rightarrow> ISR_ERRCODE v | Decl_IRQ \<Rightarrow> IRQ v) \<and> (error_code_vector v \<longleftrightarrow> k = Decl_ISR_ERRCODE))
    \<and> (int_no ctx \<in> ucast ` set other_irqs \<longrightarrow> irq_handler run_handler ctx t
          = Return (t\<lparr>interrupt_count := interrupt_count t + 1, port_output := port_output t @ [(0x20, 0x20)]\<rparr>))
    \<and> (int_no ctx \<in> ucast ` set other_exceptions \<longrightarrow> (\<exists>u. isr_handler run_handler ctx t = Return u
          \<and> interrupt_count u = interrupt_count t + 1 \<and> tasks u = tasks t \<and> mem u = mem t))"
proof (intro conjI impI)
  show "map fst declared_stubs = gate_vectors" by (simp add: declared_stubs_def gate_vectors_def)
  show "\<forall>(v, k) \<in> set declared_stubs. entry_stub v = Some (case k of Decl_ISR_NOERRCODE \<Rightarrow> ISR_NOERRCODE v
      | Decl_ISR_ERRCODE \<Rightarrow> ISR_ERRCODE v | Decl_IRQ \<Rightarrow> IRQ v) \<and> (error_code_vector v \<longleftrightarrow> k = Decl_ISR_ERRCODE)"
    by (simp add: declared_stubs_def entry_stub_def error_code_vector_def)
next
  assume "int_no ctx \<in> ucast ` set other_irqs"
  then have "unat (int_no ctx) \<in> {34, 35, 36, 37, 38, 39}" "(ucast (int_no ctx - 32) :: u8) < 8"
    by (auto simp: other_irqs_def vector_codes)
  moreover from this have "interrupt_handlers t ! unat (int_no ctx) = None"
    unfolding t_def by (intro init_interrupts_claims [OF assms(1)]) auto
  ultimately show "irq_handler run_handler ctx t
      = Return (t\<lparr>interrupt_count := interrupt_count t + 1, port_output := port_output t @ [(0x20, 0x20)]\<rparr>)"
    by (auto simp: irq_handler_def send_eoi_def outb_def Let_def IDT_SIZE_def)
next
  assume "int_no ctx \<in> ucast ` set other_exceptions"
  then have "unat (int_no ctx) \<in> {1, 2, 3, 4, 5, 6, 7, 8, 10, 11, 12}"
    by (auto simp: other_exceptions_def vector_codes)
  moreover from this have "interrupt_handlers t ! unat (int_no ctx) = None"
    unfolding t_def by (intro init_interrupts_claims [OF assms(1)]) auto
  ultimately show "\<exists>u. isr_handler run_handler ctx t = Return u
      \<and> interrupt_count u = interrupt_count t + 1 \<and> tasks u = tasks t \<and> mem u = mem t"
    by (auto simp: isr_handler_def print_interrupt_info_def Let_def IDT_SIZE_def)
qed

theorem unclaimed_vectors_witness:
  "\<exists>u. irq_handler run_handler (zero_context 36) (init_interrupts (\<lambda>v. 0) 0 0 power_on_kernel) = Return u
     \<and> interrupt_count u = interrupt_count (init_interrupts (\<lambda>v. 0) 0 0 power_on_kernel) + 1"
proof -
  have "length (interrupt_handlers power_on_kernel) = 256" by (simp add: power_on_defs)
  moreover have "int_no (zero_context 36) \<in> ucast ` set other_irqs"
    by (simp add: zero_context_def other_irqs_def vector_codes)
  ultimately show ?thesis using unclaimed_vectors [OF _ refl, of power_on_kernel "zero_context 36" "\<lambda>v. 0" 0 0] by auto
qed

text \<open>
  Of the 26 system call numbers that \<open>syscall.h\<close> names, exactly the sixteen without a handler fail: after
  \<open>init_syscalls\<close> such a call returns -1, counts as a failed one and has no other effect.
\<close>

theorem unimplemented_calls_fail:
  assumes "length (syscall_table s) = 64" "sint (eax p) \<in> set unimplemented_calls"
  defines "t \<equiv> init_syscalls s"
  shows "handle_syscall p t = (-1, t\<lparr>sys_stats := (sys_stats t)\<lparr>total_calls := 1, failed_calls := 1\<rparr>\<rparr>)
    \<and> (\<forall>n \<in> {SYS_EXIT, SYS_FORK, SYS_READ, SYS_WRITE, SYS_TIME, SYS_GETPID, SYS_GETUID, SYS_PAUSE, SYS_KILL, SYS_BRK}.
         syscall_table t ! nat n \<noteq> None \<and> n \<notin> set unimplemented_calls)"
proof -
  have "nat (sint (eax p)) < 64" "registered (nat (sint (eax p))) = None" "is_valid_syscall (sint (eax p))"
    using assms(2) by (auto simp: unimplemented_calls_def call_codes registered_def is_valid_syscall_def NR_SYSCALLS_def)
  then have "\<not> accepted p t" unfolding accepted_def t_def using init_syscall_table(1) [OF assms(1)] by simp
  then have "handle_syscall p t = (-1, t\<lparr>sys_stats := (sys_stats t)\<lparr>total_calls := 1, failed_calls := 1\<rparr>\<rparr>)"
    by (simp add: handle_syscall_eq Let_def t_def init_syscalls_stats)
  then show ?thesis
    unfolding t_def by (auto simp: init_syscall_table(1) [OF assms(1)] registered_def unimplemented_calls_def call_codes SYS_EXIT_def
      SYS_FORK_def SYS_READ_def SYS_WRITE_def SYS_TIME_def SYS_GETPID_def SYS_GETUID_def SYS_PAUSE_def SYS_KILL_def SYS_BRK_def)
qed

theorem unimplemented_calls_fail_witness:
  "sint (eax (call_of 11)) \<in> set unimplemented_calls \<and> fst (handle_syscall (call_of 11) (init_syscalls power_on_kernel)) = -1"
proof -
  have n: "sint (eax (call_of 11)) \<in> set unimplemented_calls" by (simp add: call_of_def unimplemented_calls_def call_codes)
  then show ?thesis using unimplemented_calls_fail [OF _ n, of power_on_kernel] by simp
qed

end
