(* ===== verification/Spec2Isabelle.thy ===== *)
theory Spec2Isabelle
  imports Terminal User Concurrent Boot Codes
begin

text \<open>
  \<^bold>\<open>A verification of the kernel of os-simple.\<close>

  The repository holds a small 32-bit x86 kernel in C (\<open>src/kernel/*.c\<close>, \<open>*.h\<close>) with two assembly files,
  and a boot sector (\<open>src/boot/boot.asm\<close>).
  \<open>kernel_main\<close> initialises the interrupt tables, the memory manager, the system calls, the
  scheduler and the task manager, enables interrupts, tries out the heap and the keyboard and then
  echoes keys for ever; timer and keyboard interrupts arrive at any time after that. This
  development models all function bodies of the C code and the entry code in assembly as
  executable functions on one explicit state, and proves what makes the components correct, what
  the whole kernel keeps invariant, and where the code does not do what it is meant to.

  \<^bold>\<open>State.\<close> C's global variables are the fields of one record, extended theory by theory:
  \<open>console\<close> (video buffer, cursor, and a log \<open>stray_stores\<close> of the stores through the video pointer that miss
  the 2000 cells of the screen, so that none is silent), \<open>machine\<close> (ports, interrupt flag), \<open>memory\<close> (byte memory, memory
  manager, statistics), \<open>tasking\<close> (task array, current task, list head), \<open>scheduling\<close>, \<open>interrupts\<close>
  (descriptor table, handler table, counters), \<open>keyboard\<close>, \<open>kernel\<close> (system call table and
  statistics). Operations are polymorphic in the extension, so one definition serves every later
  state. Machine integers are words of their width, and so is the \<open>int\<close> that \<open>sys_fork\<close> counts up; C's other \<open>int\<close> counters and identifiers are \<open>int\<close>,
  pointers into static arrays are indices (\<open>None\<close> for NULL), pointers into the heap are 32-bit
  addresses. A loop that need not end is a \<open>partial_function (option)\<close> with \<open>None\<close> for not
  returning; \<open>outcome\<close> adds halting for ever and undefined behaviour. The theorems show that the
  loops end wherever their data structure is well-formed; no fuel is used.

  \<^bold>\<open>Theories\<close>, in the order of the code's layers:
  \<^item> \<open>Prelude\<close>: types of words, C strings, \<open>outcome\<close>, walks over linked lists and loops that fill
    arrays, with the lemmas and named collections the components share.
  \<^item> \<open>Console\<close> (\<open>kernel.c\<close>: \<open>clear_screen\<close> to \<open>print_string\<close>; \<open>print_hex\<close>): no printing function stores
    outside the screen, scrolling moves every row up and blanks the last, decimal output. Locale \<open>console_frame\<close>: printing changes nothing else.
  \<^item> \<open>Ports\<close> (\<open>outb\<close>, \<open>inb\<close>, \<open>sti\<close>, \<open>cli\<close>), \<open>Messages\<close> (the UTF-8 bytes of the Arabic string literals),
    \<open>Bytes\<close> (little-endian words in memory, \<open>memset\<close>, \<open>memcpy\<close>, \<open>memcmp\<close>).
  \<^item> \<open>Memory\<close> (\<open>memory.c\<close>): the heap with its block headers in byte memory and the page table.
    \<open>Heap\<close> relates the chain of headers to a list of blocks and verifies the loops over it, \<open>Allocator\<close>
    proves that \<open>kmalloc\<close> and \<open>kfree\<close> refine first fit and release-and-coalesce on that list and
    states the contract of an allocator as the locale \<open>allocator\<close>, interpreted for the heap and, in
    \<open>Pages\<close>, for the pages; \<open>Heap_Properties\<close> holds the properties, of single calls on any well-formed heap and of
    histories of calls on the initialised one.
  \<^item> \<open>Task\<close> (\<open>task.c\<close>): the task table and its invariant, creation, the round-robin choice, exit, sleep
    and wake-up, and any history of these operations. \<open>Scheduler\<close> (\<open>scheduler.c\<close>): the ready queue as an
    instance of the locale \<open>ready_queue\<close>, the three policies, priorities, ticks.
  \<^item> \<open>Interrupt\<close> (\<open>interrupt.c\<close>): descriptor table, controllers, registration, dispatchers, handlers.
    \<open>Keyboard\<close> (\<open>keyboard.c\<close>): the ring buffer as an instance of the locale \<open>bounded_queue\<close> (a first-in first-out queue
    over any history of puts, gets and flushes), modifiers, translation, the interrupt handler. \<open>Syscall\<close> (\<open>syscall.c\<close>, \<open>syscall.h\<close>): table, dispatcher, handlers.
  \<^item> \<open>Kernel\<close> (\<open>kernel_main\<close>, \<open>demo_task\<close>): the boot as a function, the rest of the main program as
    steps, of which the instruction \<open>hlt\<close> at the end of the main loop is one (\<open>Main_hlt\<close>: before it, \<open>Main_waiting\<close>:
    halted until an interrupt makes the loop start over, \<open>wake\<close>), the system as a step relation in which interrupts interleave with them, and the locale
    \<open>kernel_part\<close>: what a predicate has to satisfy to be an invariant of the running system. \<open>System\<close>
    interprets it for every component's invariant, through the locales \<open>quiet_part\<close> and
    \<open>boot_part\<close>, and proves that the boot establishes them and that no step gets stuck.
  \<^item> \<open>Entry\<close> (\<open>interrupt_asm.s\<close>, \<open>syscall_asm.s\<close>): the stubs instruction by instruction on registers and
    stack, the frame they build, what the C dispatcher gets and what the interrupted program gets
    back (locale \<open>neutral_dispatcher\<close>). \<open>User\<close> (\<open>syscall.h\<close>, \<open>syscall_asm.s\<close>): the macros and
    inline functions around \<open>int 0x80\<close> and the routines \<open>test_syscalls\<close> and \<open>syscall_print\<close>.
  \<^item> \<open>Resume\<close>: programs as sequences of atomic actions on a shared state that an environment may change
    between any two of them, and rely-guarantee rules for them, proved sound. \<open>Preempt\<close>: the functions
    that \<open>kernel_main\<close> calls after \<open>enable_interrupts()\<close>, as such programs, one action per access to a
    variable that a handler uses too; run alone they are the functions of the earlier theories (\<open>run_step_prog\<close>).
    \<open>Interference\<close>: what a hardware interrupt keeps (locales \<open>screen_part\<close>, \<open>ring_part\<close>, \<open>background\<close>) and
    the printing functions under it. \<open>Concurrent\<close>: the ring buffer read while keys arrive (locales
    \<open>heap_background\<close>, \<open>key_reader\<close>, \<open>ring_background\<close>), and the main program interrupted at any action.
  \<^item> \<open>Codes\<close>: the key codes, vectors and system call numbers that the headers name and the C code does not
    use, with what the program does when it meets one. \<open>Boot\<close> (\<open>boot.asm\<close>): the boot sector on a
    real-mode machine with the firmware's video service as an argument.
  \<^item> \<open>History\<close>: sequences of main steps and interrupts after the boot, the invariant of the whole state, and the
    idle loop of \<open>scheduler.c\<close>. \<open>Terminal\<close>: an abstract echo terminal (modifiers, waiting characters, counters, current
    task, printed text, awake or asleep) and the proof that the kernel in its main loop, with all its handlers, implements it; from it the echo of typed
    text and the wake-up that can be lost between the test of the buffer and \<open>hlt\<close> (\<open>wakeup_lost\<close>).
  \<^item> This theory: the properties of the whole kernel.

  \<^bold>\<open>Parameters.\<close> What a device answers (\<open>port_input\<close>), the addresses the linker chooses and the stack word
  \<open>load_idt\<close> finds (\<open>link\<close>), and what a compiled C function leaves in scratch registers and below the
  stack pointer (\<open>c_frame\<close>) are arbitrary; theorems hold for all of them. The firmware called by the boot
  sector is an argument, restricted by \<open>bios_conforms\<close> to what its documentation promises. The processor's interrupt
  sequence and the C calling convention are modelled as the architecture defines them.

  \<^bold>\<open>Granularity.\<close> There are two models of a running kernel. In \<open>system_step\<close> interrupts are taken between the
  parts of \<open>kernel_main\<close>; the invariants and the effect of each part are stated there. In \<open>preempt_step\<close>
  they are taken between any two accesses to a shared variable, with \<open>x++\<close> as a load and a store; the
  heap functions stay one action each, because no handler touches the heap. The first is included in
  the second (\<open>coarse_steps_included\<close>), and what holds of every moment of the second is \<open>preempt_safe\<close>:
  every store of the screen functions goes to the screen or, when an interrupt moved the cursor in between, to the
  80 cells behind it (\<open>dot_behind_screen\<close> shows that this happens).
  Whether \<open>count--\<close> of the ring buffer is one instruction is a parameter (\<open>atomic\<close>): if it is, reading is
  correct under interrupts (\<open>interrupted_get_fifo\<close>); if it is not, as the Makefile's options have it, a
  key can be lost (\<open>decrement_loses_key\<close>). The interrupt gates keep further interrupts off while a handler
  runs, so a handler is one step in both.
  Steps of both take an arbitrary context, because the stubs do not pass their frame to C
  (\<open>irq_context_pointer\<close>); they assume that the descriptor table register IDTR points to the table, which
  \<open>load_idt\<close>, called without its argument, does not guarantee. So does \<open>int80\<close>, the instruction \<open>int 0x80\<close>,
  which follows the type, the presence bit and the offset of descriptor 0x80: a gate to the address of
  \<open>syscall_entry\<close> runs its instructions, a gate to another address is undefined. A context switch is what the code does:
  \<open>schedule\<close> changes \<open>current_task\<close> and the states, but no register, so the main program goes on in every case.

  \<^bold>\<open>Memory.\<close> The static variables and the video buffer are fields of the state and not bytes of \<open>mem\<close>, which
  holds the heap, the stacks and whatever a caller's pointer designates. A store of the code through a pointer it
  is given (\<open>sys_time\<close>, \<open>memset\<close>, \<open>memcpy\<close>) or through a corrupted header into the kernel's own variables is
  therefore outside the model: the theorems are about pointers to other memory.

  \<^bold>\<open>Not modelled.\<close> The linker script and the Makefile; functions that are declared without a body
  (\<open>defragment_memory\<close>, \<open>set_scheduling_policy\<close> and others); the status bits of the keyboard controller other than the input bit and the timer frequency
  \<open>HZ\<close>, which no code uses; the unused messages at the end of \<open>syscall_asm.s\<close>.
\<close>

section \<open>Properties of the whole kernel\<close>

text \<open>
  C4: the system invariant. In every state the kernel can reach after it has booted from its zeroed
  static data, by its own steps and by interrupts in any order and with any contexts, the screen
  cursor is on the screen, the heap, the page table, the task table and the keyboard buffer are
  well-formed and interrupts are enabled; the next step of the main program returns, and so does
  the dispatcher for every hardware interrupt.
\<close>

theorem system_safe:
  assumes "zeroed_image s" "reachable l s (p, t)"
  shows "console_inv t \<and> heap_ok t \<and> pages_ok t \<and> tasks_ok t \<and> kb_ok t \<and> handlers_ok t \<and> interrupt_flag t
    \<and> (\<exists>q u. main_step p t = Some (q, u))
    \<and> (\<forall>ctx. 32 \<le> unat (int_no ctx) \<longrightarrow> unat (int_no ctx) < 40 \<longrightarrow> (\<exists>u. irq_handler run_handler ctx t = Return u))"
proof -
  have "system_ok t" using reachable_system_ok [OF assms] by simp
  then have ok: "console_inv t" "heap_ok t" "pages_ok t" "tasks_ok t" "kb_ok t" "handlers_ok t" "interrupt_flag t"
    by (simp_all add: system_ok_def)
  with main_step_progress [OF ok(2), of p] irq_progress [OF ok(4,6)] show ?thesis by blast
qed

theorem system_safe_witness:
  "\<exists>t. kernel_boot zero_link power_on_kernel = Some t \<and> heap_ok t \<and> (\<exists>q u. main_step Heap_test t = Some (q, u))"
proof -
  obtain t where t: "kernel_boot zero_link power_on_kernel = Some t" using boot_system_ok [OF power_on_zeroed] by blast
  from system_safe [OF power_on_zeroed reachable.boot [OF t]] t show ?thesis by blast
qed

text \<open>
  C10: the kernel starts and reaches its main loop. From zeroed static data the boot returns, every
  sequence of steps of the main program and hardware interrupts after it returns, and once the
  main program has made ten steps it is in its endless loop, whatever interrupts came between.
\<close>

theorem kernel_reaches_main_loop:
  assumes "zeroed_image s" "\<forall>e \<in> set es. hardware_vector e"
  shows "\<exists>t q u. kernel_boot l s = Some t \<and> run_events es (Heap_test, t) = Some (q, u) \<and> reachable l s (q, u)
    \<and> (10 \<le> length (filter (\<lambda>e. e = Main) es) \<longrightarrow> in_loop q)"
proof -
  obtain t where t: "kernel_boot l s = Some t" using boot_system_ok [OF assms(1)] by blast
  from run_events_ok [OF assms(1) reachable.boot [OF t] assms(2)] show ?thesis using t rank_0 by fastforce
qed

theorem kernel_reaches_main_loop_witness:
  "\<exists>t q u. kernel_boot zero_link power_on_kernel = Some t
    \<and> run_events (Irq (zero_context 32) # replicate 10 Main) (Heap_test, t) = Some (q, u) \<and> in_loop q"
proof -
  have "\<forall>e \<in> set (Irq (zero_context 32) # replicate 10 Main). hardware_vector e"
    by (simp add: hardware_vector_def zero_context_def)
  from kernel_reaches_main_loop [OF power_on_zeroed this, of zero_link] show ?thesis by (auto simp del: run_events.simps)
qed

text \<open>
  The memory test of the main program. On the freshly initialised heap its three requests are
  granted one behind the other, \<open>kfree\<close> of the second makes a hole of its size between the two
  others, and the rest of the heap stays one free block.
\<close>

theorem heap_test_layout:
  assumes "heap_ok s" "heap_blocks s = [(HEAP_LEN - 20, True)]"
  shows "\<exists>t u. heap_test s = Some (0x100428, t) \<and> heap_release 0x100428 t = Some u
    \<and> heap_blocks t = [(1024, False), (2048, False), (512, False), (HEAP_LEN - 3664, True)]
    \<and> heap_blocks u = [(1024, False), (2048, True), (512, False), (HEAP_LEN - 3664, True)]
    \<and> live u = {(0x100014, 1024), (0x100C3C, 512)}"
proof -
  have al: "unat (align_address 1024 4) = 1024" "unat (align_address 2048 4) = 2048" "unat (align_address 512 4) = 512"
    by code_simp+
  define r where "r = print_string msg_kernel_151 (print_string msg_kernel_148 (print_string msg_kernel_147
    (print_string (cstr ''hi'' @ [0x0A]) (print_string msg_kernel_145 s))))"
  have r: "heap_inv r [(HEAP_LEN - 20, True)]"
    using assms heap_ok_cong [of r s] unfolding r_def heap_ok_def by simp
  obtain a where a: "kmalloc 1024 r = Some (adr 0x100014, a)" "heap_inv a [(1024, False), (HEAP_LEN - 1064, True)]"
    by (rule kmalloc_to [OF r _ al(1)]) (auto simp: spec_alloc_def split_block_def)
  obtain b where b: "kmalloc 2048 a = Some (adr 0x100428, b)"
      "heap_inv b [(1024, False), (2048, False), (HEAP_LEN - 3132, True)]"
    by (rule kmalloc_to [OF a(2) _ al(2)]) (auto simp: spec_alloc_def split_block_def)
  obtain c where c: "kmalloc 512 b = Some (adr 0x100C3C, c)"
      "heap_inv c [(1024, False), (2048, False), (512, False), (HEAP_LEN - 3664, True)]"
    by (rule kmalloc_to [OF b(2) _ al(3)]) (auto simp: spec_alloc_def split_block_def)
  define t where "t = print_memory_info (print_string msg_kernel_158 c)"
  have "mem t = mem c" "manager t = manager c" "mstats t = mstats c" "memory_initialized t = memory_initialized c"
    unfolding t_def print_memory_info_def Let_def by simp_all
  note same = heap_ok_cong [OF this]
  have t: "heap_test s = Some (0x100428, t)" "heap_ok t"
      "heap_blocks t = [(1024, False), (2048, False), (512, False), (HEAP_LEN - 3664, True)]"
    using a(1) b(1) c(1) same(1,2) heap_okI [OF c(2)] unfolding heap_test_def Let_def r_def t_def by (simp_all add: adr_def)
  obtain d where d: "kfree 0x100428 t = Some d"
      "heap_blocks d = [(1024, False), (2048, True), (512, False), (HEAP_LEN - 3664, True)]"
    using kfree_ok [OF t(2), of "0x100428"] t(3) by (auto simp: spec_free_def)
  let ?u = "print_memory_info (print_string msg_kernel_163 d)"
  have "mem ?u = mem d" "manager ?u = manager d" "mstats ?u = mstats d" "memory_initialized ?u = memory_initialized d"
    unfolding print_memory_info_def Let_def by simp_all
  note same = heap_ok_cong [OF this]
  have "heap_release 0x100428 t = Some ?u" using d(1) unfolding heap_release_def Let_def by simp
  then show ?thesis using t d(2) same(1) by (auto simp: live_def)
qed

theorem heap_test_layout_witness:
  "\<exists>t u. heap_test (init_memory_manager power_on_kernel) = Some (0x100428, t) \<and> heap_release 0x100428 t = Some u
    \<and> live u = {(0x100014, 1024), (0x100C3C, 512)}"
proof -
  have "heap_ok (init_memory_manager power_on_kernel)"
    "heap_blocks (init_memory_manager power_on_kernel) = [(HEAP_LEN - 20, True)]"
    using heap_okI [OF init_heap_inv] by blast+
  from heap_test_layout [OF this] show ?thesis by blast
qed

text \<open>
  From a key press to the screen. With the keyboard initialised and its buffer empty, the
  interrupt of a key that has a character puts the character into the buffer, and the next
  iteration of the main loop takes it out and prints it after its label. The controller gets the
  end-of-interrupt command twice, from \<open>irq_handler\<close> and from the keyboard handler.
\<close>

theorem key_press_echoed:
  fixes s :: "'a kernel_scheme"
  assumes "kb_rep s []" "interrupt_handlers s ! 33 = Some Keyboard_interrupt_handler" "int_no ctx = 33"
    and key: "port_input s (port_reads s) 0x60 = sc" "sc < 128" "\<not> is_special_key sc" "scancode_to_ascii sc s = c" "c \<noteq> 0"
  shows "\<exists>t v u. irq_handler run_handler ctx s = Return t \<and> kb_rep t [c]
    \<and> port_output t = port_output s @ [(0x20, 0x20), (0x20, 0x20)]
    \<and> main_loop t = Some u \<and> kb_rep u []
    \<and> u = print_string [0x0A] (print_char c (print_string (cstr ''Input: '') v))
    \<and> vga_buffer v = vga_buffer s \<and> cursor_x v = cursor_x s \<and> cursor_y v = cursor_y s"
proof -
  obtain p where ret: "irq_handler run_handler ctx s = Return (outb 0x20 0x20 (handle_key_press sc p))"
    and p: "kb_buffer p = kb_buffer s" "kb_state p = kb_state s" "port_output p = port_output s @ [(0x20, 0x20)]"
      "vga_buffer p = vga_buffer s" "cursor_x p = cursor_x s" "cursor_y p = cursor_y s"
    by (rule key_irq [OF assms(2,3) key(1,2)])
  define t where "t = outb 0x20 0x20 (handle_key_press sc p)"
  have "typed sc p = [c]" using key(3-5) scancode_to_ascii_cong [OF p(2)] by (simp add: typed_def)
  moreover have "kb_rep p []" using assms(1) kb_rep_cong [OF p(1)] by simp
  ultimately have t: "kb_rep t [c]" using handle_key_press_rep [of p "[]" sc] unfolding t_def by simp
  have screen: "vga_buffer t = vga_buffer s \<and> cursor_x t = cursor_x s \<and> cursor_y t = cursor_y s"
    using handle_key_only(1) [of sc p] p(4-) by (auto simp: t_def outb_def)
  obtain v where v: "keyboard_buffer_get t = (c, v)" "kb_rep v []" using kb_get_front [OF t] by blast
  have "\<exists>b. v = t\<lparr>kb_buffer := b\<rparr>" using keyboard_get_only [of t] v(1) by simp
  then have "vga_buffer v = vga_buffer s" "cursor_x v = cursor_x s" "cursor_y v = cursor_y s" using screen by auto
  moreover have "main_loop t = Some (print_string [0x0A] (print_char c (print_string (cstr ''Input: '') v)))"
    using kb_empty [OF t] v(1) by (simp add: main_loop_def keyboard_has_input_def echo_key_def keyboard_getchar_def Let_def)
  moreover have "port_output t = port_output s @ [(0x20, 0x20), (0x20, 0x20)]"
    unfolding t_def by (simp add: outb_def p(3))
  ultimately show ?thesis using ret t v(2) by (auto simp: t_def)
qed

theorem key_press_echoed_witness:
  "\<exists>t u v. irq_handler run_handler (zero_context 33) (init_keyboard (power_on_kernel\<lparr>port_input := \<lambda>k p. 0x1E\<rparr>)) = Return t
     \<and> main_loop t = Some u \<and> u = print_string [0x0A] (print_char 0x61 (print_string (cstr ''Input: '') v))"
proof -
  let ?s = "init_keyboard (power_on_kernel\<lparr>port_input := \<lambda>k p. 0x1E\<rparr>)"
  have h: "length (interrupt_handlers power_on_kernel) = 256" "length (buffer (kb_buffer power_on_kernel)) = 256"
    by (simp_all add: power_on_defs)
  then have rep: "kb_rep ?s []" by (intro init_keyboard_rep) simp
  have handler: "interrupt_handlers ?s ! 33 = Some Keyboard_interrupt_handler"
    using h by (simp add: init_keyboard_def register_interrupt_handler_def Let_def)
  have input: "port_input ?s (port_reads ?s) 0x60 = 0x1E"
    by (simp add: init_keyboard_def register_interrupt_handler_def Let_def)
  have st: "\<not> shift_pressed (kb_state ?s)" "\<not> caps_lock (kb_state ?s)"
    by (simp_all add: init_keyboard_def register_interrupt_handler_def Let_def)
  have ascii: "scancode_to_ascii 0x1E ?s = 0x61"
    using st by (simp add: scancode_to_ascii_def scancode_to_ascii_table_def Let_def)
  have special: "\<not> is_special_key 0x1E"
    by (simp add: is_special_key_def KEY_LSHIFT_def KEY_RSHIFT_def KEY_CTRL_def KEY_ALT_def KEY_CAPS_def)
  show ?thesis
    using key_press_echoed [OF rep handler _ input _ special ascii, of "zero_context 33"] by (auto simp: zero_context_def)
qed

end
